(* ===== verification/Prelude.thy ===== *)
theory Prelude
  imports Main "HOL-Library.Word" "HOL-Library.Monad_Syntax"
begin

text \<open>
  Shared vocabulary of the MiniVisor development: Rust's \<open>Result\<close>, panics, checked
  \<open>usize\<close> arithmetic, alignment by masking, and the doubly linked list predicate that the
  memory allocator's two kinds of list are instances of.

  \<^item> A Rust computation that may panic is a value of type \<open>'a option\<close>: \<open>panic\<close> stands for an
    assertion failure, an arithmetic overflow under the dev profile (the profile the cargo
    runner uses), an \<open>unwrap\<close> of \<open>None\<close>, an index out of range, or a loop that
    does not end; \<open>ret x\<close> for a normal return.
  \<^item> \<open>usize\<close> values are natural numbers; every operation of the source that can leave the
    range of 64-bit unsigned integers is one of the checked operations below. Register values are words.
\<close>

unbundle bit_operations_syntax

section \<open>Types and computations\<close>

type_synonym u8 = "8 word"
type_synonym u16 = "16 word"
type_synonym u32 = "32 word"
type_synonym u64 = "64 word"
type_synonym usize = nat

datatype ('a, 'e) result = Ok 'a | Err 'e

text \<open>\<open>Result::ok\<close>.\<close>

fun result_ok :: "('a, 'e) result \<Rightarrow> 'a option" where
  "result_ok (Ok x) = Some x"
| "result_ok (Err e) = None"

abbreviation (input) ret :: "'a \<Rightarrow> 'a option" where
  "ret x \<equiv> Some x"

abbreviation (input) panic :: "'a option" where
  "panic \<equiv> None"

definition rust_assert :: "bool \<Rightarrow> unit option" where
  "rust_assert b = (if b then ret () else panic)"

definition usize_range :: nat where
  "usize_range = 2 ^ 64"

definition uadd :: "usize \<Rightarrow> usize \<Rightarrow> usize option" where
  "uadd a b = (if a + b < usize_range then ret (a + b) else panic)"

definition usub :: "usize \<Rightarrow> usize \<Rightarrow> usize option" where
  "usub a b = (if b \<le> a then ret (a - b) else panic)"

definition umul :: "usize \<Rightarrow> usize \<Rightarrow> usize option" where
  "umul a b = (if a * b < usize_range then ret (a * b) else panic)"

text \<open>\<open>1 << k\<close> on \<open>usize\<close>: a shift amount of 64 or more panics.\<close>

definition ushl1 :: "usize \<Rightarrow> usize option" where
  "ushl1 k = (if k < 64 then ret (2 ^ k) else panic)"

text \<open>\<open>a & !(m - 1)\<close> on \<open>usize\<close>, for a mask built from the power of two \<open>m\<close>.\<close>

definition uand_not :: "usize \<Rightarrow> usize \<Rightarrow> usize" where
  "uand_not a m = unat ((word_of_nat a :: u64) AND NOT (word_of_nat (m - 1)))"

text \<open>Indexing into a Rust array or slice: out of range panics.\<close>

definition arr_get :: "'a list \<Rightarrow> nat \<Rightarrow> 'a option" where
  "arr_get xs i = (if i < length xs then ret (xs ! i) else panic)"

definition arr_set :: "'a list \<Rightarrow> nat \<Rightarrow> 'a \<Rightarrow> 'a list option" where
  "arr_set xs i v = (if i < length xs then ret (xs[i := v]) else panic)"

section \<open>Proof collections\<close>

named_theorems checked_simps \<open>introduction of checked operations\<close>

lemma uadd_Some_iff [checked_simps]: "uadd a b = Some c \<longleftrightarrow> a + b < usize_range \<and> c = a + b"
  by (auto simp: uadd_def)

lemma usub_Some_iff [checked_simps]: "usub a b = Some c \<longleftrightarrow> b \<le> a \<and> c = a - b"
  by (auto simp: usub_def)

lemma umul_Some_iff [checked_simps]: "umul a b = Some c \<longleftrightarrow> a * b < usize_range \<and> c = a * b"
  by (auto simp: umul_def)

lemma ushl1_Some_iff [checked_simps]: "ushl1 k = Some c \<longleftrightarrow> k < 64 \<and> c = 2 ^ k"
  by (auto simp: ushl1_def)

lemma rust_assert_Some_iff [checked_simps]: "rust_assert b = Some u \<longleftrightarrow> b"
  by (auto simp: rust_assert_def)

lemma arr_get_Some_iff [checked_simps]: "arr_get xs i = Some v \<longleftrightarrow> i < length xs \<and> v = xs ! i"
  by (auto simp: arr_get_def)

lemma arr_set_Some_iff [checked_simps]: "arr_set xs i v = Some ys \<longleftrightarrow> i < length xs \<and> ys = xs[i := v]"
  by (auto simp: arr_set_def)

lemma rust_assert_True [simp]: "rust_assert True = Some ()"
  by (simp add: rust_assert_def)

lemma case_result_eqE:
  assumes "(case r of Ok a \<Rightarrow> f a | Err e \<Rightarrow> g e) = v"
  obtains a where "r = Ok a" "f a = v" | e where "r = Err e" "g e = v"
  using assms by (cases r) auto

lemma option_bindE:
  assumes "Option.bind m f = Some y"
  obtains x where "m = Some x" "f x = Some y"
  using assms by (auto simp: bind_eq_Some_conv)

lemma option_bind_NoneE:
  assumes "Option.bind m f = None"
  obtains "m = None" | x where "m = Some x" "f x = None"
  using assms by (cases m) auto

lemma if_None_eqE:
  assumes "(if P then x else y) = None"
  obtains "P" "x = None" | "\<not> P" "y = None"
  using assms by (auto split: if_splits)

lemma if_Some_eqE:
  assumes "(if P then x else y) = Some z"
  obtains "P" "x = Some z" | "\<not> P" "y = Some z"
  using assms by (auto split: if_splits)


lemma uand_not_eq:
  assumes "a < 2 ^ 64" and "k < 64"
  shows "uand_not a (2 ^ k) = a div 2 ^ k * 2 ^ k"
proof -
  have m: "word_of_nat (2 ^ k - 1) = (mask k :: u64)"
    by (simp add: mask_eq_exp_minus_1 of_nat_diff)
  have "(word_of_nat a :: u64) AND NOT (mask k) = push_bit k (drop_bit k (word_of_nat a))"
    by (rule bit_word_eqI) (auto simp: bit_simps)
  moreover have "unat (push_bit k (drop_bit k (word_of_nat a :: u64))) = a div 2 ^ k * 2 ^ k"
  proof -
    have "a div 2 ^ k * 2 ^ k \<le> a" by simp
    with assms have "a div 2 ^ k * 2 ^ k < 2 ^ 64" by linarith
    with assms show ?thesis
      by (simp only: unsigned_push_bit_eq unsigned_drop_bit_eq unsigned_of_nat)
        (simp add: take_bit_nat_eq_self push_bit_eq_mult drop_bit_eq_div)
  qed
  ultimately show ?thesis
    unfolding uand_not_def m by simp
qed

end
