(* ===== verification/Linked_List.thy ===== *)
theory Linked_List
  imports Prelude
begin

text \<open>
  Doubly linked lists over index fields, the shape that both lists of \<open>MemoryEntry\<close> have
  (\<open>previous\<close>/\<open>next\<close> and \<open>list_prev\<close>/\<open>list_next\<close> in \<open>memory_allocator.rs\<close>).
  \<open>linked nx pv a xs b\<close> says that the nodes \<open>xs\<close> form a chain whose first node points back
  to \<open>a\<close> and whose last node points forward to \<open>b\<close>. Chains compose by append, so an
  operation at one node is a split of the list at that node and a frame argument for the rest.
\<close>

definition hd_opt :: "'a list \<Rightarrow> 'a option \<Rightarrow> 'a option" where
  "hd_opt xs b = (case xs of [] \<Rightarrow> b | x # _ \<Rightarrow> Some x)"

definition last_opt :: "'a list \<Rightarrow> 'a option \<Rightarrow> 'a option" where
  "last_opt xs a = (if xs = [] then a else Some (last xs))"

fun linked :: "(nat \<Rightarrow> nat option) \<Rightarrow> (nat \<Rightarrow> nat option) \<Rightarrow> nat option \<Rightarrow> nat list \<Rightarrow> nat option \<Rightarrow> bool"
  where
  "linked nx pv a [] b = True"
| "linked nx pv a (x # xs) b = (pv x = a \<and> nx x = hd_opt xs b \<and> linked nx pv (Some x) xs b)"

lemma hd_opt_simps [simp]:
  "hd_opt [] b = b" "hd_opt (x # xs) b = Some x"
  by (simp_all add: hd_opt_def)

lemma last_opt_simps [simp]:
  "last_opt [] a = a" "last_opt (x # xs) a = last_opt xs (Some x)" "last_opt (xs @ [x]) a = Some x"
  by (auto simp: last_opt_def)

lemma hd_opt_append [simp]: "hd_opt (xs @ ys) b = hd_opt xs (hd_opt ys b)"
  by (cases xs) auto

lemma last_opt_append: "last_opt (xs @ ys) a = last_opt ys (last_opt xs a)"
  by (auto simp: last_opt_def)

lemma hd_opt_None_iff [simp]: "hd_opt xs None = None \<longleftrightarrow> xs = []"
  by (cases xs) auto

lemma last_opt_None_iff [simp]: "last_opt xs None = None \<longleftrightarrow> xs = []"
  by (auto simp: last_opt_def)

lemma hd_opt_SomeD: "hd_opt xs None = Some y \<Longrightarrow> y \<in> set xs"
  by (cases xs) auto

lemma last_opt_SomeD: "last_opt xs None = Some y \<Longrightarrow> y \<in> set xs"
  by (auto simp: last_opt_def split: if_splits)

lemma hd_opt_SomeE:
  assumes "hd_opt xs None = Some y"
  obtains ys where "xs = y # ys"
  using assms by (cases xs) auto

lemma last_opt_SomeE:
  assumes "last_opt xs None = Some y"
  obtains ys where "xs = ys @ [y]"
  using assms by (cases xs rule: rev_cases) auto

lemma linked_append:
  "linked nx pv a (xs @ ys) b \<longleftrightarrow>
     linked nx pv a xs (hd_opt ys b) \<and> linked nx pv (last_opt xs a) ys b"
  by (induction xs arbitrary: a) auto

lemma linked_cong:
  assumes "\<And>x. x \<in> set xs \<Longrightarrow> nx x = nx' x" "\<And>x. x \<in> set xs \<Longrightarrow> pv x = pv' x"
  shows "linked nx pv a xs b = linked nx' pv' a xs b"
  using assms by (induction xs arbitrary: a) auto

text \<open>Changing only the back pointer of the head, or only the forward pointer of the last node.\<close>

lemma linked_new_head:
  assumes "linked nx pv a xs b" "distinct xs"
    "\<And>x. x \<in> set xs \<Longrightarrow> nx' x = nx x"
    "\<And>x. x \<in> set xs \<Longrightarrow> pv' x = (if hd_opt xs None = Some x then c else pv x)"
  shows "linked nx' pv' c xs b"
proof (cases xs)
  case (Cons y ys)
  with assms(2-4) have "linked nx' pv' (Some y) ys b = linked nx pv (Some y) ys b"
    by (intro linked_cong) auto
  with assms Cons show ?thesis by simp
qed simp

lemma linked_new_last:
  assumes "linked nx pv a xs b" "distinct xs"
    "\<And>x. x \<in> set xs \<Longrightarrow> pv' x = pv x"
    "\<And>x. x \<in> set xs \<Longrightarrow> nx' x = (if last_opt xs None = Some x then c else nx x)"
  shows "linked nx' pv' a xs c"
proof (cases xs rule: rev_cases)
  case (snoc ys y)
  with assms(2-4) have "linked nx' pv' a ys (Some y) = linked nx pv a ys (Some y)"
    by (intro linked_cong) auto
  with assms snoc show ?thesis by (simp add: linked_append)
qed simp

lemma linked_next:
  assumes "linked nx pv a (xs @ x # ys) b"
  shows "nx x = hd_opt ys b" "pv x = last_opt xs a"
  using assms by (simp_all add: linked_append)

text \<open>Removing and inserting a node, with the pointers of the two neighbours redirected.\<close>

lemma linked_remove:
  assumes "linked nx pv None (ys @ x # zs) None" "distinct (ys @ x # zs)"
    "\<And>i. i \<in> set (ys @ zs) \<Longrightarrow> nx' i = (if last_opt ys None = Some i then hd_opt zs None else nx i)"
    "\<And>i. i \<in> set (ys @ zs) \<Longrightarrow> pv' i = (if hd_opt zs None = Some i then last_opt ys None else pv i)"
  shows "linked nx' pv' None (ys @ zs) None"
proof -
  have l: "linked nx pv None ys (Some x)" and r: "linked nx pv (Some x) zs None"
    using assms(1) by (simp_all add: linked_append)
  have "linked nx' pv' None ys (hd_opt zs None)"
    by (rule linked_new_last [OF l]) (use assms(2-4) in \<open>auto dest!: hd_opt_SomeD\<close>)
  moreover have "linked nx' pv' (last_opt ys None) zs None"
    by (rule linked_new_head [OF r]) (use assms(2-4) in \<open>auto dest!: last_opt_SomeD\<close>)
  ultimately show ?thesis by (simp add: linked_append)
qed

lemma linked_insert:
  assumes "linked nx pv None (ys @ zs) None" "distinct (ys @ x # zs)"
    "\<And>i. i \<in> set (ys @ x # zs) \<Longrightarrow> nx' i = (if i = x then hd_opt zs None
        else if last_opt ys None = Some i then Some x else nx i)"
    "\<And>i. i \<in> set (ys @ x # zs) \<Longrightarrow> pv' i = (if i = x then last_opt ys None
        else if hd_opt zs None = Some i then Some x else pv i)"
  shows "linked nx' pv' None (ys @ x # zs) None"
proof -
  have l: "linked nx pv None ys (hd_opt zs None)" and r: "linked nx pv (last_opt ys None) zs None"
    using assms(1) by (simp_all add: linked_append)
  have "linked nx' pv' None ys (Some x)"
    by (rule linked_new_last [OF l]) (use assms(2-4) in \<open>auto dest!: hd_opt_SomeD\<close>)
  moreover have "linked nx' pv' (Some x) zs None"
    by (rule linked_new_head [OF r]) (use assms(2-4) in \<open>auto dest!: last_opt_SomeD\<close>)
  ultimately show ?thesis using assms(3,4) by (simp add: linked_append)
qed

end
