(* ===== verification/Memory_Allocator.thy ===== *)
theory Memory_Allocator
  imports Linked_List
begin

text \<open>
  Model of \<open>src/src/memory_allocator.rs\<close>: the physical memory allocator. Free blocks are
  entries of a fixed pool, threaded on an address-ordered doubly linked list
  (\<open>previous\<close>/\<open>next\<close>, headed by \<open>first_entry\<close>) and on one of twelve size-class
  free lists (\<open>list_prev\<close>/\<open>list_next\<close>, headed by \<open>free_list\<close>).

  A \<open>&mut MemoryEntry\<close> of the source is an index into the pool; the pool is a function on
  indices, read and written only below \<open>POOL_SIZE\<close> (\<open>get_memory_entry\<close> checks it), and the
  heads of the free lists are a function on the order, which \<open>size_to_page_order\<close> keeps
  below \<open>NUM_OF_FREE_LIST\<close>. The loops over the lists are partial functions: a cyclic list
  would not return. This theory holds the operations; the invariant and the proofs are in
  \<open>Allocator_Invariant\<close>, \<open>Allocator_Alloc\<close> and \<open>Allocator_Free\<close>.
\<close>

section \<open>Data\<close>

record memory_entry =
  me_previous :: "nat option"
  me_next :: "nat option"
  me_list_prev :: "nat option"
  me_list_next :: "nat option"
  me_start :: usize
  me_end :: usize
  me_enabled :: bool
  me_id :: nat

type_synonym memory_entry_pool = "nat \<Rightarrow> memory_entry"

record memory_allocator =
  free_size :: usize
  first_entry :: "nat option"
  free_list :: "nat \<Rightarrow> nat option"
  memory_entry_pool :: memory_entry_pool

datatype memory_error = NoEntry | InvalidEntry | NoMemory | InvalidRequest

definition PAGE_SHIFT :: usize where
  "PAGE_SHIFT = 12"

definition POOL_SIZE :: usize where
  "POOL_SIZE = 64"

definition NUM_OF_FREE_LIST :: usize where
  "NUM_OF_FREE_LIST = 12"

definition memory_entry_new :: memory_entry where
  "memory_entry_new = \<lparr>me_previous = None, me_next = None, me_list_prev = None,
     me_list_next = None, me_start = 0, me_end = 0, me_enabled = False, me_id = 0\<rparr>"

definition memory_allocator_new :: memory_allocator where
  "memory_allocator_new = \<lparr>free_size = 0, first_entry = None, free_list = (\<lambda>_. None),
     memory_entry_pool = (\<lambda>_. memory_entry_new)\<rparr>"

section \<open>Entries\<close>

definition get_end_address :: "usize \<Rightarrow> usize \<Rightarrow> usize option" where
  "get_end_address address sz = do { t \<leftarrow> uadd address sz; usub t 1 }"

definition get_size :: "memory_entry \<Rightarrow> usize option" where
  "get_size e = do { d \<leftarrow> usub (me_end e) (me_start e); uadd d 1 }"

definition is_first_entry :: "memory_entry \<Rightarrow> bool" where
  "is_first_entry e \<longleftrightarrow> me_previous e = None"

definition set_range :: "memory_entry_pool \<Rightarrow> nat \<Rightarrow> usize \<Rightarrow> usize \<Rightarrow> memory_entry_pool option" where
  "set_range pool self st en = do {
     rust_assert (st < en);
     ret (pool(self := (pool self)\<lparr>me_start := st, me_end := en\<rparr>)) }"

definition set_prev_entry :: "memory_entry_pool \<Rightarrow> nat \<Rightarrow> nat \<Rightarrow> memory_entry_pool" where
  "set_prev_entry pool self prev = pool(self := (pool self)\<lparr>me_previous := Some (me_id (pool prev))\<rparr>)"

definition unset_prev_entry :: "memory_entry_pool \<Rightarrow> nat \<Rightarrow> memory_entry_pool" where
  "unset_prev_entry pool self = pool(self := (pool self)\<lparr>me_previous := None\<rparr>)"

definition set_next_entry :: "memory_entry_pool \<Rightarrow> nat \<Rightarrow> nat \<Rightarrow> memory_entry_pool" where
  "set_next_entry pool self nxt = pool(self := (pool self)\<lparr>me_next := Some (me_id (pool nxt))\<rparr>)"

definition unset_next_entry :: "memory_entry_pool \<Rightarrow> nat \<Rightarrow> memory_entry_pool" where
  "unset_next_entry pool self = pool(self := (pool self)\<lparr>me_next := None\<rparr>)"

definition chain_after_me :: "memory_entry_pool \<Rightarrow> nat \<Rightarrow> nat \<Rightarrow> memory_entry_pool" where
  "chain_after_me pool self entry =
     (let pool = pool(self := (pool self)\<lparr>me_next := Some (me_id (pool entry))\<rparr>)
      in pool(entry := (pool entry)\<lparr>me_previous := Some (me_id (pool self))\<rparr>))"

section \<open>The pool\<close>

fun create_memory_entry :: "memory_entry_pool \<Rightarrow> (memory_entry_pool \<times> nat, memory_error) result" where
  "create_memory_entry pool =
     (case find (\<lambda>i. \<not> me_enabled (pool i)) [0..<POOL_SIZE] of
        Some i \<Rightarrow> Ok (pool(i := memory_entry_new\<lparr>me_id := i, me_enabled := True\<rparr>), i)
      | None \<Rightarrow> Err NoEntry)"

declare create_memory_entry.simps [simp del]

definition get_memory_entry :: "nat \<Rightarrow> (nat, memory_error) result" where
  "get_memory_entry index = (if index \<ge> POOL_SIZE then Err InvalidEntry else Ok index)"

definition get_next_entry :: "memory_entry_pool \<Rightarrow> nat \<Rightarrow> nat option" where
  "get_next_entry pool entry =
     Option.bind (me_next (pool entry)) (\<lambda>n. result_ok (get_memory_entry n))"

definition get_prev_entry :: "memory_entry_pool \<Rightarrow> nat \<Rightarrow> nat option" where
  "get_prev_entry pool entry =
     Option.bind (me_previous (pool entry)) (\<lambda>n. result_ok (get_memory_entry n))"

definition delete_entry :: "memory_entry_pool \<Rightarrow> nat \<Rightarrow> memory_entry_pool" where
  "delete_entry pool self =
     (let pool =
        (case get_prev_entry pool self of
           Some p \<Rightarrow>
             (case get_next_entry pool self of
                Some n \<Rightarrow> chain_after_me pool p n
              | None \<Rightarrow> unset_next_entry pool p)
         | None \<Rightarrow>
             (case get_next_entry pool self of
                Some n \<Rightarrow> unset_prev_entry pool n
              | None \<Rightarrow> pool))
      in pool(self := (pool self)\<lparr>me_previous := None, me_next := None, me_enabled := False\<rparr>))"

text \<open>\<open>e.list_next.and_then(...)\<close>: the successor on the free list, if its index is valid.\<close>

definition get_list_next :: "memory_entry_pool \<Rightarrow> nat \<Rightarrow> nat option" where
  "get_list_next pool e =
     Option.bind (me_list_next (pool e)) (\<lambda>n. result_ok (get_memory_entry n))"

definition unchain_from_freelist :: "memory_entry_pool \<Rightarrow> nat \<Rightarrow> memory_entry_pool" where
  "unchain_from_freelist pool self =
     (let pool1 =
        (case Option.bind (me_list_prev (pool self)) (\<lambda>i. result_ok (get_memory_entry i)) of
           Some p \<Rightarrow> pool(p := (pool p)\<lparr>me_list_next := me_list_next (pool self)\<rparr>)
         | None \<Rightarrow> pool);
      pool2 =
        (case get_list_next pool1 self of
           Some n \<Rightarrow> pool1(n := (pool1 n)\<lparr>me_list_prev := me_list_prev (pool1 self)\<rparr>)
         | None \<Rightarrow> pool1)
      in pool2(self := (pool2 self)\<lparr>me_list_next := None, me_list_prev := None\<rparr>))"

section \<open>Size classes and alignment\<close>

function size_to_page_order_loop :: "usize \<Rightarrow> usize \<Rightarrow> usize" where
  "size_to_page_order_loop sz order =
     (if sz > 2 ^ (order + PAGE_SHIFT)
      then (if order + 1 = NUM_OF_FREE_LIST - 1 then order + 1
            else size_to_page_order_loop sz (order + 1))
      else order)"
  by pat_completeness auto
termination
proof (relation "measure (\<lambda>(sz, order). sz - order)")
  fix sz order :: nat
  assume gt: "2 ^ (order + PAGE_SHIFT) < sz"
  have "order < 2 ^ order" by (rule less_exp)
  also have "\<dots> \<le> 2 ^ (order + PAGE_SHIFT)" by (simp add: power_increasing)
  finally show "((sz, order + 1), sz, order) \<in> measure (\<lambda>(sz, order). sz - order)"
    using gt by simp
qed simp

declare size_to_page_order_loop.simps [simp del]

definition size_to_page_order :: "usize \<Rightarrow> usize" where
  "size_to_page_order sz = size_to_page_order_loop sz 0"

definition align_address_and_size :: "usize \<Rightarrow> usize \<Rightarrow> usize \<Rightarrow> (usize \<times> usize) option" where
  "align_address_and_size address sz align_order = do {
     align_size \<leftarrow> ushl1 align_order;
     let aligned_address = uand_not address align_size;
     d \<leftarrow> usub address aligned_address;
     t \<leftarrow> uadd sz d;
     t' \<leftarrow> usub t 1;
     aligned_size \<leftarrow> uadd (uand_not t' align_size) align_size;
     ret (aligned_address, aligned_size) }"

definition align_address_and_available_size :: "usize \<Rightarrow> usize \<Rightarrow> usize \<Rightarrow> (usize \<times> usize) option" where
  "align_address_and_available_size start sz align_order =
     (if start = 0 then ret (0, sz)
      else do {
        align_size \<leftarrow> ushl1 align_order;
        s1 \<leftarrow> usub start 1;
        aligned_address \<leftarrow> uadd (uand_not s1 align_size) align_size;
        d \<leftarrow> usub aligned_address start;
        if sz > d then ret (aligned_address, sz - d) else ret (aligned_address, 0) })"

section \<open>The free lists\<close>

definition unchain_entry_from_free_list ::
    "memory_entry_pool \<Rightarrow> (nat \<Rightarrow> nat option) \<Rightarrow> nat \<Rightarrow>
     (memory_entry_pool \<times> (nat \<Rightarrow> nat option)) option" where
  "unchain_entry_from_free_list pool fl entry = do {
     s \<leftarrow> get_size (pool entry);
     let order = size_to_page_order s;
     let fl' = (if fl order = Some (me_id (pool entry))
                then fl(order := me_list_next (pool entry)) else fl);
     ret (unchain_from_freelist pool entry, fl') }"

text \<open>The loop of \<open>chain_entry_to_free_list\<close>: walk until the next block is at least as large.\<close>

partial_function (option) chain_loop ::
    "memory_entry_pool \<Rightarrow> nat \<Rightarrow> nat \<Rightarrow> memory_entry_pool option" where
  "chain_loop pool entry list_entry =
     (case get_list_next pool list_entry of
        Some next_entry \<Rightarrow> do {
          ns \<leftarrow> get_size (pool next_entry);
          es \<leftarrow> get_size (pool entry);
          if ns \<ge> es then do {
            let pool = pool(list_entry := (pool list_entry)\<lparr>me_list_next := Some (me_id (pool entry))\<rparr>);
            let pool = pool(entry := (pool entry)\<lparr>me_list_prev := Some (me_id (pool list_entry))\<rparr>);
            let pool = pool(entry := (pool entry)\<lparr>me_list_next := Some (me_id (pool next_entry))\<rparr>);
            ret (pool(next_entry := (pool next_entry)\<lparr>me_list_prev := Some (me_id (pool entry))\<rparr>)) }
          else chain_loop pool entry next_entry }
      | None \<Rightarrow> do {
          let pool = pool(list_entry := (pool list_entry)\<lparr>me_list_next := Some (me_id (pool entry))\<rparr>);
          ret (pool(entry := (pool entry)\<lparr>me_list_prev := Some (me_id (pool list_entry))\<rparr>)) })"

text \<open>The part of \<open>chain_entry_to_free_list\<close> after an earlier chaining has been undone.\<close>

definition insert_in_free_list ::
    "memory_entry_pool \<Rightarrow> (nat \<Rightarrow> nat option) \<Rightarrow> nat \<Rightarrow> usize \<Rightarrow>
     (memory_entry_pool \<times> (nat \<Rightarrow> nat option)) option" where
  "insert_in_free_list pool fl entry new_order = do {
     rust_assert (me_list_next (pool entry) = None);
     rust_assert (me_list_prev (pool entry) = None);
     (case Option.bind (fl new_order) (\<lambda>i. result_ok (get_memory_entry i)) of
        Some list_entry \<Rightarrow> do {
          ls \<leftarrow> get_size (pool list_entry);
          es \<leftarrow> get_size (pool entry);
          if ls \<ge> es then do {
            let pool = pool(list_entry := (pool list_entry)\<lparr>me_list_prev := Some (me_id (pool entry))\<rparr>);
            let pool = pool(entry := (pool entry)\<lparr>me_list_next := Some (me_id (pool list_entry))\<rparr>);
            ret (pool, fl(new_order := Some (me_id (pool entry)))) }
          else do {
            pool \<leftarrow> chain_loop pool entry list_entry;
            ret (pool, fl) } }
      | None \<Rightarrow> ret (pool, fl(new_order := Some (me_id (pool entry))))) }"

definition chain_entry_to_free_list ::
    "memory_entry_pool \<Rightarrow> (nat \<Rightarrow> nat option) \<Rightarrow> nat \<Rightarrow> usize option \<Rightarrow>
     (memory_entry_pool \<times> (nat \<Rightarrow> nat option)) option" where
  "chain_entry_to_free_list pool fl entry old_size = do {
     s \<leftarrow> get_size (pool entry);
     let new_order = size_to_page_order s;
     (case old_size of
        Some old_size \<Rightarrow>
          if old_size = s then ret (pool, fl)
          else do {
            let old_order = size_to_page_order old_size;
            let fl = (if fl old_order = Some (me_id (pool entry))
                      then fl(old_order := me_list_next (pool entry)) else fl);
            insert_in_free_list (unchain_from_freelist pool entry) fl entry new_order }
      | None \<Rightarrow> insert_in_free_list pool fl entry new_order) }"

section \<open>Searching the address list\<close>

partial_function (option) search_containing_loop ::
    "memory_entry_pool \<Rightarrow> usize \<Rightarrow> nat \<Rightarrow> nat option option" where
  "search_containing_loop pool address entry =
     (if me_start (pool entry) < address \<and> me_end (pool entry) < address
      then (case get_next_entry pool entry of
              Some t \<Rightarrow> search_containing_loop pool address t
            | None \<Rightarrow> ret None)
      else ret (if address \<ge> me_start (pool entry) \<and> address \<le> me_end (pool entry)
                then Some entry else None))"

definition search_entry_containing_address_mut ::
    "memory_entry_pool \<Rightarrow> nat option \<Rightarrow> usize \<Rightarrow> nat option option" where
  "search_entry_containing_address_mut pool first address =
     (case Option.bind first (\<lambda>f. result_ok (get_memory_entry f)) of
        None \<Rightarrow> ret None
      | Some entry \<Rightarrow> search_containing_loop pool address entry)"

partial_function (option) search_previous_loop ::
    "memory_entry_pool \<Rightarrow> usize \<Rightarrow> nat \<Rightarrow> nat option option" where
  "search_previous_loop pool address entry =
     (if me_start (pool entry) < address
      then (case get_next_entry pool entry of
              Some t \<Rightarrow> search_previous_loop pool address t
            | None \<Rightarrow> ret (if me_end (pool entry) \<le> address then Some entry
                           else get_prev_entry pool entry))
      else ret (get_prev_entry pool entry))"

definition search_entry_previous_address_mut ::
    "memory_entry_pool \<Rightarrow> nat option \<Rightarrow> usize \<Rightarrow> nat option option" where
  "search_entry_previous_address_mut pool first address =
     (case Option.bind first (\<lambda>f. result_ok (get_memory_entry f)) of
        None \<Rightarrow> ret None
      | Some entry \<Rightarrow> search_previous_loop pool address entry)"

section \<open>Taking memory out of the free blocks\<close>

type_synonym 'a ma_result = "(memory_allocator \<times> ('a, memory_error) result) option"

text \<open>The last two statements of \<open>define_used_memory\<close>.\<close>

definition used_finish :: "memory_allocator \<Rightarrow> usize \<Rightarrow> unit ma_result" where
  "used_finish s sz = do {
     f \<leftarrow> usub (free_size s) sz;
     ret (s\<lparr>free_size := f\<rparr>, Ok ()) }"

text \<open>
  \<open>define_used_memory\<close> from the point where the entry is known. (The source also clears the
  caller's \<open>target_entry\<close> when the entry is deleted; both callers pass a temporary, so the
  cleared value is never read.)
\<close>

definition define_used_in_entry :: "memory_allocator \<Rightarrow> usize \<Rightarrow> usize \<Rightarrow> nat \<Rightarrow> unit ma_result" where
  "define_used_in_entry s start sz e =
     (let pool = memory_entry_pool s; en = pool e in
      if me_start en = start then do {
        t \<leftarrow> get_end_address start sz;
        if me_end en = t then
          (case (if is_first_entry en
                 then (case get_next_entry pool e of
                         Some n \<Rightarrow> Some (s\<lparr>first_entry := Some (me_id (pool n))\<rparr>)
                       | None \<Rightarrow> None)
                 else Some s) of
             None \<Rightarrow> ret (s, Err NoEntry)
           | Some s1 \<Rightarrow> do {
               (p, fl) \<leftarrow> unchain_entry_from_free_list pool (free_list s1) e;
               used_finish (s1\<lparr>memory_entry_pool := delete_entry p e, free_list := fl\<rparr>) sz })
        else do {
          old_size \<leftarrow> get_size en;
          st \<leftarrow> uadd start sz;
          p \<leftarrow> set_range pool e st (me_end en);
          (p, fl) \<leftarrow> chain_entry_to_free_list p (free_list s) e (Some old_size);
          used_finish (s\<lparr>memory_entry_pool := p, free_list := fl\<rparr>) sz } }
      else if me_end en = start then
        (if sz \<noteq> 1 then ret (s, Err InvalidRequest)
         else do {
           t \<leftarrow> usub start 1;
           p \<leftarrow> set_range pool e (me_start en) t;
           g \<leftarrow> get_size (p e);
           old_size \<leftarrow> uadd g 1;
           (p, fl) \<leftarrow> chain_entry_to_free_list p (free_list s) e (Some old_size);
           used_finish (s\<lparr>memory_entry_pool := p, free_list := fl\<rparr>) sz })
      else do {
        t \<leftarrow> get_end_address start sz;
        if me_end en = t then do {
          old_size \<leftarrow> get_size en;
          t' \<leftarrow> usub start 1;
          p \<leftarrow> set_range pool e (me_start en) t';
          (p, fl) \<leftarrow> chain_entry_to_free_list p (free_list s) e (Some old_size);
          used_finish (s\<lparr>memory_entry_pool := p, free_list := fl\<rparr>) sz }
        else
          (case create_memory_entry pool of
             Err er \<Rightarrow> ret (s, Err er)
           | Ok (p, n) \<Rightarrow> do {
               old_size \<leftarrow> get_size (p e);
               st \<leftarrow> uadd start sz;
               p \<leftarrow> set_range p n st (me_end (p e));
               t' \<leftarrow> usub start 1;
               p \<leftarrow> set_range p e (me_start (p e)) t';
               let p = (case get_next_entry p e of Some nx \<Rightarrow> chain_after_me p n nx | None \<Rightarrow> p);
               let p = chain_after_me p e n;
               (p, fl) \<leftarrow> chain_entry_to_free_list p (free_list s) e (Some old_size);
               (p, fl) \<leftarrow> chain_entry_to_free_list p fl n None;
               used_finish (s\<lparr>memory_entry_pool := p, free_list := fl\<rparr>) sz }) })"

function define_used_memory ::
    "memory_allocator \<Rightarrow> usize \<Rightarrow> usize \<Rightarrow> usize \<Rightarrow> nat option \<Rightarrow> unit ma_result" where
  "define_used_memory s start sz align_order target_entry =
     (if sz = 0 then ret (s, Err InvalidRequest)
      else if free_size s < sz then ret (s, Err NoMemory)
      else if align_order \<noteq> 0 then do {
        (aligned_start, aligned_size) \<leftarrow> align_address_and_size start sz align_order;
        define_used_memory s aligned_start aligned_size 0 target_entry }
      else do {
        entry \<leftarrow> (case target_entry of
                    Some t \<Rightarrow> ret (Some t)
                  | None \<Rightarrow> search_entry_containing_address_mut (memory_entry_pool s) (first_entry s) start);
        (case entry of
           None \<Rightarrow> ret (s, Err InvalidRequest)
         | Some e \<Rightarrow> define_used_in_entry s start sz e) })"
  by pat_completeness auto
termination
  by (relation "measure (\<lambda>(s, start, sz, align_order, target). align_order)") auto

declare define_used_memory.simps [simp del]

definition reserve_memory :: "memory_allocator \<Rightarrow> usize \<Rightarrow> usize \<Rightarrow> usize \<Rightarrow> unit ma_result" where
  "reserve_memory s start_address sz align_order =
     define_used_memory s start_address sz align_order None"

section \<open>Allocation\<close>

text \<open>
  The body of the \<open>while let Some(e) = entry\<close> loop of \<open>allocate\<close> at an entry, and the
  iterations after it. The result is \<open>None\<close> when the list is exhausted, so that the
  loop over the orders goes on. \<open>fit_address\<close> is the address the loop would use in the
  entry, \<open>None\<close> when the part of it after alignment is too small.
\<close>

definition fit_address :: "memory_entry \<Rightarrow> usize \<Rightarrow> usize \<Rightarrow> usize \<Rightarrow> usize option option" where
  "fit_address e g sz align_order =
     (if align_order \<noteq> 0 then do {
        (aligned_address, aligned_available_size) \<leftarrow>
          align_address_and_available_size (me_start e) g align_order;
        ret (if aligned_available_size < sz then None else Some aligned_address) }
      else ret (Some (me_start e)))"

partial_function (option) allocate_while ::
    "memory_allocator \<Rightarrow> usize \<Rightarrow> usize \<Rightarrow> nat \<Rightarrow>
     (memory_allocator \<times> (usize, memory_error) result) option option" where
  "allocate_while s sz align_order e = do {
     g \<leftarrow> get_size (memory_entry_pool s e);
     address \<leftarrow> (if g \<ge> sz then fit_address (memory_entry_pool s e) g sz align_order else ret None);
     (case address of
        None \<Rightarrow>
          (case get_list_next (memory_entry_pool s) e of
             None \<Rightarrow> ret None
           | Some n \<Rightarrow> allocate_while s sz align_order n)
      | Some address_to_allocate \<Rightarrow> do {
          (s', r) \<leftarrow> define_used_memory s address_to_allocate sz 0 (Some e);
          (case r of
             Err er \<Rightarrow> ret (Some (s', Err er))
           | Ok _ \<Rightarrow> ret (Some (s', Ok address_to_allocate))) }) }"

text \<open>The \<open>for i in page_order..NUM_OF_FREE_LIST\<close> loop, over the remaining orders.\<close>

fun allocate_for :: "memory_allocator \<Rightarrow> usize \<Rightarrow> usize \<Rightarrow> usize list \<Rightarrow> usize ma_result" where
  "allocate_for s sz align_order [] = ret (s, Err NoMemory)"
| "allocate_for s sz align_order (i # is) =
     (case free_list s i of
        None \<Rightarrow> allocate_for s sz align_order is
      | Some t \<Rightarrow>
          (case get_memory_entry t of
             Err er \<Rightarrow> ret (s, Err er)
           | Ok e \<Rightarrow> do {
               r \<leftarrow> allocate_while s sz align_order e;
               (case r of
                  None \<Rightarrow> allocate_for s sz align_order is
                | Some v \<Rightarrow> ret v) }))"

definition allocate :: "memory_allocator \<Rightarrow> usize \<Rightarrow> usize \<Rightarrow> usize ma_result" where
  "allocate s sz align_order =
     (if sz = 0 then ret (s, Err InvalidRequest)
      else if free_size s \<le> sz then ret (s, Err NoMemory)
      else allocate_for s sz align_order [size_to_page_order sz..<NUM_OF_FREE_LIST])"

section \<open>Giving memory back\<close>

text \<open>\<open>define_free_memory\<close> once the entry and its successor are known and do not overlap.\<close>

definition define_free_before_next ::
    "memory_allocator \<Rightarrow> memory_entry_pool \<Rightarrow> nat \<Rightarrow> nat \<Rightarrow> usize \<Rightarrow> usize \<Rightarrow> usize \<Rightarrow> usize \<Rightarrow>
     usize \<Rightarrow> bool \<Rightarrow> unit ma_result" where
  "define_free_before_next s pool e n start sz en old_size address_after_entry processed = do {
     en1 \<leftarrow> uadd en 1;
     (pool, fl, processed) \<leftarrow>
       (if me_start (pool n) = en1 then do {
          next_old_size \<leftarrow> get_size (pool n);
          p \<leftarrow> set_range pool n start (me_end (pool n));
          (p, fl) \<leftarrow> chain_entry_to_free_list p (free_list s) n (Some next_old_size);
          ret (p, fl, True) }
        else ret (pool, free_list s, processed));
     ee1 \<leftarrow> uadd (me_end (pool e)) 1;
     (pool, fl) \<leftarrow>
       (if me_start (pool n) = ee1 \<or> (processed \<and> address_after_entry \<ge> me_start (pool n)) then do {
          p \<leftarrow> set_range pool e (me_start (pool e)) (max (me_end (pool e)) (me_end (pool n)));
          (p, fl) \<leftarrow> unchain_entry_from_free_list p fl n;
          ret (delete_entry p n, fl) }
        else ret (pool, fl));
     if processed then do {
       f \<leftarrow> uadd (free_size s) sz;
       (p, fl) \<leftarrow> chain_entry_to_free_list pool fl e (Some old_size);
       ret (s\<lparr>free_size := f, memory_entry_pool := p, free_list := fl\<rparr>, Ok ()) }
     else
       (case create_memory_entry pool of
          Err er \<Rightarrow> ret (s\<lparr>memory_entry_pool := pool, free_list := fl\<rparr>, Err er)
        | Ok (p, m) \<Rightarrow> do {
            p \<leftarrow> set_range p m start en;
            (p, first) \<leftarrow>
              (if me_end (p m) < me_start (p e) then
                 (case get_prev_entry p e of
                    Some pe \<Rightarrow> do {
                      rust_assert (me_end (p pe) < me_start (p m));
                      ret (chain_after_me (chain_after_me p pe m) m e, first_entry s) }
                  | None \<Rightarrow> ret (chain_after_me p m e, Some (me_id (p m))))
               else
                 ret (chain_after_me (set_next_entry (set_prev_entry p n m) m n) e m, first_entry s));
            f \<leftarrow> uadd (free_size s) sz;
            (p, fl) \<leftarrow> chain_entry_to_free_list p fl e (Some old_size);
            (p, fl) \<leftarrow> chain_entry_to_free_list p fl m None;
            ret (s\<lparr>free_size := f, first_entry := first, memory_entry_pool := p, free_list := fl\<rparr>,
                 Ok ()) }) }"

text \<open>The \<open>else\<close> branch of \<open>define_free_memory\<close>: the entry has no successor.\<close>

definition define_free_at_tail ::
    "memory_allocator \<Rightarrow> memory_entry_pool \<Rightarrow> nat \<Rightarrow> usize \<Rightarrow> usize \<Rightarrow> usize \<Rightarrow> usize \<Rightarrow> bool \<Rightarrow>
     unit ma_result" where
  "define_free_at_tail s pool e start sz en old_size processed =
     (if processed then do {
        f \<leftarrow> uadd (free_size s) sz;
        (p, fl) \<leftarrow> chain_entry_to_free_list pool (free_list s) e (Some old_size);
        ret (s\<lparr>free_size := f, memory_entry_pool := p, free_list := fl\<rparr>, Ok ()) }
      else
        (case create_memory_entry pool of
           Err er \<Rightarrow> ret (s\<lparr>memory_entry_pool := pool\<rparr>, Err er)
         | Ok (p, m) \<Rightarrow> do {
             p \<leftarrow> set_range p m start en;
             (p, first) \<leftarrow>
               (if me_end (p e) < me_start (p m) then ret (chain_after_me p e m, first_entry s)
                else
                  (case get_prev_entry p e of
                     Some pe \<Rightarrow> do {
                       rust_assert (me_end (p pe) < me_start (p e));
                       ret (chain_after_me (chain_after_me p pe m) m e, first_entry s) }
                   | None \<Rightarrow> ret (chain_after_me p m e, Some (me_id (p m)))));
             f \<leftarrow> uadd (free_size s) sz;
             (p, fl) \<leftarrow> chain_entry_to_free_list p (free_list s) e (Some old_size);
             (p, fl) \<leftarrow> chain_entry_to_free_list p fl m None;
             ret (s\<lparr>free_size := f, first_entry := first, memory_entry_pool := p, free_list := fl\<rparr>,
                  Ok ()) }))"

partial_function (option) define_free_memory ::
    "memory_allocator \<Rightarrow> usize \<Rightarrow> usize \<Rightarrow> unit ma_result" where
  "define_free_memory s start sz =
     (if sz = 0 then ret (s, Err InvalidRequest)
      else do {
        prev \<leftarrow> search_entry_previous_address_mut (memory_entry_pool s) (first_entry s) start;
        found \<leftarrow> (case prev of
                    Some e \<Rightarrow> ret (Ok e)
                  | None \<Rightarrow> map_option get_memory_entry (first_entry s));
        (case found of
           Err _ \<Rightarrow> ret (s, Err InvalidEntry)
         | Ok e \<Rightarrow> do {
             en \<leftarrow> get_end_address start sz;
             if me_start (memory_entry_pool s e) \<le> start \<and> me_end (memory_entry_pool s e) \<ge> en then ret (s, Err InvalidRequest)
             else if me_end (memory_entry_pool s e) \<ge> start \<and> \<not> is_first_entry (memory_entry_pool s e) then do {
               st \<leftarrow> uadd (me_end (memory_entry_pool s e)) 1;
               d \<leftarrow> usub en (me_end (memory_entry_pool s e));
               d \<leftarrow> uadd d 2;
               define_free_memory s st d }
             else if me_end (memory_entry_pool s e) = en then do {
               g \<leftarrow> get_size (memory_entry_pool s e);
               d \<leftarrow> usub sz g;
               define_free_memory s start d }
             else do {
               old_size \<leftarrow> get_size (memory_entry_pool s e);
               address_after_entry \<leftarrow> uadd (me_end (memory_entry_pool s e)) 1;
               (pool, processed) \<leftarrow>
                 (if address_after_entry = start then do {
                    p \<leftarrow> set_range (memory_entry_pool s) e (me_start (memory_entry_pool s e)) en;
                    ret (p, True) }
                  else ret (memory_entry_pool s, False));
               (pool, processed) \<leftarrow>
                 (if is_first_entry (pool e) then do {
                    en1 \<leftarrow> uadd en 1;
                    if me_start (pool e) = en1 then do {
                      p \<leftarrow> set_range pool e start (me_end (pool e));
                      ret (p, True) }
                    else ret (pool, processed) }
                  else ret (pool, processed));
               (case get_next_entry pool e of
                  Some n \<Rightarrow>
                    if me_start (pool n) \<le> start then do {
                      rust_assert (\<not> processed);
                      if me_end (pool n) \<ge> en
                      then ret (s\<lparr>memory_entry_pool := pool\<rparr>, Err InvalidRequest)
                      else do {
                        st \<leftarrow> uadd (me_end (pool n)) 1;
                        d \<leftarrow> usub en (me_end (pool n));
                        define_free_memory (s\<lparr>memory_entry_pool := pool\<rparr>) st d } }
                    else define_free_before_next s pool e n start sz en old_size
                           address_after_entry processed
                | None \<Rightarrow> define_free_at_tail s pool e start sz en old_size processed) } }) })"

text \<open>\<open>MemoryAllocator::free\<close>.\<close>

definition ma_free :: "memory_allocator \<Rightarrow> usize \<Rightarrow> usize \<Rightarrow> unit ma_result" where
  "ma_free s start sz =
     (if free_size s = 0 then
        (case create_memory_entry (memory_entry_pool s) of
           Err er \<Rightarrow> ret (s, Err er)
         | Ok (p, f) \<Rightarrow> do {
             en \<leftarrow> get_end_address start sz;
             p \<leftarrow> set_range p f start en;
             (p, fl) \<leftarrow> chain_entry_to_free_list p (free_list s) f None;
             ret (s\<lparr>memory_entry_pool := p, free_list := fl, first_entry := Some (me_id (p f)),
                    free_size := sz\<rparr>, Ok ()) })
      else do {
        (s', r) \<leftarrow> define_free_memory s start sz;
        (case r of
           Err er \<Rightarrow> ret (s', Err er)
         | Ok _ \<Rightarrow> do {
             f \<leftarrow> uadd (free_size s') sz;
             ret (s'\<lparr>free_size := f\<rparr>, Ok ()) }) })"

lemmas [code] =
  chain_loop.simps search_containing_loop.simps search_previous_loop.simps
  allocate_while.simps define_free_memory.simps

end
