(* ===== verification/Allocator_Invariant.thy ===== *)
theory Allocator_Invariant
  imports Memory_Allocator
begin

text \<open>
  The representation invariant of the memory allocator and the effect of its list
  primitives on it. The address list is a list \<open>xs\<close> of pool indices and the free lists are
  a family \<open>L\<close> of lists of indices, one for each order. Every primitive is described by what
  it does to \<open>xs\<close> and \<open>L\<close>; the pool fields it does not mention are untouched.
\<close>

section \<open>Block sizes and orders\<close>

definition bsize :: "memory_entry \<Rightarrow> nat" where
  "bsize e = me_end e - me_start e + 1"

definition range_ok :: "memory_entry \<Rightarrow> bool" where
  "range_ok e \<longleftrightarrow> me_start e < me_end e \<and> me_end e + 1 < usize_range"

lemma get_size_ok: "range_ok e \<Longrightarrow> get_size e = Some (bsize e)"
  by (auto simp: get_size_def bsize_def range_ok_def usub_def uadd_def)

lemma size_to_page_order_loop_bounds:
  "order < NUM_OF_FREE_LIST - 1 \<Longrightarrow> order \<le> size_to_page_order_loop sz order
     \<and> size_to_page_order_loop sz order < NUM_OF_FREE_LIST"
proof (induction sz order rule: size_to_page_order_loop.induct)
  case (1 sz order)
  show ?case
  proof (cases "sz > 2 ^ (order + PAGE_SHIFT) \<and> order + 1 \<noteq> NUM_OF_FREE_LIST - 1")
    case True
    with 1 show ?thesis
      by (auto simp: size_to_page_order_loop.simps [of sz order])
  next
    case False
    with "1.prems" show ?thesis
      by (auto simp: size_to_page_order_loop.simps [of sz order] NUM_OF_FREE_LIST_def)
  qed
qed

lemma size_to_page_order_less: "size_to_page_order sz < NUM_OF_FREE_LIST"
  using size_to_page_order_loop_bounds [of 0 sz]
  by (simp add: size_to_page_order_def NUM_OF_FREE_LIST_def)

lemma size_to_page_order_loop_mono:
  "\<lbrakk>sz \<le> sz'; order < NUM_OF_FREE_LIST - 1\<rbrakk> \<Longrightarrow>
     size_to_page_order_loop sz order \<le> size_to_page_order_loop sz' order"
proof (induction sz order rule: size_to_page_order_loop.induct)
  case (1 sz order)
  note [simp] = size_to_page_order_loop.simps [of sz order] size_to_page_order_loop.simps [of sz' order]
  show ?case
  proof (cases "sz > 2 ^ (order + PAGE_SHIFT)")
    case True
    with 1 show ?thesis by auto
  next
    case False
    with "1.prems" size_to_page_order_loop_bounds [of order sz'] show ?thesis by simp
  qed
qed

lemma size_to_page_order_mono: "sz \<le> sz' \<Longrightarrow> size_to_page_order sz \<le> size_to_page_order sz'"
  by (simp add: size_to_page_order_def size_to_page_order_loop_mono NUM_OF_FREE_LIST_def)

section \<open>Fields outside the free lists\<close>

text \<open>\<open>core e\<close> is the entry without its free-list pointers.\<close>

definition core :: "memory_entry \<Rightarrow> memory_entry" where
  "core e = e\<lparr>me_list_next := None, me_list_prev := None\<rparr>"

definition same_core :: "memory_entry_pool \<Rightarrow> memory_entry_pool \<Rightarrow> bool" where
  "same_core p p' \<longleftrightarrow> (\<forall>i. core (p' i) = core (p i))"

lemma core_eqD:
  assumes "core e' = core e"
  shows "me_start e' = me_start e" "me_end e' = me_end e" "me_id e' = me_id e"
    "me_enabled e' = me_enabled e" "me_next e' = me_next e" "me_previous e' = me_previous e"
  using assms by (cases e; cases e'; simp add: core_def)+

lemma core_list_upd [simp]:
  "core (e\<lparr>me_list_next := a\<rparr>) = core e" "core (e\<lparr>me_list_prev := a\<rparr>) = core e"
  by (simp_all add: core_def)

lemma same_core_refl [simp]: "same_core p p"
  by (simp add: same_core_def)

lemma same_core_trans [trans]: "same_core p q \<Longrightarrow> same_core q r \<Longrightarrow> same_core p r"
  by (simp add: same_core_def)

lemma same_coreD:
  assumes "same_core p p'"
  shows "me_start (p' i) = me_start (p i)" "me_end (p' i) = me_end (p i)" "me_id (p' i) = me_id (p i)"
    "me_enabled (p' i) = me_enabled (p i)" "me_next (p' i) = me_next (p i)"
    "me_previous (p' i) = me_previous (p i)"
  using assms core_eqD [of "p' i" "p i"] by (simp_all add: same_core_def)

lemma same_core_bsize: "same_core p p' \<Longrightarrow> bsize (p' i) = bsize (p i)"
  by (simp add: bsize_def same_coreD)

lemma same_core_range_ok: "same_core p p' \<Longrightarrow> range_ok (p' i) = range_ok (p i)"
  by (simp add: range_ok_def same_coreD)

section \<open>The free lists\<close>

definition lnx :: "memory_entry_pool \<Rightarrow> nat \<Rightarrow> nat option" where
  "lnx p i = me_list_next (p i)"

definition lpv :: "memory_entry_pool \<Rightarrow> nat \<Rightarrow> nat option" where
  "lpv p i = me_list_prev (p i)"

text \<open>The family \<open>L\<close> of lists is threaded through the pool, with the heads in \<open>fl\<close>.\<close>

definition free_lists :: "memory_entry_pool \<Rightarrow> (nat \<Rightarrow> nat option) \<Rightarrow> (nat \<Rightarrow> nat list) \<Rightarrow> bool" where
  "free_lists p fl L \<longleftrightarrow>
     (\<forall>k. fl k = hd_opt (L k) None \<and> linked (lnx p) (lpv p) None (L k) None \<and> distinct (L k)) \<and>
     (\<forall>k k'. k \<noteq> k' \<longrightarrow> set (L k) \<inter> set (L k') = {})"

text \<open>Only entries of \<open>A\<close> have had their free-list pointers changed.\<close>

definition list_frame :: "memory_entry_pool \<Rightarrow> memory_entry_pool \<Rightarrow> nat set \<Rightarrow> bool" where
  "list_frame p p' A \<longleftrightarrow> (\<forall>i. i \<notin> A \<longrightarrow> lnx p' i = lnx p i \<and> lpv p' i = lpv p i)"

definition ids_ok :: "memory_entry_pool \<Rightarrow> nat set \<Rightarrow> bool" where
  "ids_ok p A \<longleftrightarrow> (\<forall>i\<in>A. i < POOL_SIZE \<and> me_id (p i) = i \<and> range_ok (p i))"

lemma get_memory_entry_ok [simp]: "i < POOL_SIZE \<Longrightarrow> get_memory_entry i = Ok i"
  by (simp add: get_memory_entry_def)

lemma free_lists_cong:
  assumes "\<And>i. me_list_next (p' i) = me_list_next (p i)" "\<And>i. me_list_prev (p' i) = me_list_prev (p i)"
  shows "free_lists p' fl L = free_lists p fl L"
proof -
  from assms have "lnx p' = lnx p" "lpv p' = lpv p" by (auto simp: lnx_def lpv_def)
  then show ?thesis by (simp add: free_lists_def)
qed

lemma free_listsD:
  assumes "free_lists p fl L"
  shows "fl k = hd_opt (L k) None" "linked (lnx p) (lpv p) None (L k) None" "distinct (L k)"
    "k \<noteq> k' \<Longrightarrow> set (L k) \<inter> set (L k') = {}"
  using assms by (simp_all add: free_lists_def)

lemma unchain_from_freelist_fields:
  assumes "\<forall>i. me_list_prev (p x) = Some i \<longrightarrow> i < POOL_SIZE \<and> i \<noteq> x"
    "\<forall>i. me_list_next (p x) = Some i \<longrightarrow> i < POOL_SIZE \<and> i \<noteq> x"
  shows "lnx (unchain_from_freelist p x) i =
      (if i = x then None else if me_list_prev (p x) = Some i then me_list_next (p x) else lnx p i)"
    "lpv (unchain_from_freelist p x) i =
      (if i = x then None else if me_list_next (p x) = Some i then me_list_prev (p x) else lpv p i)"
    "same_core p (unchain_from_freelist p x)"
  using assms
  by (cases "me_list_prev (p x)"; cases "me_list_next (p x)";
      auto simp: unchain_from_freelist_def lnx_def lpv_def get_list_next_def same_core_def)+

lemma unchain_free_lists:
  assumes F: "free_lists p fl L" and x: "x \<in> set (L k)"
    and ids: "\<forall>y\<in>set (L k). y < POOL_SIZE" and id: "me_id (p x) = x"
    and fl': "fl' = (if fl k = Some (me_id (p x)) then fl(k := me_list_next (p x)) else fl)"
  shows "free_lists (unchain_from_freelist p x) fl' (L(k := remove1 x (L k)))"
    "lnx (unchain_from_freelist p x) x = None" "lpv (unchain_from_freelist p x) x = None"
    "same_core p (unchain_from_freelist p x)" "list_frame p (unchain_from_freelist p x) (set (L k))"
proof -
  let ?p = "unchain_from_freelist p x"
  obtain ys zs where L: "L k = ys @ x # zs" using x by (meson split_list)
  from F have lk: "linked (lnx p) (lpv p) None (ys @ x # zs) None" and d: "distinct (ys @ x # zs)"
    and flk: "fl k = hd_opt (ys @ x # zs) None"
    unfolding free_lists_def L [symmetric] by auto
  have nb: "me_list_next (p x) = hd_opt zs None" "me_list_prev (p x) = last_opt ys None"
    using linked_next [OF lk] by (simp_all add: lnx_def lpv_def)
  have s1: "\<forall>i. me_list_prev (p x) = Some i \<longrightarrow> i < POOL_SIZE \<and> i \<noteq> x"
    using nb d ids L by (auto dest!: last_opt_SomeD)
  have s2: "\<forall>i. me_list_next (p x) = Some i \<longrightarrow> i < POOL_SIZE \<and> i \<noteq> x"
    using nb d ids L by (auto dest!: hd_opt_SomeD)
  note un = unchain_from_freelist_fields [of p x, OF s1 s2]
  from un show "lnx ?p x = None" "lpv ?p x = None" "same_core p ?p" by simp_all
  show "list_frame p ?p (set (L k))"
    by (auto simp: list_frame_def un nb L dest!: hd_opt_SomeD last_opt_SomeD)
  have "linked (lnx ?p) (lpv ?p) None (ys @ zs) None"
    by (rule linked_remove [OF lk d]) (use d in \<open>auto simp: un nb\<close>)
  moreover have "remove1 x (L k) = ys @ zs" using d L by (simp add: remove1_append)
  moreover have "linked (lnx ?p) (lpv ?p) None (L k') None" if "k' \<noteq> k" for k'
  proof -
    from that F have "set (L k') \<inter> set (L k) = {}" by (auto simp: free_lists_def)
    then have "linked (lnx ?p) (lpv ?p) None (L k') None = linked (lnx p) (lpv p) None (L k') None"
      by (intro linked_cong) (auto simp: un nb L dest!: hd_opt_SomeD last_opt_SomeD)
    with F show ?thesis by (simp add: free_lists_def)
  qed
  moreover have "fl' k' = hd_opt ((L(k := ys @ zs)) k') None" for k'
    using F d id flk nb unfolding fl'
    by (cases ys) (auto simp: free_lists_def)
  ultimately show "free_lists ?p fl' (L(k := remove1 x (L k)))"
    using F d unfolding free_lists_def L
    by (auto simp: L) (metis Un_iff disjoint_iff insert_iff L list.simps(15) set_append)+
qed

lemma insert_free_lists:
  assumes F: "free_lists p fl L" and L: "L k = ys @ zs" and x: "\<And>k. x \<notin> set (L k)"
    and nx: "\<And>i. lnx p' i = (if i = x then hd_opt zs None
               else if last_opt ys None = Some i then Some x else lnx p i)"
    and pv: "\<And>i. lpv p' i = (if i = x then last_opt ys None
               else if hd_opt zs None = Some i then Some x else lpv p i)"
    and fl': "fl' = (if ys = [] then fl(k := Some x) else fl)"
  shows "free_lists p' fl' (L(k := ys @ x # zs))"
proof -
  have d: "distinct (ys @ x # zs)"
    using free_listsD(3) [OF F, of k] x [of k] by (simp add: L)
  from F have lk: "linked (lnx p) (lpv p) None (ys @ zs) None"
    unfolding free_lists_def L [symmetric] by auto
  have "linked (lnx p') (lpv p') None (ys @ x # zs) None"
    by (rule linked_insert [OF lk d]) (auto simp: nx pv)
  moreover have "linked (lnx p') (lpv p') None (L k') None" if "k' \<noteq> k" for k'
  proof -
    from that F have "set (L k') \<inter> set (L k) = {}" by (auto simp: free_lists_def)
    then have "linked (lnx p') (lpv p') None (L k') None = linked (lnx p) (lpv p) None (L k') None"
      using x [of k'] L by (intro linked_cong) (auto simp: nx pv dest!: hd_opt_SomeD last_opt_SomeD)
    with F show ?thesis by (simp add: free_lists_def)
  qed
  moreover have "fl' k' = hd_opt ((L(k := ys @ x # zs)) k') None" for k'
    using F L unfolding fl' by (cases ys) (auto simp: free_lists_def)
  moreover have "set ((L(k := ys @ x # zs)) i) \<inter> set ((L(k := ys @ x # zs)) j) = {}" if "i \<noteq> j" for i j
    using F x L that by (auto simp: free_lists_def) (metis Un_iff disjoint_iff L set_append)+
  ultimately show ?thesis
    using F d unfolding free_lists_def by auto
qed

lemma chain_loop_spec:
  assumes "free_lists p fl L" "L k = ys @ y # zs" "\<And>k. x \<notin> set (L k)"
    "ids_ok p (insert x (set (L k)))" "lnx p x = None"
  shows "\<exists>p' us vs. chain_loop p x y = Some p' \<and> zs = us @ vs \<and> same_core p p' \<and>
     list_frame p p' (insert x (set (L k))) \<and>
     free_lists p' fl (L(k := (ys @ y # us) @ x # vs)) \<and>
     (\<forall>u\<in>set us. bsize (p u) < bsize (p x)) \<and> (\<forall>v. hd_opt vs None = Some v \<longrightarrow> bsize (p x) \<le> bsize (p v))"
  using assms
proof (induction zs arbitrary: ys y)
  case Nil
  have lk: "linked (lnx p) (lpv p) None (ys @ [y]) None"
    using free_listsD(2) [OF Nil(1), of k] by (simp add: Nil(2))
  have ynext: "me_list_next (p y) = None" using linked_next(1) [OF lk] by (simp add: lnx_def)
  let ?p1 = "p(y := (p y)\<lparr>me_list_next := Some (me_id (p x))\<rparr>)"
  let ?p' = "?p1(x := (?p1 x)\<lparr>me_list_prev := Some (me_id (?p1 y))\<rparr>)"
  have xy: "x \<noteq> y" "me_id (p x) = x" "me_id (p y) = y"
    using Nil(3) [of k] Nil(4) unfolding Nil(2) by (auto simp: ids_ok_def)
  have "chain_loop p x y = Some ?p'"
    by (subst chain_loop.simps) (simp add: get_list_next_def ynext)
  moreover have "free_lists ?p' fl (L(k := (ys @ [y]) @ x # []))"
    by (rule insert_free_lists [OF Nil(1), of k "ys @ [y]" "[]" x])
      (use Nil xy in \<open>auto simp: lnx_def lpv_def\<close>)
  moreover have "same_core p ?p'" using xy by (auto simp: same_core_def)
  moreover have "list_frame p ?p' (insert x (set (L k)))"
    using Nil(2) by (auto simp: list_frame_def lnx_def lpv_def)
  ultimately obtain p' where "chain_loop p x y = Some p'" "same_core p p'"
    "list_frame p p' (insert x (set (L k)))"
    "free_lists p' fl (L(k := (ys @ [y]) @ x # []))" by blast
  then show ?case
    by (metis append_Nil empty_iff hd_opt_simps(1) list.set(1) option.distinct(1))
next
  case (Cons z zs)
  have lk: "linked (lnx p) (lpv p) None (ys @ y # z # zs) None"
    using free_listsD(2) [OF Cons.prems(1), of k] unfolding Cons.prems(2) .
  have ynext: "me_list_next (p y) = Some z" using linked_next(1) [OF lk] by (simp add: lnx_def)
  have ok: "x < POOL_SIZE" "z < POOL_SIZE" "me_id (p x) = x" "me_id (p y) = y" "me_id (p z) = z"
    "range_ok (p x)" "range_ok (p z)"
    using Cons.prems(2,4) by (auto simp: ids_ok_def)
  have ne: "x \<noteq> y" "x \<noteq> z" "y \<noteq> z"
    using free_listsD(3) [OF Cons.prems(1), of k] Cons.prems(3) [of k] unfolding Cons.prems(2) by auto
  show ?case
  proof (cases "bsize (p z) \<ge> bsize (p x)")
    case True
    let ?p1 = "p(y := (p y)\<lparr>me_list_next := Some x\<rparr>)"
    let ?p2 = "?p1(x := (?p1 x)\<lparr>me_list_prev := Some y\<rparr>)"
    let ?p3 = "?p2(x := (?p2 x)\<lparr>me_list_next := Some z\<rparr>)"
    let ?p' = "?p3(z := (?p3 z)\<lparr>me_list_prev := Some x\<rparr>)"
    have "chain_loop p x y = Some ?p'"
      using True ok ne by (subst chain_loop.simps) (simp add: get_list_next_def ynext get_size_ok)
    moreover have "free_lists ?p' fl (L(k := (ys @ [y]) @ x # z # zs))"
      by (rule insert_free_lists [OF Cons.prems(1), of k "ys @ [y]" "z # zs" x])
        (use Cons.prems ne in \<open>auto simp: lnx_def lpv_def\<close>)
    moreover have "same_core p ?p'" by (auto simp: same_core_def)
    moreover have "list_frame p ?p' (insert x (set (L k)))"
      using Cons.prems(2) by (auto simp: list_frame_def lnx_def lpv_def)
    ultimately obtain p' where "chain_loop p x y = Some p'" "same_core p p'"
      "list_frame p p' (insert x (set (L k)))"
      "free_lists p' fl (L(k := (ys @ [y]) @ x # z # zs))" by blast
    with True show ?thesis
      by (metis append_Nil empty_iff hd_opt_simps(2) list.set(1) option.inject)
  next
    case False
    then have "chain_loop p x y = chain_loop p x z"
      using ok by (subst chain_loop.simps) (simp add: get_list_next_def ynext get_size_ok)
    moreover obtain p' us vs where "chain_loop p x z = Some p'" "zs = us @ vs" "same_core p p'"
      "list_frame p p' (insert x (set (L k)))" "free_lists p' fl (L(k := ((ys @ [y]) @ z # us) @ x # vs))"
      "\<forall>u\<in>set us. bsize (p u) < bsize (p x)" "\<forall>v. hd_opt vs None = Some v \<longrightarrow> bsize (p x) \<le> bsize (p v)"
      using Cons.IH [of "ys @ [y]" z] Cons.prems by (auto simp del: fun_upd_apply)
    ultimately show ?thesis
      using False
      by (intro exI [of _ p'] exI [of _ "z # us"] exI [of _ vs]) (auto simp del: fun_upd_apply)
  qed
qed

text \<open>
  Insertion puts the entry at some place of the list of its order; when the list is sorted by
  size, it stays sorted.
\<close>

lemma insert_in_free_list_spec:
  assumes F: "free_lists p fl L" and x: "\<And>k. x \<notin> set (L k)"
    and ids: "ids_ok p (insert x (set (L k)))" and none: "lnx p x = None" "lpv p x = None"
  shows "\<exists>p' fl' us vs. insert_in_free_list p fl x k = Some (p', fl') \<and> L k = us @ vs \<and>
     same_core p p' \<and> list_frame p p' (insert x (set (L k))) \<and> free_lists p' fl' (L(k := us @ x # vs)) \<and>
     (\<forall>u\<in>set us. bsize (p u) < bsize (p x)) \<and>
     (\<forall>v. hd_opt vs None = Some v \<longrightarrow> bsize (p x) \<le> bsize (p v))"
proof (cases "L k")
  case Nil
  then have "fl k = None" using free_listsD(1) [OF F, of k] by simp
  then have "insert_in_free_list p fl x k = Some (p, fl(k := Some x))"
    using ids none by (simp add: insert_in_free_list_def lnx_def lpv_def ids_ok_def)
  moreover have "free_lists p (fl(k := Some x)) (L(k := [] @ x # []))"
    by (rule insert_free_lists [OF F, of k "[]" "[]" x]) (use Nil x none in auto)
  ultimately show ?thesis
    by (intro exI [of _ p] exI [of _ "fl(k := Some x)"] exI [of _ "[]"]) (simp add: Nil list_frame_def)
next
  case (Cons y ys)
  then have fk: "fl k = Some y" using free_listsD(1) [OF F, of k] by simp
  have ok: "y < POOL_SIZE" "me_id (p x) = x" "me_id (p y) = y" "range_ok (p x)" "range_ok (p y)"
    using ids Cons by (auto simp: ids_ok_def)
  have xy: "x \<noteq> y" using x [of k] Cons by auto
  note unf = insert_in_free_list_def fk none [unfolded lnx_def lpv_def] get_size_ok ok
  show ?thesis
  proof (cases "bsize (p y) \<ge> bsize (p x)")
    case True
    let ?p1 = "p(y := (p y)\<lparr>me_list_prev := Some x\<rparr>)"
    let ?p' = "?p1(x := (?p1 x)\<lparr>me_list_next := Some y\<rparr>)"
    have "insert_in_free_list p fl x k = Some (?p', fl(k := Some x))"
      using True xy by (simp add: unf)
    moreover have "free_lists ?p' (fl(k := Some x)) (L(k := [] @ x # y # ys))"
      by (rule insert_free_lists [OF F, of k "[]" "y # ys" x])
        (use Cons x none xy in \<open>auto simp: lnx_def lpv_def\<close>)
    moreover have "same_core p ?p'" by (auto simp: same_core_def)
    moreover have "list_frame p ?p' (insert x (set (L k)))"
      using Cons by (auto simp: list_frame_def lnx_def lpv_def)
    ultimately obtain p' where "insert_in_free_list p fl x k = Some (p', fl(k := Some x))"
      "list_frame p p' (insert x (set (L k)))"
      "free_lists p' (fl(k := Some x)) (L(k := [] @ x # y # ys))" "same_core p p'" by blast
    then show ?thesis
      using True Cons
      by (intro exI [of _ p'] exI [of _ "fl(k := Some x)"] exI [of _ "[]"] exI [of _ "y # ys"]) simp
  next
    case False
    obtain p' us vs where loop: "chain_loop p x y = Some p'" "ys = us @ vs" "same_core p p'"
      "list_frame p p' (insert x (set (L k)))" "free_lists p' fl (L(k := ([] @ y # us) @ x # vs))"
      "\<forall>u\<in>set us. bsize (p u) < bsize (p x)"
      "\<forall>v. hd_opt vs None = Some v \<longrightarrow> bsize (p x) \<le> bsize (p v)"
      using chain_loop_spec [of p fl L k "[]" y ys x] F Cons x ids none by auto
    have "insert_in_free_list p fl x k = Some (p', fl)"
      using False loop by (simp add: unf)
    with loop False Cons show ?thesis
      by (intro exI [of _ p'] exI [of _ fl] exI [of _ "y # us"] exI [of _ vs]) auto
  qed
qed

text \<open>
  \<open>classes sz A L\<close>: the lists partition the blocks \<open>A\<close> by the order of their size, each
  sorted by size. The sizes are a separate argument because an operation first changes a
  block and then moves it to the list of its new size.
\<close>

definition classes :: "(nat \<Rightarrow> nat) \<Rightarrow> nat set \<Rightarrow> (nat \<Rightarrow> nat list) \<Rightarrow> bool" where
  "classes sz A L \<longleftrightarrow> (\<forall>k. set (L k) = {x \<in> A. size_to_page_order (sz x) = k} \<and> sorted (map sz (L k)))"

lemma classes_cong: "(\<And>x. x \<in> A \<Longrightarrow> sz x = sz' x) \<Longrightarrow> classes sz A L = classes sz' A L"
proof -
  assume eq: "\<And>x. x \<in> A \<Longrightarrow> sz x = sz' x"
  have "classes f A L \<Longrightarrow> classes g A L" if fg: "\<And>x. x \<in> A \<Longrightarrow> f x = g x" for f g
  proof -
    assume c: "classes f A L"
    have m: "map g (L k) = map f (L k)" for k using c fg by (auto simp: classes_def)
    from c fg show ?thesis unfolding classes_def m by auto
  qed
  from this [of sz sz'] this [of sz' sz] eq show ?thesis by metis
qed

lemma classes_mem: "classes sz A L \<Longrightarrow> x \<in> set (L k) \<longleftrightarrow> x \<in> A \<and> size_to_page_order (sz x) = k"
  by (simp add: classes_def)

lemma classes_sub: "classes sz A L \<Longrightarrow> set (L k) \<subseteq> A"
  by (auto simp: classes_def)

lemma classes_remove:
  assumes "classes sz A L" "distinct (L (size_to_page_order (sz x)))"
  shows "classes sz (A - {x}) (L(size_to_page_order (sz x) := remove1 x (L (size_to_page_order (sz x)))))"
  using assms by (auto simp: classes_def sorted_map_remove1)

lemma sorted_map_insert_mid:
  assumes "sorted (map sz (us @ vs))" "\<forall>u\<in>set us. sz u < sz x"
    "\<forall>v. hd_opt vs None = Some v \<longrightarrow> sz x \<le> sz v"
  shows "sorted (map sz (us @ x # vs))"
  using assms by (cases vs) (auto simp: sorted_append less_imp_le)

lemma classes_insert:
  assumes "classes sz A L" "x \<notin> A" "k = size_to_page_order n" "L k = us @ vs"
    "\<forall>u\<in>set us. sz u < n" "\<forall>v. hd_opt vs None = Some v \<longrightarrow> n \<le> sz v"
  shows "classes (sz(x := n)) (insert x A) (L(k := us @ x # vs))"
proof -
  have nx: "x \<notin> set (L j)" for j using classes_sub [OF assms(1), of j] assms(2) by auto
  have old: "set (us @ vs) = {y \<in> A. size_to_page_order (sz y) = k}" "sorted (map sz (us @ vs))"
    using assms(1,4) by (metis classes_def)+
  have xus: "x \<notin> set us" "x \<notin> set vs" using nx [of k] assms(4) by auto
  then have "map (sz(x := n)) (us @ vs) = map sz (us @ vs)" by simp
  with old(2) have "sorted (map (sz(x := n)) (us @ vs))" by (simp only:)
  moreover have "\<forall>u\<in>set us. (sz(x := n)) u < (sz(x := n)) x" using assms(5) xus by auto
  moreover have "\<forall>v. hd_opt vs None = Some v \<longrightarrow> (sz(x := n)) x \<le> (sz(x := n)) v"
    using assms(6) xus by (auto dest: hd_opt_SomeD)
  ultimately have new: "sorted (map (sz(x := n)) (us @ x # vs))" by (rule sorted_map_insert_mid)
  show ?thesis unfolding classes_def
  proof (intro allI conjI)
    fix j
    have setj: "set (L j) = {y \<in> A. size_to_page_order (sz y) = j}" using assms(1) by (simp add: classes_def)
    show "set ((L(k := us @ x # vs)) j) = {y \<in> insert x A. size_to_page_order ((sz(x := n)) y) = j}"
      using old(1) setj assms(2,3) by auto
    have m: "map (sz(x := n)) (L j) = map sz (L j)" using nx [of j] by simp
    have "sorted (map (sz(x := n)) (L j))" unfolding m using assms(1) by (simp add: classes_def)
    with new show "sorted (map (sz(x := n)) ((L(k := us @ x # vs)) j))" by (cases "j = k") simp_all
  qed
qed

text \<open>Chaining a block that is on no list.\<close>

lemma chain_new_spec:
  assumes F: "free_lists p fl L" and c: "classes sz A L" and x: "x \<notin> A"
    and ids: "ids_ok p (insert x A)" and none: "lnx p x = None" "lpv p x = None"
    and sz: "\<And>y. y \<in> A \<Longrightarrow> bsize (p y) = sz y"
  shows "\<exists>p' fl' L'. chain_entry_to_free_list p fl x None = Some (p', fl') \<and> same_core p p' \<and>
     list_frame p p' (insert x A) \<and> free_lists p' fl' L' \<and> classes (sz(x := bsize (p x))) (insert x A) L'"
proof -
  let ?k = "size_to_page_order (bsize (p x))"
  have ids': "ids_ok p (insert x (set (L ?k)))"
    using ids c by (auto simp: ids_ok_def classes_def)
  have "\<And>k. x \<notin> set (L k)" using c x by (simp add: classes_mem)
  from insert_in_free_list_spec [OF F this ids' none]
  obtain p' fl' us vs where ins: "insert_in_free_list p fl x ?k = Some (p', fl')" "L ?k = us @ vs"
    "same_core p p'" "free_lists p' fl' (L(?k := us @ x # vs))" "list_frame p p' (insert x (set (L ?k)))"
    "\<forall>u\<in>set us. bsize (p u) < bsize (p x)" "\<forall>v. hd_opt vs None = Some v \<longrightarrow> bsize (p x) \<le> bsize (p v)"
    by blast
  have inA: "set (us @ vs) \<subseteq> A" using classes_sub [OF c, of ?k] ins(2) by simp
  have "classes (sz(x := bsize (p x))) (insert x A) (L(?k := us @ x # vs))"
  proof (rule classes_insert [OF c x refl ins(2)])
    have e: "sz u = bsize (p u)" if "u \<in> set us \<union> set vs" for u using inA sz that by fastforce
    show "\<forall>u\<in>set us. sz u < bsize (p x)" using ins(6) e by simp
    show "\<forall>v. hd_opt vs None = Some v \<longrightarrow> bsize (p x) \<le> sz v" using ins(7) e hd_opt_SomeD by fastforce
  qed
  moreover have "chain_entry_to_free_list p fl x None = Some (p', fl')"
    using ids ins(1) by (simp add: chain_entry_to_free_list_def get_size_ok ids_ok_def)
  moreover have "list_frame p p' (insert x A)"
    using ins(5) classes_sub [OF c, of ?k] by (auto simp: list_frame_def)
  ultimately show ?thesis using ins by blast
qed

text \<open>Moving a block whose size has changed from \<open>sz x\<close> to the list of its new size.\<close>

lemma chain_move_spec:
  assumes F: "free_lists p fl L" and c: "classes sz A L" and x: "x \<in> A"
    and ids: "ids_ok p A" and sz: "\<And>y. y \<in> A - {x} \<Longrightarrow> bsize (p y) = sz y"
  shows "\<exists>p' fl' L'. chain_entry_to_free_list p fl x (Some (sz x)) = Some (p', fl') \<and> same_core p p' \<and>
     list_frame p p' A \<and> free_lists p' fl' L' \<and> classes (sz(x := bsize (p x))) A L'"
proof (cases "sz x = bsize (p x)")
  case True
  then have "chain_entry_to_free_list p fl x (Some (sz x)) = Some (p, fl)"
    using ids x by (simp add: chain_entry_to_free_list_def get_size_ok ids_ok_def)
  moreover have "sz(x := bsize (p x)) = sz" using True by auto
  ultimately show ?thesis using F c by (auto simp: list_frame_def)
next
  case False
  let ?k = "size_to_page_order (sz x)" and ?n = "bsize (p x)"
  let ?p = "unchain_from_freelist p x" and ?L = "L(?k := remove1 x (L ?k))"
  define fl1 where "fl1 = (if fl ?k = Some (me_id (p x)) then fl(?k := me_list_next (p x)) else fl)"
  have xk: "x \<in> set (L ?k)" and idx: "me_id (p x) = x" "range_ok (p x)"
    and lt: "\<forall>y\<in>set (L ?k). y < POOL_SIZE"
    using c x ids by (auto simp: classes_def ids_ok_def)
  note un = unchain_free_lists [OF F xk lt idx(1) fl1_def]
  have c1: "classes sz (A - {x}) ?L"
    by (rule classes_remove [OF c free_listsD(3) [OF F]])
  have bs: "bsize (?p y) = bsize (p y)" for y by (rule same_core_bsize [OF un(4)])
  have "ids_ok ?p (insert x (A - {x}))"
    using ids idx un(4) x by (auto simp: ids_ok_def same_core_range_ok same_coreD)
  from chain_new_spec [OF un(1) c1 _ this un(2,3)] sz bs
  obtain p' fl' L' where *: "chain_entry_to_free_list ?p fl1 x None = Some (p', fl')" "same_core ?p p'"
    "free_lists p' fl' L'" "list_frame ?p p' (insert x (A - {x}))" "classes (sz(x := ?n)) (insert x (A - {x})) L'"
    by auto
  have "chain_entry_to_free_list p fl x (Some (sz x)) = chain_entry_to_free_list ?p fl1 x None"
    using False idx bs [of x] un(4)
    by (simp add: chain_entry_to_free_list_def get_size_ok same_core_range_ok fl1_def)
  moreover have "list_frame p p' A"
    using *(4) un(5) classes_sub [OF c, of ?k] x unfolding list_frame_def by (metis Diff_iff insert_iff subsetD)
  ultimately show ?thesis using * x un(4) by (auto simp: insert_absorb intro: same_core_trans)
qed

section \<open>The address list\<close>

definition nx :: "memory_entry_pool \<Rightarrow> nat \<Rightarrow> nat option" where
  "nx p i = me_next (p i)"

definition pv :: "memory_entry_pool \<Rightarrow> nat \<Rightarrow> nat option" where
  "pv p i = me_previous (p i)"

text \<open>
  \<open>addr_ok p f xs\<close>: the enabled entries are exactly \<open>xs\<close>, linked in this order from the first
  entry \<open>f\<close>, and at least one allocated byte lies between neighbours.
\<close>

definition addr_ok :: "memory_entry_pool \<Rightarrow> nat option \<Rightarrow> nat list \<Rightarrow> bool" where
  "addr_ok p f xs \<longleftrightarrow>
     f = hd_opt xs None \<and> linked (nx p) (pv p) None xs None \<and> distinct xs \<and> ids_ok p (set xs) \<and>
     sorted_wrt (\<lambda>x y. me_end (p x) + 1 < me_start (p y)) xs \<and>
     (\<forall>i<POOL_SIZE. me_enabled (p i) \<longleftrightarrow> i \<in> set xs)"

definition covered :: "memory_entry_pool \<Rightarrow> nat list \<Rightarrow> nat set" where
  "covered p xs = (\<Union>x\<in>set xs. {me_start (p x)..me_end (p x)})"

definition total_size :: "memory_entry_pool \<Rightarrow> nat list \<Rightarrow> nat" where
  "total_size p xs = sum_list (map (\<lambda>x. bsize (p x)) xs)"

text \<open>The representation relation and the invariant of the allocator.\<close>

definition ma_rep :: "memory_allocator \<Rightarrow> nat list \<Rightarrow> (nat \<Rightarrow> nat list) \<Rightarrow> bool" where
  "ma_rep s xs L \<longleftrightarrow>
     addr_ok (memory_entry_pool s) (first_entry s) xs \<and>
     free_lists (memory_entry_pool s) (free_list s) L \<and>
     classes (\<lambda>i. bsize (memory_entry_pool s i)) (set xs) L \<and>
     total_size (memory_entry_pool s) xs \<le> free_size s \<and> free_size s < usize_range \<and>
     (xs = [] \<longrightarrow> free_size s = 0)"

definition ma_inv :: "memory_allocator \<Rightarrow> bool" where
  "ma_inv s \<longleftrightarrow> (\<exists>xs L. ma_rep s xs L)"

text \<open>The abstract state: the set of free addresses.\<close>

definition free_set :: "memory_allocator \<Rightarrow> nat set" where
  "free_set s = {a. \<exists>i<POOL_SIZE. me_enabled (memory_entry_pool s i) \<and>
                   me_start (memory_entry_pool s i) \<le> a \<and> a \<le> me_end (memory_entry_pool s i)}"

lemma free_set_covered:
  "addr_ok (memory_entry_pool s) f xs \<Longrightarrow> free_set s = covered (memory_entry_pool s) xs"
  by (auto simp: free_set_def covered_def addr_ok_def ids_ok_def)

lemma covered_append [simp]: "covered p (xs @ ys) = covered p xs \<union> covered p ys"
  by (auto simp: covered_def)

lemma covered_Cons [simp]: "covered p (x # ys) = {me_start (p x)..me_end (p x)} \<union> covered p ys"
  by (auto simp: covered_def)

lemma covered_Nil [simp]: "covered p [] = {}"
  by (simp add: covered_def)

lemma covered_cong:
  "(\<And>x. x \<in> set xs \<Longrightarrow> me_start (p' x) = me_start (p x) \<and> me_end (p' x) = me_end (p x)) \<Longrightarrow>
     covered p' xs = covered p xs"
  by (simp add: covered_def)

lemma total_size_simps [simp]:
  "total_size p [] = 0" "total_size p (x # xs) = bsize (p x) + total_size p xs"
  "total_size p (xs @ ys) = total_size p xs + total_size p ys"
  by (simp_all add: total_size_def)

lemma total_size_cong: "(\<And>x. x \<in> set xs \<Longrightarrow> bsize (p' x) = bsize (p x)) \<Longrightarrow> total_size p' xs = total_size p xs"
  unfolding total_size_def by (metis (mono_tags, lifting) map_eq_conv)

lemma nx_pv_core:
  assumes "same_core p p'" shows "nx p' = nx p" "pv p' = pv p"
  using assms by (auto simp: nx_def pv_def same_coreD)

lemma ids_ok_core:
  assumes "same_core p p'"
  shows "ids_ok p' A = ids_ok p A"
  unfolding ids_ok_def same_coreD [OF assms] same_core_range_ok [OF assms] by (rule refl)

lemma addr_ok_core:
  assumes "same_core p p'"
  shows "addr_ok p' f xs = addr_ok p f xs"
  unfolding addr_ok_def nx_pv_core [OF assms] ids_ok_core [OF assms] same_coreD [OF assms] by (rule refl)

lemma covered_core:
  assumes "same_core p p'"
  shows "covered p' xs = covered p xs"
  by (rule covered_cong) (simp add: same_coreD [OF assms])

lemma total_size_core:
  assumes "same_core p p'"
  shows "total_size p' xs = total_size p xs"
  by (rule total_size_cong) (rule same_core_bsize [OF assms])

lemma addr_ok_links:
  assumes "addr_ok p f xs"
  shows "linked (nx p) (pv p) None xs None" "distinct xs"
    "\<forall>i\<in>set xs. i < POOL_SIZE \<and> me_id (p i) = i"
  using assms by (simp_all add: addr_ok_def ids_ok_def)

lemma get_next_entry_links:
  assumes lk: "linked (nx p) (pv p) None (ys @ x # zs) None"
    and id: "\<forall>i\<in>set (ys @ x # zs). i < POOL_SIZE \<and> me_id (p i) = i"
  shows "get_next_entry p x = hd_opt zs None" "get_prev_entry p x = last_opt ys None"
proof -
  note nb = linked_next [OF lk]
  show "get_next_entry p x = hd_opt zs None"
    using nb(1) id by (cases zs) (auto simp: get_next_entry_def nx_def)
  show "get_prev_entry p x = last_opt ys None"
    using nb(2) id by (cases ys rule: rev_cases) (auto simp: get_prev_entry_def pv_def)
qed

lemma get_next_entry_ok:
  assumes "addr_ok p f (ys @ x # zs)"
  shows "get_next_entry p x = hd_opt zs None" "get_prev_entry p x = last_opt ys None"
  by (rule get_next_entry_links [OF addr_ok_links(1,3) [OF assms]])+

lemma addr_ok_cong:
  assumes ok: "addr_ok p f xs"
    and links: "\<forall>i\<in>set xs. nx q i = nx p i \<and> pv q i = pv p i \<and> me_start (q i) = me_start (p i) \<and>
      me_end (q i) = me_end (p i) \<and> me_id (q i) = me_id (p i)"
    and en: "\<forall>i. me_enabled (q i) = me_enabled (p i)"
  shows "addr_ok q f xs"
proof -
  have "linked (nx q) (pv q) None xs None = linked (nx p) (pv p) None xs None"
    by (rule linked_cong) (use links in auto)
  moreover have "sorted_wrt (\<lambda>x y. me_end (q x) + 1 < me_start (q y)) xs"
    by (rule sorted_wrt_mono_rel [of _ "\<lambda>x y. me_end (p x) + 1 < me_start (p y)"])
      (use ok links in \<open>simp_all add: addr_ok_def\<close>)
  ultimately show ?thesis using ok links en by (simp add: addr_ok_def ids_ok_def range_ok_def)
qed

lemma is_first_entry_ok: "addr_ok p f (ys @ x # zs) \<Longrightarrow> is_first_entry (p x) \<longleftrightarrow> ys = []"
  using linked_next(2) [of "nx p" "pv p" None ys x zs None]
  by (auto simp: addr_ok_def is_first_entry_def pv_def)

text \<open>An entry changed in place, keeping its links.\<close>

lemma addr_ok_resize:
  assumes ok: "addr_ok p f (ys @ x # zs)" and lt: "st < en" "en + 1 < usize_range"
    and gl: "\<And>y. y \<in> set ys \<Longrightarrow> me_end (p y) + 1 < st"
    and gr: "\<And>z. z \<in> set zs \<Longrightarrow> en + 1 < me_start (p z)"
  shows "addr_ok (p(x := (p x)\<lparr>me_start := st, me_end := en\<rparr>)) f (ys @ x # zs)"
proof -
  let ?p = "p(x := (p x)\<lparr>me_start := st, me_end := en\<rparr>)"
  have l: "nx ?p = nx p" "pv ?p = pv p" by (auto simp: nx_def pv_def)
  have d: "distinct (ys @ x # zs)" using ok by (simp add: addr_ok_def)
  have "ids_ok ?p (set (ys @ x # zs))"
    using ok lt by (auto simp: addr_ok_def ids_ok_def range_ok_def)
  moreover have "sorted_wrt (\<lambda>x y. me_end (?p x) + 1 < me_start (?p y)) (ys @ x # zs)"
  proof -
    have srt: "sorted_wrt (\<lambda>x y. me_end (p x) + 1 < me_start (p y)) (ys @ x # zs)"
      using ok by (simp add: addr_ok_def)
    have "sorted_wrt (\<lambda>x y. me_end (?p x) + 1 < me_start (?p y)) ws" if "x \<notin> set ws"
      "sorted_wrt (\<lambda>x y. me_end (p x) + 1 < me_start (p y)) ws" for ws
      using that by (induction ws) auto
    with srt d gl gr show ?thesis by (auto simp: sorted_wrt_append)
  qed
  moreover have "\<forall>i<POOL_SIZE. me_enabled (?p i) \<longleftrightarrow> i \<in> set (ys @ x # zs)"
    using ok by (auto simp: addr_ok_def)
  ultimately show ?thesis using ok by (simp add: addr_ok_def l)
qed

lemma addr_ok_gaps:
  assumes "addr_ok p f (ys @ x # zs)"
  shows "\<And>y. y \<in> set ys \<Longrightarrow> me_end (p y) + 1 < me_start (p x)"
    "\<And>z. z \<in> set zs \<Longrightarrow> me_end (p x) + 1 < me_start (p z)"
    "\<And>y z. y \<in> set ys \<Longrightarrow> z \<in> set zs \<Longrightarrow> me_end (p y) + 1 < me_start (p z)"
    "me_start (p x) < me_end (p x)" "me_end (p x) + 1 < usize_range" "x < POOL_SIZE" "me_id (p x) = x"
  using assms by (auto simp: addr_ok_def ids_ok_def range_ok_def sorted_wrt_append)

end
