(* ===== verification/Allocator_Alloc.thy ===== *)
theory Allocator_Alloc
  imports Allocator_Invariant
begin

text \<open>
  Taking memory out of the allocator: \<open>define_used_memory\<close>, \<open>reserve_memory\<close> and
  \<open>allocate\<close> keep the representation invariant and remove exactly the requested range from
  the set of free addresses.
\<close>

section \<open>Changes of the address list\<close>

lemma delete_entry_fields:
  assumes lk: "linked (nx p) (pv p) None (ys @ x # zs) None" and d: "distinct (ys @ x # zs)"
    and id: "\<forall>i\<in>set (ys @ x # zs). i < POOL_SIZE \<and> me_id (p i) = i"
  shows "nx (delete_entry p x) i = (if i = x then None
           else if last_opt ys None = Some i then hd_opt zs None else nx p i)"
    "pv (delete_entry p x) i = (if i = x then None
           else if hd_opt zs None = Some i then last_opt ys None else pv p i)"
    "me_start (delete_entry p x i) = me_start (p i)" "me_end (delete_entry p x i) = me_end (p i)"
    "me_id (delete_entry p x i) = me_id (p i)" "lnx (delete_entry p x) i = lnx p i"
    "lpv (delete_entry p x) i = lpv p i"
    "me_enabled (delete_entry p x i) = (if i = x then False else me_enabled (p i))"
proof -
  have nb: "\<And>i. last_opt ys None = Some i \<Longrightarrow> i \<noteq> x \<and> me_id (p i) = i"
    "\<And>i. hd_opt zs None = Some i \<Longrightarrow> i \<noteq> x \<and> me_id (p i) = i"
    "\<And>i. last_opt ys None = Some i \<Longrightarrow> hd_opt zs None \<noteq> Some i"
    using d id by (auto dest!: last_opt_SomeD hd_opt_SomeD)
  note defs = delete_entry_def get_next_entry_links [OF lk id] nx_def pv_def lnx_def lpv_def
    chain_after_me_def unset_next_entry_def unset_prev_entry_def
  show "nx (delete_entry p x) i = (if i = x then None
           else if last_opt ys None = Some i then hd_opt zs None else nx p i)"
    "pv (delete_entry p x) i = (if i = x then None
           else if hd_opt zs None = Some i then last_opt ys None else pv p i)"
    "me_start (delete_entry p x i) = me_start (p i)" "me_end (delete_entry p x i) = me_end (p i)"
    "me_id (delete_entry p x i) = me_id (p i)" "lnx (delete_entry p x) i = lnx p i"
    "lpv (delete_entry p x) i = lpv p i"
    "me_enabled (delete_entry p x i) = (if i = x then False else me_enabled (p i))"
    using nb unfolding defs
    by (cases "last_opt ys None"; cases "hd_opt zs None"; auto)+
qed

lemma addr_ok_delete:
  assumes ok: "addr_ok p f (ys @ x # zs)"
  shows "addr_ok (delete_entry p x) (hd_opt (ys @ zs) None) (ys @ zs)"
proof -
  note fs = delete_entry_fields [OF addr_ok_links [OF ok]]
  have d: "distinct (ys @ x # zs)" and lk: "linked (nx p) (pv p) None (ys @ x # zs) None"
    using ok by (auto simp: addr_ok_def)
  have "linked (nx (delete_entry p x)) (pv (delete_entry p x)) None (ys @ zs) None"
    by (rule linked_remove [OF lk d]) (use d in \<open>auto simp: fs\<close>)
  moreover have "sorted_wrt (\<lambda>x y. me_end (p x) + 1 < me_start (p y)) (ys @ zs)"
    using ok by (auto simp: addr_ok_def sorted_wrt_append)
  ultimately show ?thesis
    using ok d unfolding addr_ok_def ids_ok_def range_ok_def fs by auto
qed

text \<open>
  A fresh entry \<open>n\<close> linked between \<open>ys\<close> and \<open>zs\<close>; \<open>q\<close> is any pool in which the links of the
  neighbours have been redirected to it.
\<close>

lemma addr_ok_insert:
  assumes ok: "addr_ok p f (ys @ zs)" and n: "n < POOL_SIZE" "n \<notin> set (ys @ zs)"
    and qn: "me_id (q n) = n" "me_enabled (q n)" "range_ok (q n)"
    and links: "\<And>i. nx q i = (if i = n then hd_opt zs None
          else if last_opt ys None = Some i then Some n else nx p i)"
      "\<And>i. pv q i = (if i = n then last_opt ys None
          else if hd_opt zs None = Some i then Some n else pv p i)"
    and same: "\<And>i. i \<noteq> n \<Longrightarrow> me_start (q i) = me_start (p i) \<and> me_end (q i) = me_end (p i) \<and>
          me_id (q i) = me_id (p i) \<and> me_enabled (q i) = me_enabled (p i)"
    and gaps: "\<And>y. y \<in> set ys \<Longrightarrow> me_end (p y) + 1 < me_start (q n)"
      "\<And>z. z \<in> set zs \<Longrightarrow> me_end (q n) + 1 < me_start (p z)"
  shows "addr_ok q (hd_opt (ys @ n # zs) None) (ys @ n # zs)"
proof -
  have d: "distinct (ys @ n # zs)" and lk: "linked (nx p) (pv p) None (ys @ zs) None"
    using ok n by (auto simp: addr_ok_def)
  have "linked (nx q) (pv q) None (ys @ n # zs) None"
    by (rule linked_insert [OF lk d]) (simp_all add: links)
  moreover have eq: "me_start (q i) = me_start (p i) \<and> me_end (q i) = me_end (p i) \<and>
      me_id (q i) = me_id (p i) \<and> me_enabled (q i) = me_enabled (p i)" if "i \<in> set (ys @ zs)" for i
    using same n(2) that by metis
  have "sorted_wrt (\<lambda>x y. me_end (q x) + 1 < me_start (q y)) (ys @ zs)"
    by (rule sorted_wrt_mono_rel [of _ "\<lambda>x y. me_end (p x) + 1 < me_start (p y)"])
      (use ok eq in \<open>simp_all add: addr_ok_def\<close>)
  then have "sorted_wrt (\<lambda>x y. me_end (q x) + 1 < me_start (q y)) (ys @ n # zs)"
    using gaps eq by (simp add: sorted_wrt_append)
  moreover have "ids_ok q (set (ys @ n # zs))"
    using ok n qn eq by (auto simp: addr_ok_def ids_ok_def range_ok_def)
  moreover have "\<forall>i<POOL_SIZE. me_enabled (q i) \<longleftrightarrow> i \<in> set (ys @ n # zs)"
  proof (intro allI impI)
    fix i assume "i < POOL_SIZE"
    then show "me_enabled (q i) \<longleftrightarrow> i \<in> set (ys @ n # zs)"
      using ok qn(2) same [of i] by (cases "i = n") (auto simp: addr_ok_def)
  qed
  ultimately show ?thesis using d by (simp add: addr_ok_def)
qed

section \<open>Changes of the whole representation\<close>

lemma free_lists_frame:
  assumes F: "free_lists p fl L"
    and eq: "\<And>k i. i \<in> set (L k) \<Longrightarrow> lnx q i = lnx p i \<and> lpv q i = lpv p i"
  shows "free_lists q fl L"
proof -
  have "linked (lnx q) (lpv q) None (L k) None = linked (lnx p) (lpv p) None (L k) None" for k
    by (rule linked_cong) (simp_all add: eq [of _ k])
  with F show ?thesis by (simp add: free_lists_def)
qed

lemma ma_repD:
  assumes "ma_rep s xs L"
  shows "addr_ok (memory_entry_pool s) (first_entry s) xs"
    "free_lists (memory_entry_pool s) (free_list s) L"
    "classes (\<lambda>i. bsize (memory_entry_pool s i)) (set xs) L"
    "total_size (memory_entry_pool s) xs \<le> free_size s" "free_size s < usize_range"
    "xs = [] \<Longrightarrow> free_size s = 0"
    "ids_ok (memory_entry_pool s) (set xs)" "distinct xs"
    "free_set s = covered (memory_entry_pool s) xs"
  using assms by (auto simp: ma_rep_def addr_ok_def free_set_covered [of s "first_entry s" xs])

lemma ma_rep_core:
  assumes "addr_ok p f xs" "same_core p p'" "free_lists p' fl L" "classes sz (set xs) L"
    "\<And>x. x \<in> set xs \<Longrightarrow> sz x = bsize (p x)" "total_size p xs \<le> t" "t < usize_range" "xs \<noteq> []"
  shows "ma_rep \<lparr>free_size = t, first_entry = f, free_list = fl, memory_entry_pool = p'\<rparr> xs L"
  using assms classes_cong [of "set xs" sz "\<lambda>i. bsize (p' i)" L]
  by (simp add: ma_rep_def addr_ok_core [OF assms(2)] total_size_core [OF assms(2)]
      same_core_bsize [OF assms(2)])

text \<open>A block resized in place and moved to its new free list.\<close>

lemma rep_resize:
  assumes rep: "ma_rep s (ys @ x # zs) L"
    and p: "p = (memory_entry_pool s)(x := (memory_entry_pool s x)\<lparr>me_start := st, me_end := en\<rparr>)"
    and addr: "addr_ok p (first_entry s) (ys @ x # zs)"
    and t: "total_size p (ys @ x # zs) \<le> t" "t < usize_range"
  shows "\<exists>p' fl' L'. chain_entry_to_free_list p (free_list s) x (Some (bsize (memory_entry_pool s x)))
       = Some (p', fl') \<and> same_core p p' \<and>
     ma_rep \<lparr>free_size = t, first_entry = first_entry s, free_list = fl', memory_entry_pool = p'\<rparr>
       (ys @ x # zs) L'"
proof -
  let ?sz = "\<lambda>i. bsize (memory_entry_pool s i)"
  note D = ma_repD [OF rep]
  have F: "free_lists p (free_list s) L" using D(2) by (subst free_lists_cong [of p]) (auto simp: p)
  have "ids_ok p (set (ys @ x # zs))" using addr by (simp add: addr_ok_def)
  from chain_move_spec [OF F D(3) _ this, of x]
  obtain p' fl' L' where *: "chain_entry_to_free_list p (free_list s) x (Some (?sz x)) = Some (p', fl')"
    "same_core p p'" "free_lists p' fl' L'"
    "classes (?sz(x := bsize (p x))) (set (ys @ x # zs)) L'"
    by (auto simp: p)
  have "ma_rep \<lparr>free_size = t, first_entry = first_entry s, free_list = fl', memory_entry_pool = p'\<rparr>
       (ys @ x # zs) L'"
    by (rule ma_rep_core [OF addr *(2-4) _ t]) (auto simp: p)
  with * show ?thesis by blast
qed

text \<open>A block removed from both lists.\<close>

lemma rep_delete:
  assumes rep: "ma_rep s (ys @ x # zs) L" and ne: "ys @ zs \<noteq> []"
    and t: "total_size (memory_entry_pool s) (ys @ zs) \<le> t" "t < usize_range"
  shows "\<exists>p fl L'. unchain_entry_from_free_list (memory_entry_pool s) (free_list s) x = Some (p, fl) \<and>
     ma_rep \<lparr>free_size = t, first_entry = hd_opt (ys @ zs) None, free_list = fl,
       memory_entry_pool = delete_entry p x\<rparr> (ys @ zs) L' \<and>
     covered (delete_entry p x) (ys @ zs) = covered (memory_entry_pool s) (ys @ zs)"
proof -
  let ?p = "memory_entry_pool s" and ?k = "size_to_page_order (bsize (memory_entry_pool s x))"
  note D = ma_repD [OF rep]
  define fl where "fl = (if free_list s ?k = Some (me_id (?p x))
    then (free_list s)(?k := me_list_next (?p x)) else free_list s)"
  have xk: "x \<in> set (L ?k)" and id: "me_id (?p x) = x" "range_ok (?p x)"
    and lt: "\<forall>y\<in>set (L ?k). y < POOL_SIZE"
    using D(3,7) by (auto simp: classes_def ids_ok_def)
  note un = unchain_free_lists [OF D(2) xk lt id(1) fl_def]
  let ?q = "unchain_from_freelist ?p x"
  have addr: "addr_ok ?q (first_entry s) (ys @ x # zs)"
    using D(1) by (simp add: addr_ok_core [OF un(4)])
  note fs = delete_entry_fields [OF addr_ok_links [OF addr]]
  let ?d = "delete_entry ?q x"
  have same: "me_start (?d i) = me_start (?p i) \<and> me_end (?d i) = me_end (?p i)" for i
    by (simp add: fs same_coreD [OF un(4)])
  then have bs: "bsize (?d i) = bsize (?p i)" for i by (simp add: bsize_def)
  have "free_lists ?d fl (L(?k := remove1 x (L ?k)))"
    by (rule free_lists_frame [OF un(1)]) (simp add: fs)
  moreover have "set (ys @ x # zs) - {x} = set (ys @ zs)" using D(8) by auto
  with classes_remove [OF D(3) free_listsD(3) [OF D(2)], of x]
  have "classes (\<lambda>i. bsize (?p i)) (set (ys @ zs)) (L(?k := remove1 x (L ?k)))" by simp
  moreover have "addr_ok ?d (hd_opt (ys @ zs) None) (ys @ zs)" by (rule addr_ok_delete [OF addr])
  moreover have "total_size ?d (ys @ zs) = total_size ?p (ys @ zs)" by (rule total_size_cong) (rule bs)
  ultimately have "ma_rep \<lparr>free_size = t, first_entry = hd_opt (ys @ zs) None, free_list = fl,
       memory_entry_pool = ?d\<rparr> (ys @ zs) (L(?k := remove1 x (L ?k)))"
    using t ne by (auto simp: ma_rep_def bs)
  moreover have "covered ?d (ys @ zs) = covered ?p (ys @ zs)" by (rule covered_cong) (rule same)
  moreover have "unchain_entry_from_free_list ?p (free_list s) x = Some (?q, fl)"
    using id(2) by (simp add: unchain_entry_from_free_list_def get_size_ok fl_def)
  ultimately show ?thesis by blast
qed

text \<open>A fresh block \<open>n\<close> added to both lists, after the block \<open>x\<close> may have been resized.\<close>

lemma rep_add:
  assumes rep: "ma_rep s (ys @ zs) L" and x: "x \<in> set (ys @ zs)" and n: "n \<notin> set (ys @ zs)"
    and F: "free_lists q (free_list s) L" and none: "lnx q n = None" "lpv q n = None"
    and addr: "addr_ok q f (ys @ n # zs)"
    and sz: "\<And>y. y \<in> set (ys @ zs) - {x} \<Longrightarrow> bsize (q y) = bsize (memory_entry_pool s y)"
    and t: "total_size q (ys @ n # zs) \<le> t" "t < usize_range"
  shows "\<exists>p1 fl1 p2 fl2 L'.
     chain_entry_to_free_list q (free_list s) x (Some (bsize (memory_entry_pool s x))) = Some (p1, fl1) \<and>
     chain_entry_to_free_list p1 fl1 n None = Some (p2, fl2) \<and> same_core q p2 \<and>
     ma_rep \<lparr>free_size = t, first_entry = f, free_list = fl2, memory_entry_pool = p2\<rparr> (ys @ n # zs) L'"
proof -
  let ?sz = "\<lambda>i. bsize (memory_entry_pool s i)" and ?A = "set (ys @ zs)"
  note D = ma_repD [OF rep]
  have ids: "ids_ok q (insert n ?A)" using addr by (simp add: addr_ok_def insert_commute)
  then have "ids_ok q ?A" by (simp add: ids_ok_def)
  from chain_move_spec [OF F D(3) x this sz]
  obtain p1 fl1 L1 where c1: "chain_entry_to_free_list q (free_list s) x (Some (?sz x)) = Some (p1, fl1)"
    "same_core q p1" "free_lists p1 fl1 L1" "classes (?sz(x := bsize (q x))) ?A L1" "list_frame q p1 ?A"
    by auto
  have e1: "bsize (p1 y) = bsize (q y)" for y by (rule same_core_bsize [OF c1(2)])
  have none1: "lnx p1 n = None" "lpv p1 n = None" using c1(5) none n by (simp_all add: list_frame_def)
  have ids1: "ids_ok p1 (insert n ?A)" using ids by (simp add: ids_ok_core [OF c1(2)])
  have sz1: "bsize (p1 y) = (?sz(x := bsize (q x))) y" if "y \<in> ?A" for y using sz that by (auto simp: e1)
  from chain_new_spec [OF c1(3,4) n ids1 none1 sz1]
  obtain p2 fl2 L2 where c2: "chain_entry_to_free_list p1 fl1 n None = Some (p2, fl2)" "same_core p1 p2"
    "free_lists p2 fl2 L2" "classes (?sz(x := bsize (q x), n := bsize (p1 n))) (insert n ?A) L2"
    by (auto simp del: fun_upd_apply)
  have core: "same_core q p2" using c1(2) c2(2) by (rule same_core_trans)
  have "ma_rep \<lparr>free_size = t, first_entry = f, free_list = fl2, memory_entry_pool = p2\<rparr> (ys @ n # zs) L2"
    by (rule ma_rep_core [OF addr core c2(3) _ _ t, of "?sz(x := bsize (q x), n := bsize (p1 n))"])
      (use c2(4) sz n in \<open>auto simp: e1 insert_commute\<close>)
  with c1(1) c2(1) core show ?thesis by blast
qed

lemma create_memory_entry_cases:
  assumes ok: "addr_ok p f xs"
  shows "(create_memory_entry p = Err NoEntry \<and> set xs = {..<POOL_SIZE}) \<or>
    (\<exists>n<POOL_SIZE. n \<notin> set xs \<and>
       create_memory_entry p = Ok (p(n := memory_entry_new\<lparr>me_id := n, me_enabled := True\<rparr>), n))"
proof (cases "find (\<lambda>i. \<not> me_enabled (p i)) [0..<POOL_SIZE]")
  case None
  then have "\<forall>i<POOL_SIZE. me_enabled (p i)" by (auto simp: find_None_iff)
  with ok have "set xs = {..<POOL_SIZE}" by (auto simp: addr_ok_def ids_ok_def)
  with None show ?thesis by (simp add: create_memory_entry.simps)
next
  case (Some n)
  then have "n < POOL_SIZE" "\<not> me_enabled (p n)" by (auto simp: find_Some_iff)
  with ok Some show ?thesis by (auto simp: addr_ok_def create_memory_entry.simps)
qed

section \<open>The request inside one block\<close>

text \<open>\<open>used_ok s a sz s'\<close>: what a successful removal of \<open>sz\<close> bytes at \<open>a\<close> achieves.\<close>

definition used_ok :: "memory_allocator \<Rightarrow> usize \<Rightarrow> usize \<Rightarrow> memory_allocator \<Rightarrow> bool" where
  "used_ok s a sz s' \<longleftrightarrow> ma_inv s' \<and> {a..<a + sz} \<subseteq> free_set s \<and>
     free_set s' = free_set s - {a..<a + sz} \<and> free_size s' = free_size s - sz"

lemma used_finish_eq:
  "sz \<le> free_size s \<Longrightarrow> used_finish (s\<lparr>memory_entry_pool := p, free_list := fl\<rparr>) sz =
     Some (\<lparr>free_size = free_size s - sz, first_entry = first_entry s, free_list = fl,
            memory_entry_pool = p\<rparr>, Ok ())"
  by (cases s) (simp add: used_finish_def usub_def)

lemma covered_disjoint:
  assumes "addr_ok p f (ys @ x # zs)" "me_start (p x) \<le> a" "a + sz \<le> me_end (p x) + 1"
  shows "(covered p ys \<union> covered p zs) \<inter> {a..<a + sz} = {}"
proof -
  have "me_start (p x) \<le> b \<and> b \<le> me_end (p x)" if "b \<in> {a..<a + sz}" for b using that assms(2,3) by auto
  with addr_ok_gaps(1,2) [OF assms(1)] show ?thesis
    unfolding covered_def by (fastforce simp: disjoint_iff)
qed

lemma used_shrink:
  assumes rep: "ma_rep s (ys @ x # zs) L" and p: "p = memory_entry_pool s"
    and new: "me_start (p x) \<le> st" "st < en" "en \<le> me_end (p x)"
    and rest: "{me_start (p x)..me_end (p x)} - {a..<a + sz} = {st..en}"
    and req: "me_start (p x) \<le> a" "a + sz \<le> me_end (p x) + 1"
    and sz: "bsize (p x) = en - st + 1 + sz"
  shows "\<exists>p' fl'. chain_entry_to_free_list (p(x := (p x)\<lparr>me_start := st, me_end := en\<rparr>)) (free_list s) x
       (Some (bsize (p x))) = Some (p', fl') \<and>
     used_ok s a sz \<lparr>free_size = free_size s - sz, first_entry = first_entry s, free_list = fl',
       memory_entry_pool = p'\<rparr>"
proof -
  note D = ma_repD [OF rep, folded p]
  note G = addr_ok_gaps [OF D(1)]
  let ?q = "p(x := (p x)\<lparr>me_start := st, me_end := en\<rparr>)"
  have d: "x \<notin> set ys" "x \<notin> set zs" using D(8) by auto
  have addr: "addr_ok ?q (first_entry s) (ys @ x # zs)"
    by (rule addr_ok_resize [OF D(1)]) (use new G in \<open>force\<close>)+
  have "total_size ?q ys = total_size p ys" "total_size ?q zs = total_size p zs"
    by (rule total_size_cong; use d in auto)+
  then have "total_size ?q (ys @ x # zs) \<le> free_size s - sz" "free_size s - sz < usize_range"
    using D(4,5) sz by (simp_all add: bsize_def)
  from rep_resize [OF rep _ addr this] p
  obtain p' fl' L' where c: "chain_entry_to_free_list ?q (free_list s) x (Some (bsize (p x))) = Some (p', fl')"
    "same_core ?q p'" "ma_rep \<lparr>free_size = free_size s - sz, first_entry = first_entry s,
       free_list = fl', memory_entry_pool = p'\<rparr> (ys @ x # zs) L'" by blast
  have "covered ?q ys = covered p ys" "covered ?q zs = covered p zs"
    by (rule covered_cong; use d in auto)+
  then have "covered p' (ys @ x # zs) = covered p (ys @ x # zs) - {a..<a + sz}"
    using covered_disjoint [OF D(1) req] rest unfolding covered_core [OF c(2)] by simp blast
  moreover have "{a..<a + sz} \<subseteq> covered p (ys @ x # zs)" using req by auto
  ultimately show ?thesis
    using c ma_repD(9) [OF c(3)] D(9) by (auto simp: used_ok_def ma_inv_def)
qed

lemma used_delete:
  assumes rep: "ma_rep s (ys @ x # zs) L" and p: "p = memory_entry_pool s" and ne: "ys @ zs \<noteq> []"
  shows "\<exists>p' fl'. unchain_entry_from_free_list p (free_list s) x = Some (p', fl') \<and>
     used_ok s (me_start (p x)) (bsize (p x)) \<lparr>free_size = free_size s - bsize (p x),
       first_entry = hd_opt (ys @ zs) None, free_list = fl', memory_entry_pool = delete_entry p' x\<rparr>"
proof -
  note D = ma_repD [OF rep, folded p]
  let ?a = "me_start (p x)" and ?sz = "bsize (p x)"
  have t: "total_size p (ys @ zs) \<le> free_size s - ?sz" "free_size s - ?sz < usize_range"
    using D(4,5) by simp_all
  from rep_delete [OF rep ne, folded p, OF t]
  obtain p' fl' L' where c: "unchain_entry_from_free_list p (free_list s) x = Some (p', fl')"
    "ma_rep \<lparr>free_size = free_size s - ?sz, first_entry = hd_opt (ys @ zs) None, free_list = fl',
       memory_entry_pool = delete_entry p' x\<rparr> (ys @ zs) L'"
    "covered (delete_entry p' x) (ys @ zs) = covered p (ys @ zs)" by blast
  have lt: "me_start (p x) < me_end (p x)" by (rule addr_ok_gaps(4) [OF D(1)])
  then have rng: "{me_start (p x)..me_end (p x)} = {?a..<?a + ?sz}" by (auto simp: bsize_def)
  have "covered p (ys @ zs) = covered p (ys @ x # zs) - {?a..<?a + ?sz}"
    using covered_disjoint [OF D(1), of ?a ?sz] lt rng by (auto simp: bsize_def)
  then have "used_ok s ?a ?sz \<lparr>free_size = free_size s - ?sz, first_entry = hd_opt (ys @ zs) None,
      free_list = fl', memory_entry_pool = delete_entry p' x\<rparr>"
    using ma_repD(9) [OF c(2)] c(2,3) D(9) rng by (auto simp: used_ok_def ma_inv_def)
  with c(1) show ?thesis by blast
qed

text \<open>The pool after a split of \<open>x\<close>, with the entry \<open>n\<close> made for the part after the request.\<close>

definition split_pool :: "memory_entry_pool \<Rightarrow> nat \<Rightarrow> nat \<Rightarrow> usize \<Rightarrow> usize \<Rightarrow> memory_entry_pool" where
  "split_pool p x n a sz =
     (let p1 = p(n := memory_entry_new\<lparr>me_id := n, me_enabled := True\<rparr>);
        p2 = p1(n := (p1 n)\<lparr>me_start := a + sz, me_end := me_end (p1 x)\<rparr>);
        p3 = p2(x := (p2 x)\<lparr>me_start := me_start (p2 x), me_end := a - 1\<rparr>);
        p4 = (case get_next_entry p3 x of Some y \<Rightarrow> chain_after_me p3 n y | None \<Rightarrow> p3)
      in chain_after_me p4 x n)"

lemma split_pool_fields:
  assumes ok: "addr_ok p f (ys @ x # zs)" and n: "n \<notin> set (ys @ x # zs)"
  shows "nx (split_pool p x n a sz) i = (if i = n then hd_opt zs None else if i = x then Some n else nx p i)"
    "pv (split_pool p x n a sz) i = (if i = n then Some x else if hd_opt zs None = Some i then Some n else pv p i)"
    "i \<noteq> n \<Longrightarrow> lnx (split_pool p x n a sz) i = lnx p i \<and> lpv (split_pool p x n a sz) i = lpv p i"
    "lnx (split_pool p x n a sz) n = None \<and> lpv (split_pool p x n a sz) n = None"
    "me_id (split_pool p x n a sz i) = (if i = n then n else me_id (p i))"
    "me_enabled (split_pool p x n a sz i) = (if i = n then True else me_enabled (p i))"
    "me_start (split_pool p x n a sz i) = (if i = n then a + sz else me_start (p i))"
    "me_end (split_pool p x n a sz i) = (if i = n then me_end (p x) else if i = x then a - 1 else me_end (p i))"
proof -
  have d: "distinct (ys @ x # zs)" and id: "\<And>i. i \<in> set (ys @ x # zs) \<Longrightarrow> me_id (p i) = i"
    using ok by (auto simp: addr_ok_def ids_ok_def)
  have b: "me_next (p x) = hd_opt zs None"
    using ok linked_next(1) [of "nx p" "pv p" None ys x zs None] by (simp add: addr_ok_def nx_def)
  have nb: "\<And>y. hd_opt zs None = Some y \<Longrightarrow> y \<noteq> x \<and> y \<noteq> n \<and> me_id (p y) = y \<and> y < POOL_SIZE"
    "x \<noteq> n" "me_id (p x) = x"
    using d id n ok by (auto simp: addr_ok_def ids_ok_def dest!: hd_opt_SomeD)
  note defs = split_pool_def Let_def get_next_entry_def nx_def pv_def lnx_def lpv_def chain_after_me_def
    memory_entry_new_def
  show "nx (split_pool p x n a sz) i = (if i = n then hd_opt zs None else if i = x then Some n else nx p i)"
    "pv (split_pool p x n a sz) i = (if i = n then Some x else if hd_opt zs None = Some i then Some n else pv p i)"
    "i \<noteq> n \<Longrightarrow> lnx (split_pool p x n a sz) i = lnx p i \<and> lpv (split_pool p x n a sz) i = lpv p i"
    "lnx (split_pool p x n a sz) n = None \<and> lpv (split_pool p x n a sz) n = None"
    "me_id (split_pool p x n a sz i) = (if i = n then n else me_id (p i))"
    "me_enabled (split_pool p x n a sz i) = (if i = n then True else me_enabled (p i))"
    "me_start (split_pool p x n a sz i) = (if i = n then a + sz else me_start (p i))"
    "me_end (split_pool p x n a sz i) = (if i = n then me_end (p x) else if i = x then a - 1 else me_end (p i))"
    using nb b unfolding defs by (cases "hd_opt zs None"; simp)+
qed

lemma used_split:
  assumes rep: "ma_rep s (ys @ x # zs) L" and p: "p = memory_entry_pool s"
    and n: "n < POOL_SIZE" "n \<notin> set (ys @ x # zs)"
    and req: "me_start (p x) + 1 < a" "a + sz < me_end (p x)" "0 < sz"
  shows "\<exists>p1 fl1 p2 fl2.
     chain_entry_to_free_list (split_pool p x n a sz) (free_list s) x (Some (bsize (p x))) = Some (p1, fl1) \<and>
     chain_entry_to_free_list p1 fl1 n None = Some (p2, fl2) \<and>
     used_ok s a sz \<lparr>free_size = free_size s - sz, first_entry = first_entry s, free_list = fl2,
       memory_entry_pool = p2\<rparr>"
proof -
  note D = ma_repD [OF rep, folded p]
  note G = addr_ok_gaps [OF D(1)]
  note fs = split_pool_fields [OF D(1) n(2), where a = a and sz = sz]
  let ?q = "split_pool p x n a sz" and ?r = "p(x := (p x)\<lparr>me_start := me_start (p x), me_end := a - 1\<rparr>)"
  have d: "x \<notin> set ys" "x \<notin> set zs" "n \<notin> set ys" "n \<notin> set zs" "n \<noteq> x" using D(8) n(2) by auto
  have r: "addr_ok ?r (first_entry s) (ys @ x # zs)"
  proof (rule addr_ok_resize [OF D(1)])
    show "a - 1 + 1 < me_start (p z)" if "z \<in> set zs" for z using G(2) [OF that] req by simp
  qed (use req G in simp_all)
  have "addr_ok ?q (hd_opt ((ys @ [x]) @ n # zs) None) ((ys @ [x]) @ n # zs)"
  proof (rule addr_ok_insert [of ?r "first_entry s"])
    show "me_end (?r y) + 1 < me_start (?q n)" if "y \<in> set (ys @ [x])" for y
    proof (cases "y = x")
      case False
      with that have "me_end (p y) + 1 < me_start (p x)" using G(1) by simp
      with False req show ?thesis by (simp add: fs)
    qed (use req in \<open>simp add: fs\<close>)
    show "me_end (?q n) + 1 < me_start (?r z)" if "z \<in> set zs" for z
      using G(2) [OF that] that d by (auto simp: fs)
    show "range_ok (?q n)" using req G(5) by (simp add: fs range_ok_def)
  qed (use r n d in \<open>auto simp: fs simp del: fun_upd_apply\<close>, auto simp: nx_def pv_def)
  then have addr: "addr_ok ?q (first_entry s) ((ys @ [x]) @ n # zs)"
    using D(1) by (simp add: addr_ok_def)
  have nL: "i \<noteq> n" if "i \<in> set (L k)" for i k using classes_sub [OF D(3), of k] n(2) that by blast
  have F: "free_lists ?q (free_list s) L"
    by (rule free_lists_frame [OF D(2)]) (rule fs(3) [OF nL])
  have ts: "total_size ?q ys = total_size p ys" "total_size ?q zs = total_size p zs"
    by (rule total_size_cong; use d in \<open>auto simp: fs bsize_def\<close>)+
  then have t: "total_size ?q ((ys @ [x]) @ n # zs) \<le> free_size s - sz" "free_size s - sz < usize_range"
    using D(4,5) req d by (simp_all add: bsize_def fs)
  have rep': "ma_rep s ((ys @ [x]) @ zs) L" using rep by simp
  have sz': "bsize (?q y) = bsize (memory_entry_pool s y)" if "y \<in> set ((ys @ [x]) @ zs) - {x}" for y
    using that d unfolding p [symmetric] by (auto simp: bsize_def fs)
  from rep_add [OF rep' _ _ F _ _ addr sz' t, of x] n fs(4) p
  obtain p1 fl1 p2 fl2 L' where c:
    "chain_entry_to_free_list ?q (free_list s) x (Some (bsize (p x))) = Some (p1, fl1)"
    "chain_entry_to_free_list p1 fl1 n None = Some (p2, fl2)" "same_core ?q p2"
    "ma_rep \<lparr>free_size = free_size s - sz, first_entry = first_entry s, free_list = fl2,
       memory_entry_pool = p2\<rparr> ((ys @ [x]) @ n # zs) L'" by auto
  have "covered ?q ys = covered p ys" "covered ?q zs = covered p zs"
    by (rule covered_cong; use d in \<open>auto simp: fs\<close>)+
  moreover have "{me_start (p x)..me_end (p x)} - {a..<a + sz} = {me_start (p x)..a - 1} \<union> {a + sz..me_end (p x)}"
    using req by auto
  ultimately have "covered p2 ((ys @ [x]) @ n # zs) = covered p (ys @ x # zs) - {a..<a + sz}"
    using covered_disjoint [OF D(1), of a sz] req d unfolding covered_core [OF c(3)] by (simp add: fs) blast
  moreover have "{a..<a + sz} \<subseteq> covered p (ys @ x # zs)" using req by auto
  ultimately show ?thesis
    using c ma_repD(9) [OF c(4)] D(9) by (auto simp: used_ok_def ma_inv_def)
qed

end
