(* ===== verification/Allocator_Request.thy ===== *)
theory Allocator_Request
  imports Allocator_Alloc
begin

text \<open>
  The requests of the allocator: \<open>define_used_memory\<close> at a known block and at an address,
  \<open>reserve_memory\<close>, and \<open>allocate\<close> with its search of the free lists. A request either
  removes exactly the returned range from the set of free addresses or leaves the
  allocator as it was.
\<close>

section \<open>A request inside a known block\<close>

text \<open>
  \<open>set_range\<close> asserts \<open>start < end\<close>, so a request that leaves a one-byte remainder on either
  side panics; \<open>no_byte_left\<close> excludes it. Page-granular blocks and requests satisfy it.
\<close>

definition no_byte_left :: "memory_entry \<Rightarrow> usize \<Rightarrow> usize \<Rightarrow> bool" where
  "no_byte_left e a sz \<longleftrightarrow> a \<noteq> me_start e + 1 \<and> a + sz \<noteq> me_end e"

definition request_in :: "memory_entry \<Rightarrow> usize \<Rightarrow> usize \<Rightarrow> bool" where
  "request_in e a sz \<longleftrightarrow> 0 < sz \<and> me_start e \<le> a \<and> a + sz \<le> me_end e + 1"

lemma used_in_entry_whole:
  assumes rep: "ma_rep s (ys @ x # zs) L" and p: "p = memory_entry_pool s"
    and a: "me_start (p x) = a" "a + sz = me_end (p x) + 1" "0 < sz"
  shows "(ys @ zs = [] \<and> define_used_in_entry s a sz x = Some (s, Err NoEntry)) \<or>
    (\<exists>s'. define_used_in_entry s a sz x = Some (s', Ok ()) \<and> used_ok s a sz s')"
proof -
  note D = ma_repD [OF rep, folded p]
  note G = addr_ok_gaps [OF D(1)]
  have sz: "bsize (p x) = sz" "sz \<le> free_size s" using a G(4) D(4) by (auto simp: bsize_def)
  have "get_end_address a sz = Some (me_end (p x))"
    using a G(5) by (simp add: get_end_address_def uadd_def usub_def)
  note du = define_used_in_entry_def Let_def p [symmetric] a(1) this
    get_next_entry_ok [OF D(1)] is_first_entry_ok [OF D(1)]
  show ?thesis
  proof (cases "ys @ zs = []")
    case True
    then show ?thesis by (simp add: du)
  next
    case False
    from used_delete [OF rep p False] sz a(1) obtain p' fl' where c:
      "unchain_entry_from_free_list p (free_list s) x = Some (p', fl')"
      "used_ok s a sz \<lparr>free_size = free_size s - sz, first_entry = hd_opt (ys @ zs) None,
         free_list = fl', memory_entry_pool = delete_entry p' x\<rparr>" by auto
    have id: "me_id (p i) = i" if "i \<in> set (ys @ x # zs)" for i using D(7) that by (auto simp: ids_ok_def)
    have f: "first_entry s = hd_opt (ys @ x # zs) None" using D(1) by (simp add: addr_ok_def)
    have "define_used_in_entry s a sz x = Some (\<lparr>free_size = free_size s - sz,
        first_entry = hd_opt (ys @ zs) None, free_list = fl', memory_entry_pool = delete_entry p' x\<rparr>, Ok ())"
      using False c(1) f sz(2) id by (cases ys; cases zs) (simp_all add: du used_finish_def usub_def)
    with c(2) show ?thesis by blast
  qed
qed

lemma used_in_entry_front:
  assumes rep: "ma_rep s (ys @ x # zs) L" and p: "p = memory_entry_pool s"
    and a: "me_start (p x) = a" "a + sz < me_end (p x)" "0 < sz"
  shows "\<exists>s'. define_used_in_entry s a sz x = Some (s', Ok ()) \<and> used_ok s a sz s'"
proof -
  note D = ma_repD [OF rep, folded p]
  note G = addr_ok_gaps [OF D(1)]
  have rok: "range_ok (p x)" using G by (simp add: range_ok_def)
  have sz: "bsize (p x) = me_end (p x) - (a + sz) + 1 + sz" "sz \<le> free_size s"
    using a G(4) D(4) by (auto simp: bsize_def)
  have "{me_start (p x)..me_end (p x)} - {a..<a + sz} = {a + sz..me_end (p x)}" using a by auto
  from used_shrink [OF rep p _ _ _ this _ _ sz(1)] a obtain p' fl' where c:
    "chain_entry_to_free_list (p(x := (p x)\<lparr>me_start := a + sz, me_end := me_end (p x)\<rparr>)) (free_list s) x
       (Some (bsize (p x))) = Some (p', fl')"
    "used_ok s a sz \<lparr>free_size = free_size s - sz, first_entry = first_entry s,
       free_list = fl', memory_entry_pool = p'\<rparr>" by auto
  have "get_end_address a sz = Some (a + sz - 1)" "uadd a sz = Some (a + sz)" "a + sz - 1 \<noteq> me_end (p x)"
    using a G(5) by (simp_all add: get_end_address_def uadd_def usub_def)
  with a c(1) sz(2) have "define_used_in_entry s a sz x = Some (\<lparr>free_size = free_size s - sz,
        first_entry = first_entry s, free_list = fl', memory_entry_pool = p'\<rparr>, Ok ())"
    by (simp add: define_used_in_entry_def Let_def p [symmetric] get_size_ok [OF rok] set_range_def
        used_finish_def usub_def)
  with c(2) show ?thesis by blast
qed

lemma used_in_entry_back:
  assumes rep: "ma_rep s (ys @ x # zs) L" and p: "p = memory_entry_pool s"
    and a: "me_start (p x) + 1 < a" "a + sz = me_end (p x) + 1" "0 < sz"
  shows "\<exists>s'. define_used_in_entry s a sz x = Some (s', Ok ()) \<and> used_ok s a sz s'"
proof -
  note D = ma_repD [OF rep, folded p]
  note G = addr_ok_gaps [OF D(1)]
  have rok: "range_ok (p x)" using G by (simp add: range_ok_def)
  let ?q = "p(x := (p x)\<lparr>me_start := me_start (p x), me_end := a - 1\<rparr>)"
  have sz: "bsize (p x) = a - 1 - me_start (p x) + 1 + sz" "sz \<le> free_size s"
    using a G(4) D(4) by (auto simp: bsize_def)
  have "{me_start (p x)..me_end (p x)} - {a..<a + sz} = {me_start (p x)..a - 1}" using a by auto
  moreover have "me_start (p x) < a - 1" "a - 1 \<le> me_end (p x)" "me_start (p x) \<le> a"
    "a + sz \<le> me_end (p x) + 1" using a by auto
  ultimately obtain p' fl' where c:
    "chain_entry_to_free_list ?q (free_list s) x (Some (bsize (p x))) = Some (p', fl')"
    "used_ok s a sz \<lparr>free_size = free_size s - sz, first_entry = first_entry s,
       free_list = fl', memory_entry_pool = p'\<rparr>"
    using used_shrink [OF rep p order_refl _ _ _ _ _ sz(1), of a] by blast
  have e: "get_end_address a sz = Some (me_end (p x))" "usub a 1 = Some (a - 1)" "me_start (p x) \<noteq> a"
    "me_start (p x) < a - 1"
    using a G(5) by (simp_all add: get_end_address_def uadd_def usub_def)
  have "define_used_in_entry s a sz x = Some (\<lparr>free_size = free_size s - sz,
        first_entry = first_entry s, free_list = fl', memory_entry_pool = p'\<rparr>, Ok ())"
  proof (cases "me_end (p x) = a")
    case True
    have g: "get_size (?q x) = Some (a - 1 - me_start (p x) + 1)"
      using e(4) G(5) True by (simp add: get_size_def usub_def uadd_def)
    have b: "uadd (a - 1 - me_start (p x) + 1) 1 = Some (bsize (p x))"
      unfolding uadd_Some_iff bsize_def using e(4) G(5) True by linarith
    show ?thesis
      using True a(2) e c(1) g b sz(2)
      by (simp add: define_used_in_entry_def Let_def p [symmetric] set_range_def used_finish_def usub_def)
  next
    case False
    with e c(1) sz(2) show ?thesis
      by (simp add: define_used_in_entry_def Let_def p [symmetric] get_size_ok [OF rok] set_range_def
          used_finish_def usub_def)
  qed
  with c(2) show ?thesis by blast
qed

lemma used_in_entry_middle:
  assumes rep: "ma_rep s (ys @ x # zs) L" and p: "p = memory_entry_pool s"
    and a: "me_start (p x) + 1 < a" "a + sz < me_end (p x)" "0 < sz"
  shows "(set (ys @ x # zs) = {..<POOL_SIZE} \<and> define_used_in_entry s a sz x = Some (s, Err NoEntry)) \<or>
    (\<exists>s'. define_used_in_entry s a sz x = Some (s', Ok ()) \<and> used_ok s a sz s')"
proof -
  note D = ma_repD [OF rep, folded p]
  note G = addr_ok_gaps [OF D(1)]
  have rok: "range_ok (p x)" using G by (simp add: range_ok_def)
  have sz: "sz \<le> free_size s" using a G(4) D(4) by (auto simp: bsize_def)
  have e: "get_end_address a sz = Some (a + sz - 1)" "uadd a sz = Some (a + sz)" "a + sz - 1 \<noteq> me_end (p x)"
    "usub a 1 = Some (a - 1)" "me_start (p x) \<noteq> a" "me_end (p x) \<noteq> a" "me_start (p x) < a - 1"
    using a G(5) by (simp_all add: get_end_address_def uadd_def usub_def)
  note du = define_used_in_entry_def Let_def p [symmetric] e
  from create_memory_entry_cases [OF D(1)] show ?thesis
  proof (elim disjE exE conjE)
    assume "create_memory_entry p = Err NoEntry" "set (ys @ x # zs) = {..<POOL_SIZE}"
    then show ?thesis using e by (simp add: du)
  next
    fix n assume n: "n < POOL_SIZE" "n \<notin> set (ys @ x # zs)"
      and cr: "create_memory_entry p = Ok (p(n := memory_entry_new\<lparr>me_id := n, me_enabled := True\<rparr>), n)"
    from used_split [OF rep p n a] obtain p1 fl1 p2 fl2 where c:
      "chain_entry_to_free_list (split_pool p x n a sz) (free_list s) x (Some (bsize (p x))) = Some (p1, fl1)"
      "chain_entry_to_free_list p1 fl1 n None = Some (p2, fl2)"
      "used_ok s a sz \<lparr>free_size = free_size s - sz, first_entry = first_entry s, free_list = fl2,
         memory_entry_pool = p2\<rparr>" by blast
    have nx: "n \<noteq> x" "x \<noteq> n" using n by auto
    have "define_used_in_entry s a sz x = do {
        (p, fl) \<leftarrow> chain_entry_to_free_list (split_pool p x n a sz) (free_list s) x (Some (bsize (p x)));
        (p, fl) \<leftarrow> chain_entry_to_free_list p fl n None;
        used_finish (s\<lparr>memory_entry_pool := p, free_list := fl\<rparr>) sz }"
    proof -
      define p1 where "p1 = p(n := memory_entry_new\<lparr>me_id := n, me_enabled := True\<rparr>)"
      define p2 where "p2 = p1(n := (p1 n)\<lparr>me_start := a + sz, me_end := me_end (p1 x)\<rparr>)"
      define p3 where "p3 = p2(x := (p2 x)\<lparr>me_start := me_start (p2 x), me_end := a - 1\<rparr>)"
      have x: "p1 x = p x" "p2 x = p x" using nx by (simp_all add: p1_def p2_def)
      have r: "set_range p1 n (a + sz) (me_end (p1 x)) = Some p2"
        "set_range p2 x (me_start (p2 x)) (a - 1) = Some p3" "get_size (p1 x) = Some (bsize (p x))"
        using a(2) e(7) nx by (simp_all add: set_range_def p2_def p3_def x rok get_size_ok)
      have sp: "split_pool p x n a sz =
          chain_after_me (case get_next_entry p3 x of Some y \<Rightarrow> chain_after_me p3 n y | None \<Rightarrow> p3) x n"
        by (simp only: split_pool_def p1_def p2_def p3_def Let_def)
      show ?thesis
        using e r cr [folded p1_def] by (simp add: du sp)
    qed
    then have "define_used_in_entry s a sz x = Some (\<lparr>free_size = free_size s - sz,
        first_entry = first_entry s, free_list = fl2, memory_entry_pool = p2\<rparr>, Ok ())"
      using c(1,2) by (simp add: used_finish_eq [OF sz])
    with c(3) show ?thesis by blast
  qed
qed

lemma define_used_in_entry_spec:
  assumes rep: "ma_rep s (ys @ x # zs) L"
    and r: "request_in (memory_entry_pool s x) a sz" "no_byte_left (memory_entry_pool s x) a sz"
  shows "(\<exists>s'. define_used_in_entry s a sz x = Some (s', Ok ()) \<and> used_ok s a sz s') \<or>
    (define_used_in_entry s a sz x = Some (s, Err NoEntry) \<and>
      (free_set s = {a..<a + sz} \<or> card (set (ys @ x # zs)) = POOL_SIZE))"
proof -
  let ?p = "memory_entry_pool s"
  consider (whole) "me_start (?p x) = a" "a + sz = me_end (?p x) + 1"
    | (front) "me_start (?p x) = a" "a + sz < me_end (?p x)"
    | (rear) "me_start (?p x) + 1 < a" "a + sz = me_end (?p x) + 1"
    | (middle) "me_start (?p x) + 1 < a" "a + sz < me_end (?p x)"
  proof -
    have "me_start (?p x) = a \<or> me_start (?p x) + 1 < a"
      using r unfolding request_in_def no_byte_left_def by linarith
    moreover have "a + sz = me_end (?p x) + 1 \<or> a + sz < me_end (?p x)"
      using r unfolding request_in_def no_byte_left_def by linarith
    ultimately show thesis using that by blast
  qed
  moreover have pos: "0 < sz" using r(1) by (simp add: request_in_def)
  ultimately show ?thesis
  proof cases
    case whole
    have "free_set s = {a..<a + sz}" if "ys @ zs = []"
      unfolding ma_repD(9) [OF rep] using that whole by auto
    with used_in_entry_whole [OF rep refl whole pos] show ?thesis by blast
  next
    case front
    from used_in_entry_front [OF rep refl front pos] show ?thesis by blast
  next
    case rear
    from used_in_entry_back [OF rep refl rear pos] show ?thesis by blast
  next
    case middle
    have "card {..<POOL_SIZE} = POOL_SIZE" by simp
    with used_in_entry_middle [OF rep refl middle pos] show ?thesis by metis
  qed
qed

text \<open>Conversely, the code returns \<open>Ok\<close> only for such requests, and an error changes nothing.\<close>

lemma define_used_in_entry_Ok:
  assumes ok: "define_used_in_entry s a sz x = Some (s', Ok u)" and sz: "0 < sz"
    and rep: "ma_rep s (ys @ x # zs) L"
    and a: "me_start (memory_entry_pool s x) \<le> a" "a \<le> me_end (memory_entry_pool s x)"
  shows "request_in (memory_entry_pool s x) a sz \<and> no_byte_left (memory_entry_pool s x) a sz"
proof -
  let ?p = "memory_entry_pool s"
  note d = define_used_in_entry_def Let_def get_end_address_def set_range_def request_in_def no_byte_left_def
  consider "me_start (?p x) = a" | "me_start (?p x) < a" "me_end (?p x) = a"
    | "me_start (?p x) < a" "a < me_end (?p x)" using a by force
  then show ?thesis
  proof cases
    case 1
    with ok sz show ?thesis unfolding d
      by (auto simp: checked_simps bind_eq_Some_conv split: if_splits)
  next
    case 2
    with ok sz show ?thesis unfolding d
      by (auto simp: checked_simps bind_eq_Some_conv split: if_splits)
  next
    case 3
    from create_memory_entry_cases [OF ma_repD(1) [OF rep]] show ?thesis
    proof (elim disjE exE conjE)
      assume "create_memory_entry ?p = Err NoEntry"
      with 3 ok sz show ?thesis unfolding d
        by (auto simp: checked_simps bind_eq_Some_conv split: if_splits)
    next
      fix n assume "n \<notin> set (ys @ x # zs)"
        and cr: "create_memory_entry ?p = Ok (?p(n := memory_entry_new\<lparr>me_id := n, me_enabled := True\<rparr>), n)"
      then have "n \<noteq> x" "x \<noteq> n" by auto
      with 3 ok sz show ?thesis unfolding d cr
        by (auto simp: checked_simps bind_eq_Some_conv split: if_splits)
    qed
  qed
qed

lemma define_used_in_entry_Err:
  "define_used_in_entry s a sz x = Some (s', Err e) \<Longrightarrow> s' = s"
  by (auto simp: define_used_in_entry_def Let_def used_finish_def bind_eq_Some_conv
      create_memory_entry.simps split: if_splits result.splits option.splits)

section \<open>A request at an address\<close>

definition contains :: "memory_entry_pool \<Rightarrow> usize \<Rightarrow> nat \<Rightarrow> bool" where
  "contains p a e \<longleftrightarrow> me_start (p e) \<le> a \<and> a \<le> me_end (p e)"

lemma search_containing_loop_spec:
  "addr_ok p f (ys @ x # zs) \<Longrightarrow> search_containing_loop p a x = Some (find (contains p a) (x # zs))"
proof (induction zs arbitrary: ys x)
  case Nil
  from get_next_entry_ok(1) [OF Nil] addr_ok_gaps(4) [OF Nil] show ?case
    by (subst search_containing_loop.simps) (auto simp: contains_def)
next
  case (Cons z zs)
  note G = addr_ok_gaps [OF Cons.prems]
  from Cons.prems have "addr_ok p f ((ys @ [x]) @ z # zs)" by simp
  note IH = Cons.IH [OF this]
  have "find (contains p a) (z # zs) = None" if "a \<le> me_end (p x)"
    using G(2) that by (force simp: find_None_iff contains_def simp del: find.simps)
  with IH get_next_entry_ok(1) [OF Cons.prems] G(4) show ?case
    by (subst search_containing_loop.simps)
      (auto simp: find.simps(2) [of _ x] contains_def [of p a x] simp del: find.simps(2))
qed

lemma search_containing_spec:
  assumes "addr_ok p f xs"
  shows "search_entry_containing_address_mut p f a = Some (find (contains p a) xs)"
proof (cases xs)
  case Nil
  with assms show ?thesis by (simp add: addr_ok_def search_entry_containing_address_mut_def)
next
  case (Cons x zs)
  with assms have "f = Some x" "x < POOL_SIZE" by (auto simp: addr_ok_def ids_ok_def)
  with search_containing_loop_spec [of p f "[]" x zs a] assms Cons show ?thesis
    by (simp add: search_entry_containing_address_mut_def del: find.simps)
qed

lemma define_used_memory_target:
  assumes rep: "ma_rep s (ys @ x # zs) L" and sz: "0 < sz" "sz \<le> bsize (memory_entry_pool s x)"
  shows "define_used_memory s a sz 0 (Some x) = define_used_in_entry s a sz x"
proof -
  have "bsize (memory_entry_pool s x) \<le> free_size s" using ma_repD(4) [OF rep] by simp
  with sz show ?thesis by (simp add: define_used_memory.simps)
qed

lemma used_in_entry_outcome:
  assumes rep: "ma_rep s (ys @ x # zs) L" and x: "contains (memory_entry_pool s) a x" and sz: "0 < sz"
    and r: "define_used_in_entry s a sz x = Some (s', r)"
  shows "(\<exists>u. r = Ok u \<and> used_ok s a sz s') \<or> ((\<exists>e. r = Err e) \<and> s' = s)"
proof (cases r)
  case (Ok u)
  with r have ok: "define_used_in_entry s a sz x = Some (s', Ok u)" by simp
  from define_used_in_entry_Ok [OF ok sz rep] x have "request_in (memory_entry_pool s x) a sz"
    "no_byte_left (memory_entry_pool s x) a sz" by (auto simp: contains_def)
  from define_used_in_entry_spec [OF rep this] ok Ok show ?thesis by auto
next
  case (Err e)
  with r define_used_in_entry_Err show ?thesis by metis
qed

lemma find_split: "find P xs = Some x \<Longrightarrow> P x \<and> (\<exists>ys zs. xs = ys @ x # zs)"
  by (auto simp: find_Some_iff dest: split_list nth_mem intro!: split_list)

lemma define_used_unaligned:
  assumes inv: "ma_inv s" and r: "define_used_memory s a sz 0 None = Some (s', r)"
  shows "(\<exists>u. r = Ok u \<and> 0 < sz \<and> used_ok s a sz s') \<or> ((\<exists>e. r = Err e) \<and> s' = s)"
proof -
  from inv obtain xs L where rep: "ma_rep s xs L" by (auto simp: ma_inv_def)
  note S = search_containing_spec [OF ma_repD(1) [OF rep], of a]
  show ?thesis
  proof (cases "0 < sz \<and> sz \<le> free_size s")
    case False
    with r show ?thesis by (auto simp: define_used_memory.simps not_le split: if_splits)
  next
    case True
    show ?thesis
    proof (cases "find (contains (memory_entry_pool s) a) xs")
      case None
      with r True show ?thesis by (auto simp: define_used_memory.simps S)
    next
      case (Some x)
      with find_split obtain ys zs where x: "contains (memory_entry_pool s) a x" "xs = ys @ x # zs" by metis
      from r True Some have "define_used_in_entry s a sz x = Some (s', r)"
        by (simp add: define_used_memory.simps [of s a sz 0] S)
      with used_in_entry_outcome rep x True show ?thesis by blast
    qed
  qed
qed

section \<open>Aligned requests\<close>

lemma align_address_and_size_spec:
  assumes r: "align_address_and_size a sz k = Some (a', sz')" and "a < usize_range" "0 < sz"
  shows "2 ^ k dvd a' \<and> 2 ^ k dvd sz' \<and> {a..<a + sz} \<subseteq> {a'..<a' + sz'} \<and> a < a' + 2 ^ k \<and>
    a' + sz' < a + sz + 2 ^ k \<and> 0 < sz'"
proof -
  from r have k: "k < 64" and a': "a' = uand_not a (2 ^ k)"
    and sz': "sz' = uand_not (sz + (a - a') - 1) (2 ^ k) + 2 ^ k" and lt: "sz + (a - a') < usize_range"
    by (auto simp: align_address_and_size_def bind_eq_Some_conv checked_simps Let_def)
  have d: "a' = a div 2 ^ k * 2 ^ k" using uand_not_eq [OF _ k, of a] assms a' by (simp add: usize_range_def)
  let ?m = "sz + (a - a') - 1"
  have "?m < 2 ^ 64" using lt unfolding usize_range_def by linarith
  from uand_not_eq [OF this k] have e: "sz' = ?m div 2 ^ k * 2 ^ k + 2 ^ k" using sz' by simp
  have m: "?m div 2 ^ k * 2 ^ k + ?m mod 2 ^ k = ?m" "?m mod 2 ^ k < 2 ^ k" by (rule div_mult_mod_eq, simp)
  have am: "a' + a mod 2 ^ k = a" "a mod 2 ^ k < 2 ^ k" unfolding d by (rule div_mult_mod_eq, simp)
  have "a' \<le> a" "a + sz \<le> a' + sz'" "a' + sz' < a + sz + 2 ^ k" "a < a' + 2 ^ k" "0 < sz'"
    using m am e assms(3) by linarith+
  moreover have "2 ^ k dvd a'" "2 ^ k dvd sz'" by (simp_all add: d e)
  ultimately show ?thesis by auto
qed

lemma reserve_memory_outcome:
  assumes inv: "ma_inv s" and a: "a < usize_range" and r: "reserve_memory s a sz k = Some (s', r)"
  shows "(\<exists>u a' sz'. r = Ok u \<and> 2 ^ k dvd a' \<and> 2 ^ k dvd sz' \<and> {a..<a + sz} \<subseteq> {a'..<a' + sz'} \<and>
       a < a' + 2 ^ k \<and> a' + sz' < a + sz + 2 ^ k \<and> used_ok s a' sz' s') \<or>
     ((\<exists>e. r = Err e) \<and> s' = s)"
proof (cases "k = 0 \<or> sz = 0 \<or> free_size s < sz")
  case True
  then show ?thesis
  proof (cases "k = 0")
    case True
    with r have "define_used_memory s a sz 0 None = Some (s', r)" by (simp add: reserve_memory_def)
    from define_used_unaligned [OF inv this] True show ?thesis by fastforce
  next
    case False
    with True r show ?thesis
      by (auto simp: reserve_memory_def define_used_memory.simps split: if_splits)
  qed
next
  case False
  then obtain a' sz' where al: "align_address_and_size a sz k = Some (a', sz')"
    and r': "define_used_memory s a' sz' 0 None = Some (s', r)"
    using r by (auto simp: reserve_memory_def define_used_memory.simps [of s a sz k] bind_eq_Some_conv)
  from align_address_and_size_spec [OF al a] False have "2 ^ k dvd a' \<and> 2 ^ k dvd sz' \<and>
      {a..<a + sz} \<subseteq> {a'..<a' + sz'} \<and> a < a' + 2 ^ k \<and> a' + sz' < a + sz + 2 ^ k" by blast
  with define_used_unaligned [OF inv r'] show ?thesis by blast
qed

text \<open>\<open>reserve_memory\<close> of a range inside one free block does not fail while an entry is left.\<close>

lemma reserve_memory_succeeds:
  assumes rep: "ma_rep s xs L" and x: "x \<in> set xs"
    and r: "request_in (memory_entry_pool s x) a sz" "no_byte_left (memory_entry_pool s x) a sz"
    and room: "card (set xs) < POOL_SIZE" "free_set s \<noteq> {a..<a + sz}"
  shows "\<exists>s'. reserve_memory s a sz 0 = Some (s', Ok ()) \<and> used_ok s a sz s'"
proof -
  note D = ma_repD [OF rep]
  let ?p = "memory_entry_pool s"
  from x obtain ys zs where xs: "xs = ys @ x # zs" by (meson split_list)
  note G = addr_ok_gaps [OF D(1) [unfolded xs]]
  have c: "contains ?p a x" using r(1) by (auto simp: contains_def request_in_def)
  have "find (contains ?p a) ys = None"
    using G(1) c by (force simp: find_None_iff contains_def)
  with c have "find (contains ?p a) xs = Some x" unfolding xs by (induction ys) (auto split: if_splits)
  with search_containing_spec [OF D(1), of a]
  have s: "search_entry_containing_address_mut ?p (first_entry s) a = Some (Some x)" by simp
  have "sz \<le> bsize (?p x)" using r(1) G(4) by (auto simp: request_in_def bsize_def)
  also have "bsize (?p x) \<le> free_size s" using D(4) xs by simp
  finally have "reserve_memory s a sz 0 = define_used_in_entry s a sz x"
    using r(1) s by (simp add: reserve_memory_def define_used_memory.simps request_in_def)
  with define_used_in_entry_spec [OF rep [unfolded xs] r] room xs show ?thesis by auto
qed

section \<open>The search of \<open>allocate\<close>\<close>

definition align_up :: "usize \<Rightarrow> usize \<Rightarrow> usize" where
  "align_up a k = (a + 2 ^ k - 1) div 2 ^ k * 2 ^ k"

text \<open>The block can hold \<open>sz\<close> bytes at its first aligned address.\<close>

definition suitable :: "usize \<Rightarrow> usize \<Rightarrow> memory_entry \<Rightarrow> bool" where
  "suitable sz k e \<longleftrightarrow> align_up (me_start e) k + sz \<le> me_end e + 1"

lemma align_up_bounds: "a \<le> align_up a k" "align_up a k < a + 2 ^ k" "2 ^ k dvd align_up a k"
proof -
  let ?b = "a + 2 ^ k - 1"
  have "?b div 2 ^ k * 2 ^ k + ?b mod 2 ^ k = ?b" "?b mod 2 ^ k < 2 ^ k" by (rule div_mult_mod_eq, simp)
  moreover have "(0::nat) < 2 ^ k" by simp
  ultimately show "a \<le> align_up a k" "align_up a k < a + 2 ^ k" unfolding align_up_def by linarith+
qed (simp add: align_up_def)

lemma align_up_0 [simp]: "align_up a 0 = a" "align_up 0 k = 0"
  by (simp_all add: align_up_def)

lemma align_up_step:
  assumes "0 < a" shows "(a - 1) div 2 ^ k * 2 ^ k + 2 ^ k = align_up a k"
proof -
  have "a + 2 ^ k - 1 = (a - 1) + 2 ^ k" using assms by simp
  moreover have "((a - 1) + 2 ^ k) div 2 ^ k = (a - 1) div 2 ^ k + 1" by (rule div_add_self2) simp
  ultimately show ?thesis by (simp add: align_up_def)
qed

lemma align_available_eq:
  assumes "k < 64" "a < usize_range"
  shows "align_address_and_available_size a g k =
    (if align_up a k < usize_range then Some (align_up a k, g - (align_up a k - a)) else None)"
proof (cases "a = 0")
  case True
  then show ?thesis by (simp add: align_address_and_available_size_def usize_range_def)
next
  case False
  have "uand_not (a - 1) (2 ^ k) = (a - 1) div 2 ^ k * 2 ^ k"
    using assms by (intro uand_not_eq) (auto simp: usize_range_def)
  with align_up_step [of a k] False have e: "uand_not (a - 1) (2 ^ k) + 2 ^ k = align_up a k" by simp
  show ?thesis
    using False assms(1) align_up_bounds(1) [of a k]
    by (auto simp: align_address_and_available_size_def ushl1_def usub_def uadd_def e [simplified] Let_def)
qed

lemma fit_address_eq:
  assumes e: "range_ok e" and k: "k < 64" and sz: "0 < sz" "sz \<le> bsize e"
  shows "fit_address e (bsize e) sz k =
    (if align_up (me_start e) k < usize_range
     then Some (if suitable sz k e then Some (align_up (me_start e) k) else None) else None)"
proof (cases "k = 0")
  case True
  with e sz show ?thesis by (auto simp: fit_address_def suitable_def bsize_def range_ok_def)
next
  case False
  let ?u = "align_up (me_start e) k"
  have "bsize e - (?u - me_start e) < sz \<longleftrightarrow> \<not> suitable sz k e"
    using e sz align_up_bounds(1) [of "me_start e" k] unfolding suitable_def bsize_def range_ok_def by linarith
  with False e align_available_eq [OF k, of "me_start e" "bsize e"] show ?thesis
    by (simp add: fit_address_def range_ok_def)
qed

lemma fit_address_large_order:
  "\<lbrakk>64 \<le> k; fit_address e g sz k = Some (Some a)\<rbrakk> \<Longrightarrow> a = 0 \<and> me_start e = 0 \<and> sz \<le> g"
  by (auto simp: fit_address_def align_address_and_available_size_def ushl1_def bind_eq_Some_conv
      split: if_splits)

lemma fit_address_Some:
  assumes e: "range_ok e" and sz: "0 < sz" "sz \<le> bsize e"
    and f: "fit_address e (bsize e) sz k = Some (Some a)"
  shows "2 ^ k dvd a \<and> me_start e \<le> a \<and> a + sz \<le> me_end e + 1"
proof (cases "k < 64")
  case True
  with fit_address_eq [OF e True sz] f align_up_bounds(1,2) [of "me_start e" k] align_up_bounds(3) [of k "me_start e"] show ?thesis
    by (auto simp: suitable_def split: if_splits)
next
  case False
  with fit_address_large_order [OF _ f] e sz(2) show ?thesis by (auto simp: bsize_def range_ok_def)
qed

text \<open>What \<open>allocate\<close> may answer.\<close>

definition alloc_outcome ::
    "memory_allocator \<Rightarrow> usize \<Rightarrow> usize \<Rightarrow> memory_allocator \<times> (usize, memory_error) result \<Rightarrow> bool" where
  "alloc_outcome s sz k v = (case v of
     (s', Ok a) \<Rightarrow> 2 ^ k dvd a \<and> used_ok s a sz s'
   | (s', Err e) \<Rightarrow> s' = s)"

lemma get_list_next_ok:
  assumes F: "free_lists p fl L" and ids: "ids_ok p (set (L k))" and L: "L k = us @ e # vs"
  shows "get_list_next p e = hd_opt vs None"
proof -
  have "lnx p e = hd_opt vs None"
    using linked_next(1) free_listsD(2) [OF F, of k] unfolding L by metis
  with ids L show ?thesis
    by (cases vs) (auto simp: get_list_next_def lnx_def ids_ok_def)
qed

lemma free_list_ids:
  assumes rep: "ma_rep s xs L" shows "ids_ok (memory_entry_pool s) (set (L k))" "set (L k) \<subseteq> set xs"
proof -
  show "set (L k) \<subseteq> set xs" by (rule classes_sub [OF ma_repD(3) [OF rep]])
  with ma_repD(7) [OF rep] show "ids_ok (memory_entry_pool s) (set (L k))" by (auto simp: ids_ok_def)
qed

lemma define_used_at:
  assumes rep: "ma_rep s xs L" and e: "e \<in> set xs" and a: "me_start (memory_entry_pool s e) \<le> a"
    "a + sz \<le> me_end (memory_entry_pool s e) + 1" and sz: "0 < sz"
    and r: "define_used_memory s a sz 0 (Some e) = Some (s', r)"
  shows "(\<exists>u. r = Ok u \<and> used_ok s a sz s') \<or> ((\<exists>e. r = Err e) \<and> s' = s)"
proof -
  from e obtain ys zs where xs: "xs = ys @ e # zs" by (meson split_list)
  note rep' = rep [unfolded xs]
  have "sz \<le> bsize (memory_entry_pool s e)" using a by (simp add: bsize_def)
  from define_used_memory_target [OF rep' sz this] r
  have "define_used_in_entry s a sz e = Some (s', r)" by simp
  moreover have "contains (memory_entry_pool s) a e" using a sz by (simp add: contains_def)
  ultimately show ?thesis using used_in_entry_outcome [OF rep' _ sz] by blast
qed

lemma allocate_while_step:
  assumes rep: "ma_rep s xs L" and sz: "0 < sz" and e: "e \<in> set xs"
    and r: "allocate_while s sz k e = Some (Some v)"
  shows "alloc_outcome s sz k v \<or>
    (\<exists>n. get_list_next (memory_entry_pool s) e = Some n \<and> allocate_while s sz k n = Some (Some v))"
proof -
  let ?p = "memory_entry_pool s"
  have ok: "range_ok (?p e)" using ma_repD(7) [OF rep] e by (simp add: ids_ok_def)
  obtain ad where ad: "(if bsize (?p e) \<ge> sz then fit_address (?p e) (bsize (?p e)) sz k else ret None) = Some ad"
    and r': "(case ad of
       None \<Rightarrow> (case get_list_next ?p e of None \<Rightarrow> ret None | Some n \<Rightarrow> allocate_while s sz k n)
     | Some a \<Rightarrow> do {
        (s', r) \<leftarrow> define_used_memory s a sz 0 (Some e);
        (case r of Err er \<Rightarrow> ret (Some (s', Err er)) | Ok _ \<Rightarrow> ret (Some (s', Ok a))) }) = Some (Some v)"
    using r by (subst (asm) allocate_while.simps) (auto simp: get_size_ok [OF ok] bind_eq_Some_conv)
  show ?thesis
  proof (cases ad)
    case None
    with r' show ?thesis by (auto split: option.splits)
  next
    case (Some a)
    with ad have g: "sz \<le> bsize (?p e)" "fit_address (?p e) (bsize (?p e)) sz k = Some (Some a)"
      by (auto split: if_splits)
    note f = fit_address_Some [OF ok sz g]
    from r' Some obtain s' r where d: "define_used_memory s a sz 0 (Some e) = Some (s', r)"
      by (cases "define_used_memory s a sz 0 (Some e)") auto
    with r' Some have v: "v = (s', case r of Err er \<Rightarrow> Err er | Ok _ \<Rightarrow> Ok a)" by (cases r) auto
    from define_used_at [OF rep e _ _ sz d] f v show ?thesis by (auto simp: alloc_outcome_def)
  qed
qed

lemma allocate_while_outcome:
  assumes rep: "ma_rep s xs L" and sz: "0 < sz" and L: "L i = us @ e # vs"
    and r: "allocate_while s sz k e = Some (Some v)"
  shows "alloc_outcome s sz k v"
  using L r
proof (induction vs arbitrary: us e)
  case Nil
  have "e \<in> set xs" using free_list_ids(2) [OF rep, of i] Nil(1) by auto
  from allocate_while_step [OF rep sz this Nil(2)]
    get_list_next_ok [OF ma_repD(2) [OF rep] free_list_ids(1) [OF rep] Nil(1)]
  show ?case by simp
next
  case (Cons w vs)
  have "e \<in> set xs" using free_list_ids(2) [OF rep, of i] Cons.prems(1) by auto
  from allocate_while_step [OF rep sz this Cons.prems(2)]
    get_list_next_ok [OF ma_repD(2) [OF rep] free_list_ids(1) [OF rep] Cons.prems(1)]
  have "alloc_outcome s sz k v \<or> allocate_while s sz k w = Some (Some v)" by simp
  moreover have "L i = (us @ [e]) @ w # vs" using Cons.prems(1) by simp
  ultimately show ?case using Cons.IH by blast
qed

lemma free_list_head:
  assumes rep: "ma_rep s xs L"
  shows "free_list s i = hd_opt (L i) None"
    "free_list s i = Some e \<Longrightarrow> get_memory_entry e = Ok e \<and> (\<exists>vs. L i = e # vs)"
proof -
  show h: "free_list s i = hd_opt (L i) None" by (rule free_listsD(1) [OF ma_repD(2) [OF rep]])
  assume "free_list s i = Some e"
  with h obtain vs where "L i = e # vs" by (metis hd_opt_SomeE)
  with free_list_ids(1) [OF rep, of i] show "get_memory_entry e = Ok e \<and> (\<exists>vs. L i = e # vs)"
    by (auto simp: ids_ok_def)
qed

lemma allocate_for_outcome:
  assumes rep: "ma_rep s xs L" and sz: "0 < sz" and r: "allocate_for s sz k is = Some v"
  shows "alloc_outcome s sz k v"
  using r
proof (induction "is")
  case Nil
  then show ?case by (auto simp: alloc_outcome_def)
next
  case (Cons i "is")
  show ?case
  proof (cases "free_list s i")
    case None
    with Cons show ?thesis by simp
  next
    case (Some e)
    with free_list_head(2) [OF rep] obtain vs where e: "get_memory_entry e = Ok e" "L i = [] @ e # vs" by auto
    with Cons Some show ?thesis
      using allocate_while_outcome [OF rep sz e(2)] by (auto simp: bind_eq_Some_conv split: option.splits)
  qed
qed

lemma allocate_outcome:
  assumes "ma_inv s" "allocate s sz k = Some v"
  shows "alloc_outcome s sz k v"
proof -
  from assms(1) obtain xs L where "ma_rep s xs L" by (auto simp: ma_inv_def)
  from allocate_for_outcome [OF this] assms(2) show ?thesis
    by (auto simp: allocate_def alloc_outcome_def split: if_splits)
qed

section \<open>Completeness of the search\<close>

definition alloc_at :: "memory_allocator \<Rightarrow> usize \<Rightarrow> usize \<Rightarrow> nat \<Rightarrow> usize ma_result" where
  "alloc_at s sz k e =
     (let a = align_up (me_start (memory_entry_pool s e)) k in
      map_option (\<lambda>(s', r). (s', case r of Ok _ \<Rightarrow> Ok a | Err er \<Rightarrow> Err er)) (define_used_in_entry s a sz e))"

text \<open>No block starts so close to the end of the address space that aligning it overflows.\<close>

definition below_top :: "memory_allocator \<Rightarrow> usize \<Rightarrow> bool" where
  "below_top s k \<longleftrightarrow> k < 64 \<and> (\<forall>a\<in>free_set s. a + 2 ^ k \<le> usize_range)"

lemma below_topD:
  assumes rep: "ma_rep s xs L" and e: "e \<in> set xs" and top: "below_top s k"
  shows "align_up (me_start (memory_entry_pool s e)) k < usize_range" "k < 64"
proof -
  have "range_ok (memory_entry_pool s e)" using ma_repD(7) [OF rep] e by (simp add: ids_ok_def)
  then have "me_start (memory_entry_pool s e) \<in> free_set s"
    using e by (auto simp: ma_repD(9) [OF rep] covered_def range_ok_def)
  with top align_up_bounds(2) [of "me_start (memory_entry_pool s e)" k]
  show "align_up (me_start (memory_entry_pool s e)) k < usize_range" "k < 64"
    by (force simp: below_top_def)+
qed

lemma allocate_while_unfold:
  assumes rep: "ma_rep s xs L" and sz: "0 < sz" and e: "e \<in> set xs" and top: "below_top s k"
  shows "allocate_while s sz k e =
    (if suitable sz k (memory_entry_pool s e) then map_option Some (alloc_at s sz k e)
     else (case get_list_next (memory_entry_pool s) e of
             None \<Rightarrow> Some None | Some n \<Rightarrow> allocate_while s sz k n))"
proof -
  let ?p = "memory_entry_pool s" and ?u = "align_up (me_start (memory_entry_pool s e)) k"
  have ok: "range_ok (?p e)" using ma_repD(7) [OF rep] e by (simp add: ids_ok_def)
  note B = below_topD [OF rep e top]
  from e obtain ys zs where xs: "xs = ys @ e # zs" by (meson split_list)
  note rep' = rep [unfolded xs]
  have s: "sz \<le> bsize (?p e)" if "suitable sz k (?p e)"
    using that align_up_bounds(1) [of "me_start (?p e)" k] by (simp add: suitable_def bsize_def)
  note t = define_used_memory_target [OF rep' sz]
  show ?thesis
  proof (cases "sz \<le> bsize (?p e)")
    case False
    with s show ?thesis by (subst allocate_while.simps) (auto simp: get_size_ok [OF ok])
  next
    case True
    note f = fit_address_eq [OF ok B(2) sz True]
    show ?thesis
    proof (cases "suitable sz k (?p e)")
      case False
      with True B(1) show ?thesis by (subst allocate_while.simps) (simp add: get_size_ok [OF ok] f)
    next
      case suit: True
      then show ?thesis using True B(1)
        by (subst allocate_while.simps)
          (cases "define_used_in_entry s ?u sz e";
           auto simp: get_size_ok [OF ok] f t [OF True] alloc_at_def Let_def split: result.splits)
    qed
  qed
qed

lemma allocate_while_eq:
  assumes rep: "ma_rep s xs L" and sz: "0 < sz" and top: "below_top s k"
  shows "L i = us @ e # vs \<Longrightarrow> allocate_while s sz k e =
    (case find (\<lambda>y. suitable sz k (memory_entry_pool s y)) (e # vs) of
       None \<Rightarrow> Some None | Some y \<Rightarrow> map_option Some (alloc_at s sz k y))"
proof (induction vs arbitrary: us e)
  case Nil
  have "e \<in> set xs" using free_list_ids(2) [OF rep, of i] Nil by auto
  from allocate_while_unfold [OF rep sz this top]
    get_list_next_ok [OF ma_repD(2) [OF rep] free_list_ids(1) [OF rep] Nil]
  show ?case by simp
next
  case (Cons w vs)
  have "e \<in> set xs" using free_list_ids(2) [OF rep, of i] Cons.prems(1) by auto
  moreover have "L i = (us @ [e]) @ w # vs" using Cons.prems by simp
  note IH = Cons.IH [OF this]
  ultimately show ?case
    using allocate_while_unfold [OF rep sz _ top, of e]
      get_list_next_ok [OF ma_repD(2) [OF rep] free_list_ids(1) [OF rep] Cons.prems]
    by (simp add: find.simps(2) [of _ e] del: find.simps(2))
qed

lemma allocate_for_eq:
  assumes rep: "ma_rep s xs L" and sz: "0 < sz" and top: "below_top s k"
  shows "allocate_for s sz k is =
    (case find (\<lambda>y. suitable sz k (memory_entry_pool s y)) (concat (map L is)) of
       None \<Rightarrow> Some (s, Err NoMemory) | Some y \<Rightarrow> alloc_at s sz k y)"
proof (induction "is")
  case (Cons i "is")
  have fa: "find P (xs @ ys) = (case find P xs of None \<Rightarrow> find P ys | Some y \<Rightarrow> Some y)" for P and xs ys :: "nat list"
    by (induction xs) auto
  show ?case
  proof (cases "L i")
    case Nil
    with Cons free_list_head(1) [OF rep, of i] show ?thesis by simp
  next
    case (Cons e vs)
    then have h: "free_list s i = Some e" "L i = [] @ e # vs" using free_list_head(1) [OF rep, of i] by simp_all
    with free_list_head(2) [OF rep] have g: "get_memory_entry e = Ok e" by blast
    let ?f = "find (\<lambda>y. suitable sz k (memory_entry_pool s y)) (e # vs)"
    show ?thesis
      using Cons.IH allocate_while_eq [OF rep sz top h(2)] h g
      by (cases ?f; cases "alloc_at s sz k (the ?f)") (simp_all add: fa del: find.simps append_Cons)
  qed
qed simp

text \<open>A free range lies in one block, because neighbouring blocks do not touch.\<close>

lemma range_in_block:
  assumes ok: "addr_ok p f xs" and sub: "{a..<a + sz} \<subseteq> covered p xs" and sz: "0 < sz"
  shows "\<exists>x\<in>set xs. request_in (p x) a sz"
proof -
  have "a \<in> covered p xs" using sub sz by auto
  then obtain x where x: "x \<in> set xs" "me_start (p x) \<le> a" "a \<le> me_end (p x)" by (auto simp: covered_def)
  then obtain ys zs where xs: "xs = ys @ x # zs" by (meson split_list)
  note G = addr_ok_gaps [OF ok [unfolded xs]]
  have "me_end (p x) + 1 \<notin> covered p xs"
    using G(1,2,4) unfolding xs covered_def by fastforce
  with sub x(3) have "a + sz \<le> me_end (p x) + 1" by (meson atLeastLessThan_iff le_add1 not_le order.trans subsetD)
  with x sz show ?thesis by (auto simp: request_in_def)
qed

lemma suitable_iff:
  assumes "range_ok e" "0 < sz"
  shows "suitable sz k e \<longleftrightarrow> (\<exists>a. 2 ^ k dvd a \<and> request_in e a sz)"
proof
  show "suitable sz k e \<Longrightarrow> \<exists>a. 2 ^ k dvd a \<and> request_in e a sz"
    using align_up_bounds(1) [of "me_start e" k] align_up_bounds(3) [of k "me_start e"] assms(2)
    unfolding suitable_def request_in_def by blast
next
  assume "\<exists>a. 2 ^ k dvd a \<and> request_in e a sz"
  then obtain a where a: "2 ^ k dvd a" "me_start e \<le> a" "a + sz \<le> me_end e + 1" by (auto simp: request_in_def)
  then obtain m where m: "a = 2 ^ k * m" by auto
  have "(me_start e + 2 ^ k - 1) div 2 ^ k \<le> m"
  proof -
    have "(0::nat) < 2 ^ k" by simp
    with a(2) m have "me_start e + 2 ^ k - 1 < 2 ^ k * (m + 1)" unfolding distrib_left by linarith
    then have "(me_start e + 2 ^ k - 1) div 2 ^ k < m + 1" by (simp add: less_mult_imp_div_less mult.commute)
    then show ?thesis by simp
  qed
  then have "align_up (me_start e) k \<le> a" by (simp add: align_up_def m)
  with a(3) show "suitable sz k e" by (simp add: suitable_def)
qed

lemma order_of_suitable:
  assumes rep: "ma_rep s xs L" and x: "x \<in> set xs" "suitable sz k (memory_entry_pool s x)"
  shows "x \<in> set (concat (map L [size_to_page_order sz..<NUM_OF_FREE_LIST]))"
proof -
  let ?b = "bsize (memory_entry_pool s x)"
  have "sz \<le> ?b" using x(2) align_up_bounds(1) [of "me_start (memory_entry_pool s x)" k]
    by (simp add: suitable_def bsize_def)
  from size_to_page_order_mono [OF this] size_to_page_order_less [of ?b]
  have "size_to_page_order ?b \<in> set [size_to_page_order sz..<NUM_OF_FREE_LIST]" by simp
  moreover have "x \<in> set (L (size_to_page_order ?b))"
    using ma_repD(3) [OF rep] x(1) by (simp add: classes_def)
  ultimately show ?thesis by auto
qed

lemma allocate_search:
  assumes rep: "ma_rep s xs L" and sz: "0 < sz" "sz < free_size s" and top: "below_top s k"
  shows "(allocate s sz k = Some (s, Err NoMemory) \<and>
      \<not> (\<exists>a. 2 ^ k dvd a \<and> {a..<a + sz} \<subseteq> free_set s)) \<or>
    (\<exists>x\<in>set xs. suitable sz k (memory_entry_pool s x) \<and> allocate s sz k = alloc_at s sz k x)"
proof -
  let ?P = "\<lambda>y. suitable sz k (memory_entry_pool s y)"
  let ?C = "concat (map L [size_to_page_order sz..<NUM_OF_FREE_LIST])"
  have al: "allocate s sz k = (case find ?P ?C of None \<Rightarrow> Some (s, Err NoMemory) | Some y \<Rightarrow> alloc_at s sz k y)"
    using sz allocate_for_eq [OF rep sz(1) top] by (simp add: allocate_def)
  show ?thesis
  proof (cases "find ?P ?C")
    case None
    then have none: "\<not> ?P x" if "x \<in> set xs" for x
      using order_of_suitable [OF rep that, of sz k] unfolding find_None_iff by blast
    have "\<not> {a..<a + sz} \<subseteq> free_set s" if "2 ^ k dvd a" for a
    proof
      assume "{a..<a + sz} \<subseteq> free_set s"
      from range_in_block [OF ma_repD(1) [OF rep] this [unfolded ma_repD(9) [OF rep]] sz(1)]
      obtain x where x: "x \<in> set xs" "request_in (memory_entry_pool s x) a sz" by auto
      then have "range_ok (memory_entry_pool s x)" using ma_repD(7) [OF rep] by (simp add: ids_ok_def)
      with suitable_iff [OF this sz(1)] x that none show False by blast
    qed
    with None al show ?thesis by auto
  next
    case (Some y)
    with find_split have "?P y" "y \<in> set ?C" by (metis, metis in_set_conv_decomp)
    moreover have "set ?C \<subseteq> set xs" using free_list_ids(2) [OF rep] by auto
    ultimately show ?thesis using al Some by auto
  qed
qed

section \<open>Page-granular use\<close>

definition page_granular :: "memory_allocator \<Rightarrow> bool" where
  "page_granular s \<longleftrightarrow>
     (\<forall>a b. a div 2 ^ PAGE_SHIFT = b div 2 ^ PAGE_SHIFT \<longrightarrow> (a \<in> free_set s \<longleftrightarrow> b \<in> free_set s))"

lemma page_granular_used:
  assumes "page_granular s" "used_ok s a sz s'" "2 ^ PAGE_SHIFT dvd a" "2 ^ PAGE_SHIFT dvd sz"
  shows "page_granular s'"
proof -
  let ?g = "2 ^ PAGE_SHIFT :: nat"
  obtain m n where mn: "a = ?g * m" "sz = ?g * n" using assms(3,4) by (auto elim!: dvdE)
  have "(b \<in> {a..<a + sz}) = (b div ?g \<in> {m..<m + n})" for b
  proof -
    have "a \<le> b \<longleftrightarrow> m \<le> b div ?g" by (simp add: mn less_eq_div_iff_mult_less_eq mult.commute)
    moreover have "b < a + sz \<longleftrightarrow> b div ?g < m + n"
      unfolding mn distrib_left [symmetric] by (simp add: div_less_iff_less_mult mult.commute)
    ultimately show ?thesis by simp
  qed
  moreover have "free_set s' = free_set s - {a..<a + sz}" using assms(2) by (simp add: used_ok_def)
  ultimately show ?thesis using assms(1) unfolding page_granular_def by (metis Diff_iff)
qed

lemma page_blocks:
  assumes rep: "ma_rep s xs L" and x: "x \<in> set xs" and g: "page_granular s"
  shows "2 ^ PAGE_SHIFT dvd me_start (memory_entry_pool s x)"
    "2 ^ PAGE_SHIFT dvd me_end (memory_entry_pool s x) + 1"
proof -
  let ?p = "memory_entry_pool s" and ?g = "2 ^ PAGE_SHIFT :: nat"
  note D = ma_repD [OF rep]
  from x obtain ys zs where xs: "xs = ys @ x # zs" by (meson split_list)
  note G = addr_ok_gaps [OF D(1) [unfolded xs]]
  have inb: "me_start (?p x) \<in> free_set s" "me_end (?p x) \<in> free_set s"
    using G(4) D(9) xs by auto
  have out: "me_end (?p x) + 1 \<notin> free_set s" "0 < me_start (?p x) \<Longrightarrow> me_start (?p x) - 1 \<notin> free_set s"
    using G(1,2,4) unfolding D(9) xs covered_def by fastforce+
  have step: "(n + 1) div ?g = n div ?g" if "\<not> ?g dvd n + 1" for n
    using that by (metis Suc_eq_plus1 div_Suc dvd_eq_mod_eq_0)
  show "?g dvd me_end (?p x) + 1"
    using step inb(2) out(1) g unfolding page_granular_def by metis
  show "?g dvd me_start (?p x)"
  proof (cases "me_start (?p x) = 0")
    case False
    then have "me_start (?p x) - 1 + 1 = me_start (?p x)" by simp
    with step [of "me_start (?p x) - 1"] inb(1) out(2) False g show ?thesis
      unfolding page_granular_def by (metis bot_nat_0.not_eq_extremum)
  qed simp
qed

lemma page_no_byte_left:
  assumes "2 ^ PAGE_SHIFT dvd me_start e" "2 ^ PAGE_SHIFT dvd me_end e + 1"
    "2 ^ PAGE_SHIFT dvd a" "2 ^ PAGE_SHIFT dvd sz"
  shows "no_byte_left e a sz"
proof -
  have "\<not> 2 ^ PAGE_SHIFT dvd n + 1" if "2 ^ PAGE_SHIFT dvd n" for n :: nat
    using that dvd_add_right_iff [of "2 ^ PAGE_SHIFT" n 1] by (simp add: PAGE_SHIFT_def)
  with assms show ?thesis unfolding no_byte_left_def by (metis dvd_add)
qed

end
