(* ===== verification/Allocator_Free.thy ===== *)
theory Allocator_Free
  imports Allocator_Request
begin

text \<open>
  Giving memory back: \<open>define_free_memory\<close> and \<open>free\<close> on a range that is not free yet. The
  range is merged with the free blocks it touches, or becomes a block of its own, and the
  set of free addresses grows by exactly the range.
\<close>

declare One_nat_def [simp del]

section \<open>Finding the neighbours\<close>

lemma search_previous_loop_spec:
  "\<lbrakk>addr_ok p f (ys @ x # zs); a \<notin> covered p (x # zs)\<rbrakk> \<Longrightarrow>
     search_previous_loop p a x = Some (last_opt (ys @ takeWhile (\<lambda>y. me_start (p y) < a) (x # zs)) None)"
proof (induction zs arbitrary: ys x)
  case Nil
  from get_next_entry_ok [OF Nil(1)] addr_ok_gaps(4) [OF Nil(1)] Nil(2) show ?case
    by (subst search_previous_loop.simps) (auto simp: last_opt_append)
next
  case (Cons z zs)
  have "addr_ok p f ((ys @ [x]) @ z # zs)" "a \<notin> covered p (z # zs)" using Cons.prems by simp_all
  note IH = Cons.IH [OF this]
  with get_next_entry_ok [OF Cons.prems(1)] show ?case
    by (subst search_previous_loop.simps) simp
qed

lemma search_previous_spec:
  assumes ok: "addr_ok p f xs" and a: "a \<notin> covered p xs"
  shows "search_entry_previous_address_mut p f a =
    Some (last_opt (takeWhile (\<lambda>y. me_start (p y) < a) xs) None)"
proof (cases xs)
  case Nil
  with ok show ?thesis by (simp add: addr_ok_def search_entry_previous_address_mut_def)
next
  case (Cons x zs)
  with ok have f: "f = Some x" "x < POOL_SIZE" by (auto simp: addr_ok_def ids_ok_def)
  from search_previous_loop_spec [of p f "[]" x zs a] ok a Cons f show ?thesis
    by (simp add: search_entry_previous_address_mut_def)
qed

text \<open>The blocks before and after a range that is not free.\<close>

lemma free_range_split:
  assumes ok: "addr_ok p f xs" and sz: "0 < sz" and dis: "{a..<a + sz} \<inter> covered p xs = {}"
  shows "\<exists>us vs. xs = us @ vs \<and> takeWhile (\<lambda>y. me_start (p y) < a) xs = us \<and>
    (\<forall>u\<in>set us. me_end (p u) < a) \<and> (\<forall>v\<in>set vs. a + sz \<le> me_start (p v))"
proof -
  let ?us = "takeWhile (\<lambda>y. me_start (p y) < a) xs" and ?vs = "dropWhile (\<lambda>y. me_start (p y) < a) xs"
  have lt: "me_start (p x) < me_end (p x)" if "x \<in> set xs" for x
    using ok that by (auto simp: addr_ok_def ids_ok_def range_ok_def)
  have cov: "b \<in> covered p xs" if "x \<in> set xs" "me_start (p x) \<le> b" "b \<le> me_end (p x)" for x b
    using that by (auto simp: covered_def)
  have "me_end (p u) < a" if u: "u \<in> set ?us" for u
  proof (rule ccontr)
    assume "\<not> me_end (p u) < a"
    with set_takeWhileD [OF u] cov [of u a] have "a \<in> covered p xs" by simp
    moreover have "a \<in> {a..<a + sz}" using sz by simp
    ultimately show False using dis by blast
  qed
  moreover have "a + sz \<le> me_start (p v)" if v: "v \<in> set ?vs" for v
  proof -
    have srt: "sorted_wrt (\<lambda>x y. me_end (p x) + 1 < me_start (p y)) ?vs"
    proof -
      have "sorted_wrt (\<lambda>x y. me_end (p x) + 1 < me_start (p y)) (?us @ ?vs)"
        using ok unfolding takeWhile_dropWhile_id by (simp add: addr_ok_def)
      then show ?thesis by (simp only: sorted_wrt_append)
    qed
    obtain w ws where vs: "?vs = w # ws" using v by (cases ?vs) auto
    have "w \<in> set ?vs" by (simp add: vs)
    then have w: "w \<in> set xs" by (rule set_dropWhileD)
    have aw: "a \<le> me_start (p w)" using vs by (simp add: dropWhile_eq_Cons_conv)
    have "v = w \<or> me_end (p w) + 1 < me_start (p v)" using srt v unfolding vs by auto
    with lt [OF w] have "me_start (p w) \<le> me_start (p v)" by auto
    moreover have "a + sz \<le> me_start (p w)"
    proof (rule ccontr)
      assume "\<not> a + sz \<le> me_start (p w)"
      with aw have "me_start (p w) \<in> {a..<a + sz}" by simp
      moreover have "me_start (p w) \<in> covered p xs" using cov [OF w] lt [OF w] by simp
      ultimately show False using dis by blast
    qed
    ultimately show ?thesis by linarith
  qed
  moreover have "xs = ?us @ ?vs" by simp
  ultimately show ?thesis by blast
qed

section \<open>The three ways to add a range\<close>

definition freed_ok :: "memory_allocator \<Rightarrow> usize \<Rightarrow> usize \<Rightarrow> memory_allocator \<Rightarrow> bool" where
  "freed_ok s a sz s' \<longleftrightarrow> ma_inv s' \<and> free_set s' = free_set s \<union> {a..<a + sz} \<and>
     free_size s' = free_size s + sz"

lemma free_extend:
  assumes rep: "ma_rep s (ys @ x # zs) L" and p: "p = memory_entry_pool s"
    and new: "st < en" "en + 1 < usize_range"
      "\<forall>y\<in>set ys. me_end (p y) + 1 < st" "\<forall>z\<in>set zs. en + 1 < me_start (p z)"
    and cover: "{st..en} = {me_start (p x)..me_end (p x)} \<union> {a..<a + sz}"
    and sz: "en - st + 1 = bsize (p x) + sz" and top: "free_size s + sz < usize_range"
  shows "\<exists>p' fl'. chain_entry_to_free_list (p(x := (p x)\<lparr>me_start := st, me_end := en\<rparr>)) (free_list s) x
       (Some (bsize (p x))) = Some (p', fl') \<and>
     same_core (p(x := (p x)\<lparr>me_start := st, me_end := en\<rparr>)) p' \<and>
     freed_ok s a sz \<lparr>free_size = free_size s + sz, first_entry = first_entry s, free_list = fl',
       memory_entry_pool = p'\<rparr>"
proof -
  note D = ma_repD [OF rep, folded p]
  let ?q = "p(x := (p x)\<lparr>me_start := st, me_end := en\<rparr>)"
  have d: "x \<notin> set ys" "x \<notin> set zs" using D(8) by auto
  have addr: "addr_ok ?q (first_entry s) (ys @ x # zs)"
    by (rule addr_ok_resize [OF D(1)]) (use new in auto)
  have "total_size ?q ys = total_size p ys" "total_size ?q zs = total_size p zs"
    by (rule total_size_cong; use d in auto)+
  then have "total_size ?q (ys @ x # zs) \<le> free_size s + sz"
    using D(4) sz by (simp add: bsize_def)
  from rep_resize [OF rep _ addr this top] p
  obtain p' fl' L' where c: "chain_entry_to_free_list ?q (free_list s) x (Some (bsize (p x))) = Some (p', fl')"
    "same_core ?q p'" "ma_rep \<lparr>free_size = free_size s + sz, first_entry = first_entry s,
       free_list = fl', memory_entry_pool = p'\<rparr> (ys @ x # zs) L'" by blast
  have "covered ?q ys = covered p ys" "covered ?q zs = covered p zs"
    by (rule covered_cong; use d in auto)+
  then have "covered p' (ys @ x # zs) = covered p (ys @ x # zs) \<union> {a..<a + sz}"
    using cover unfolding covered_core [OF c(2)] by auto
  then show ?thesis
    using c ma_repD(9) [OF c(3)] D(9) by (auto simp: freed_ok_def ma_inv_def)
qed

lemma free_insert:
  assumes rep: "ma_rep s (ys @ zs) L" and p: "p = memory_entry_pool s" and x: "x \<in> set (ys @ zs)"
    and n: "n < POOL_SIZE" "n \<notin> set (ys @ zs)"
    and qn: "me_id (q n) = n" "me_enabled (q n)" "me_start (q n) = a" "me_end (q n) = a + sz - 1"
      "lnx q n = None" "lpv q n = None"
    and links: "\<forall>i. nx q i = (if i = n then hd_opt zs None
          else if last_opt ys None = Some i then Some n else nx p i)"
      "\<forall>i. pv q i = (if i = n then last_opt ys None
          else if hd_opt zs None = Some i then Some n else pv p i)"
    and same: "\<forall>i. i \<noteq> n \<longrightarrow> me_start (q i) = me_start (p i) \<and> me_end (q i) = me_end (p i) \<and>
          me_id (q i) = me_id (p i) \<and> me_enabled (q i) = me_enabled (p i) \<and> lnx q i = lnx p i \<and> lpv q i = lpv p i"
    and gaps: "\<forall>y\<in>set ys. me_end (p y) + 1 < a" "\<forall>z\<in>set zs. a + sz < me_start (p z)"
    and sz: "2 \<le> sz" "a + sz < usize_range" "free_size s + sz < usize_range"
  shows "\<exists>p1 fl1 p2 fl2.
     chain_entry_to_free_list q (free_list s) x (Some (bsize (p x))) = Some (p1, fl1) \<and>
     chain_entry_to_free_list p1 fl1 n None = Some (p2, fl2) \<and>
     freed_ok s a sz \<lparr>free_size = free_size s + sz, first_entry = hd_opt (ys @ n # zs) None,
       free_list = fl2, memory_entry_pool = p2\<rparr>"
proof -
  note D = ma_repD [OF rep, folded p]
  have eq: "me_start (q i) = me_start (p i)" "me_end (q i) = me_end (p i)" if "i \<noteq> n" for i
    using same that by simp_all
  have addr: "addr_ok q (hd_opt (ys @ n # zs) None) (ys @ n # zs)"
  proof (rule addr_ok_insert [OF D(1) n])
    show "range_ok (q n)" using qn sz by (simp add: range_ok_def)
    show "me_end (p y) + 1 < me_start (q n)" if "y \<in> set ys" for y using gaps(1) qn that by simp
    show "me_end (q n) + 1 < me_start (p z)" if "z \<in> set zs" for z using gaps(2) qn that sz by simp
  qed (use qn links same in simp_all)
  have nL: "i \<noteq> n" if "i \<in> set (L k)" for i k using classes_sub [OF D(3), of k] n(2) that by blast
  have F: "free_lists q (free_list s) L"
    by (rule free_lists_frame [OF D(2)]) (use same nL in blast)
  have nn: "i \<noteq> n" if "i \<in> set ys \<union> set zs" for i using that n(2) by auto
  have bs: "bsize (q i) = bsize (p i)" if "i \<noteq> n" for i using eq [OF that] by (simp add: bsize_def)
  have "total_size q ys = total_size p ys" "total_size q zs = total_size p zs"
    by (rule total_size_cong; rule bs; use nn in blast)+
  then have t: "total_size q (ys @ n # zs) \<le> free_size s + sz"
    using D(4) qn sz by (simp add: bsize_def)
  have bs': "bsize (q y) = bsize (memory_entry_pool s y)" if "y \<in> set (ys @ zs) - {x}" for y
    unfolding p [symmetric] by (rule bs) (use that nn in auto)
  from rep_add [OF rep x n(2) F qn(5,6) addr bs' t sz(3)]
  obtain p1 fl1 p2 fl2 L' where c:
    "chain_entry_to_free_list q (free_list s) x (Some (bsize (memory_entry_pool s x))) = Some (p1, fl1)"
    "chain_entry_to_free_list p1 fl1 n None = Some (p2, fl2)" "same_core q p2"
    "ma_rep \<lparr>free_size = free_size s + sz, first_entry = hd_opt (ys @ n # zs) None, free_list = fl2,
       memory_entry_pool = p2\<rparr> (ys @ n # zs) L'" by blast
  have "covered q ys = covered p ys" "covered q zs = covered p zs"
    by (rule covered_cong; use eq nn in auto)+
  moreover have "{me_start (q n)..me_end (q n)} = {a..<a + sz}" using qn sz by auto
  ultimately have "covered p2 (ys @ n # zs) = covered p (ys @ zs) \<union> {a..<a + sz}"
    unfolding covered_core [OF c(3)] by auto
  then show ?thesis
    using c ma_repD(9) [OF c(4)] D(9) p by (auto simp: freed_ok_def ma_inv_def)
qed

text \<open>
  A block moved to the list of a new size and then taken off it: the other blocks keep their
  lists. The sizes of the other blocks do not matter, so the block \<open>x\<close> may have been resized
  before.
\<close>

lemma chain_unchain:
  assumes F: "free_lists p fl L" and n: "n \<in> set (L (size_to_page_order old))" "old \<noteq> bsize (p n)"
    and ids: "\<forall>k. ids_ok p (set (L k))" and x: "x \<noteq> n"
  shows "\<exists>p' fl'. chain_entry_to_free_list p fl n (Some old) = Some (p', fl') \<and> same_core p p' \<and>
    (\<exists>q fl2. unchain_entry_from_free_list (p'(x := (p' x)\<lparr>me_start := st, me_end := en\<rparr>)) fl' n = Some (q, fl2) \<and>
      same_core (p'(x := (p' x)\<lparr>me_start := st, me_end := en\<rparr>)) q \<and>
      free_lists q fl2 (L(size_to_page_order old := remove1 n (L (size_to_page_order old)))))"
proof -
  let ?k = "size_to_page_order old" and ?j = "size_to_page_order (bsize (p n))"
  let ?u = "unchain_from_freelist p n" and ?L = "L(?k := remove1 n (L ?k))"
  define fl1 where "fl1 = (if fl ?k = Some (me_id (p n)) then fl(?k := me_list_next (p n)) else fl)"
  have idn: "me_id (p n) = n" "range_ok (p n)" "n < POOL_SIZE" and lt: "\<forall>y\<in>set (L ?k). y < POOL_SIZE"
    using n ids by (auto simp: ids_ok_def)
  note un = unchain_free_lists [OF F n(1) lt idn(1) fl1_def]
  note uc = same_coreD [OF un(4)] same_core_range_ok [OF un(4)] same_core_bsize [OF un(4)]
  have nL: "n \<notin> set (?L k)" for k
    using free_listsD(3) [OF F, of ?k] free_listsD(4) [OF F, of k ?k] n(1) by (cases "k = ?k") auto
  have "set (?L k) \<subseteq> set (L k)" for k by (cases "k = ?k") (auto dest: notin_set_remove1 set_remove1_subset [THEN subsetD])
  then have ids1: "ids_ok ?u (insert n (set (?L k)))" for k
    using ids idn unfolding ids_ok_core [OF un(4)] unfolding ids_ok_def by blast
  from insert_in_free_list_spec [OF un(1) nL ids1 un(2,3), of ?j]
  obtain p' fl' us vs where ins: "insert_in_free_list ?u fl1 n ?j = Some (p', fl')" "?L ?j = us @ vs"
    "same_core ?u p'" "free_lists p' fl' (?L(?j := us @ n # vs))" by blast
  have ch: "chain_entry_to_free_list p fl n (Some old) = Some (p', fl')"
    using n(2) ins(1) idn(2) by (simp add: chain_entry_to_free_list_def get_size_ok fl1_def)
  have core: "same_core p p'" using un(4) ins(3) by (rule same_core_trans)
  let ?r = "p'(x := (p' x)\<lparr>me_start := st, me_end := en\<rparr>)" and ?L2 = "?L(?j := us @ n # vs)"
  have Fr: "free_lists ?r fl' ?L2" using ins(4) by (subst free_lists_cong [of ?r p']) auto
  have rn: "me_id (?r n) = n" "get_size (?r n) = Some (bsize (p n))" "?r n = p' n"
    using x idn core by (simp_all add: same_coreD same_core_range_ok same_core_bsize get_size_ok)
  have "set (?L2 ?j) \<subseteq> insert n (set (?L ?j))" using ins(2) by auto
  then have lt2: "\<forall>y\<in>set (?L2 ?j). y < POOL_SIZE" using ids1 [of ?j] by (auto simp: ids_ok_def)
  have inL: "n \<in> set (?L2 ?j)" by simp
  define fl2 where "fl2 = (if fl' ?j = Some (me_id (?r n)) then fl'(?j := me_list_next (?r n)) else fl')"
  note un2 = unchain_free_lists [OF Fr inL lt2 rn(1) fl2_def]
  have "remove1 n (us @ n # vs) = us @ vs" using nL [of ?j] unfolding ins(2) by (simp add: remove1_append)
  then have eq: "?L2(?j := remove1 n (?L2 ?j)) = ?L" using ins(2) by (simp add: fun_upd_idem)
  have "free_lists (unchain_from_freelist ?r n) fl2 ?L" using un2(1) unfolding eq .
  moreover have "unchain_entry_from_free_list ?r fl' n = Some (unchain_from_freelist ?r n, fl2)"
    using rn by (simp add: unchain_entry_from_free_list_def fl2_def del: fun_upd_apply)
  ultimately show ?thesis using ch core un2(4) by blast
qed

lemma range_upd_id: "me_start e = st \<Longrightarrow> me_end e = en \<Longrightarrow> e\<lparr>me_start := st, me_end := en\<rparr> = e"
  by (cases e) simp

text \<open>
  The range fills the gap between the blocks \<open>x\<close> and \<open>n\<close>, which are merged into \<open>x\<close>:
  \<open>merge_core p x n q\<close> says how the pool \<open>q\<close> before the deletion of \<open>n\<close> relates to the first one.
\<close>

definition merge_core :: "memory_entry_pool \<Rightarrow> nat \<Rightarrow> nat \<Rightarrow> memory_entry_pool \<Rightarrow> bool" where
  "merge_core p x n q \<longleftrightarrow> nx q = nx p \<and> pv q = pv p \<and>
     (\<forall>i. me_id (q i) = me_id (p i) \<and> me_enabled (q i) = me_enabled (p i) \<and>
       (i \<noteq> n \<longrightarrow> me_start (q i) = me_start (p i)) \<and>
       (i \<noteq> n \<and> i \<noteq> x \<longrightarrow> me_end (q i) = me_end (p i))) \<and> me_end (q x) = me_end (p n)"

lemma merge_chain:
  assumes rep: "ma_rep s (ys @ x # n # zs) L" and p: "p = memory_entry_pool s"
    and a: "me_end (p x) + 1 = a" "me_start (p n) = a + sz" "0 < sz"
    and p1: "p1 = p(x := (p x)\<lparr>me_start := me_start (p x), me_end := a + sz - 1\<rparr>)"
    and p2: "p2 = p1(n := (p1 n)\<lparr>me_start := a, me_end := me_end (p1 n)\<rparr>)"
    and k: "k = size_to_page_order (bsize (p n))"
  shows "\<exists>p3 fl3 p4 fl4.
     chain_entry_to_free_list p2 (free_list s) n (Some (bsize (p n))) = Some (p3, fl3) \<and>
     same_core p2 p3 \<and>
     unchain_entry_from_free_list
       (p3(x := (p3 x)\<lparr>me_start := me_start (p x), me_end := me_end (p n)\<rparr>)) fl3 n = Some (p4, fl4) \<and>
     free_lists p4 fl4 (L(k := remove1 n (L k))) \<and> merge_core p x n p4"
proof -
  note D = ma_repD [OF rep, folded p]
  have rep': "addr_ok p (first_entry s) ((ys @ [x]) @ n # zs)" using D(1) by simp
  note G = addr_ok_gaps [OF D(1)] and H = addr_ok_gaps [OF rep']
  have ne: "x \<noteq> n" "n \<noteq> x" using D(8) by auto
  have n2: "p2 n = (p n)\<lparr>me_start := a\<rparr>" using ne by (simp add: p1 p2)
  have F2: "free_lists p2 (free_list s) L" using D(2) by (subst free_lists_cong [of p2 p]) (auto simp: p1 p2)
  have nk: "n \<in> set (L (size_to_page_order (bsize (p n))))" using D(3) by (simp add: classes_def)
  have ok2: "ids_ok p2 (set (ys @ x # n # zs))"
    using D(7) G(4,5) H(4,5) a ne unfolding ids_ok_def range_ok_def p1 p2 by auto
  have ids: "\<forall>k. ids_ok p2 (set (L k))"
    using ok2 classes_sub [OF D(3)] unfolding ids_ok_def by blast
  have old: "bsize (p n) \<noteq> bsize (p2 n)" using n2 H(4) a by (simp add: bsize_def)
  from chain_unchain [OF F2 nk old ids ne(1), folded k, where st = "me_start (p x)" and en = "me_end (p n)"]
  obtain p3 fl3 p4 fl4 where c: "chain_entry_to_free_list p2 (free_list s) n (Some (bsize (p n))) = Some (p3, fl3)"
    "same_core p2 p3"
    "unchain_entry_from_free_list (p3(x := (p3 x)\<lparr>me_start := me_start (p x), me_end := me_end (p n)\<rparr>)) fl3 n
       = Some (p4, fl4)"
    "same_core (p3(x := (p3 x)\<lparr>me_start := me_start (p x), me_end := me_end (p n)\<rparr>)) p4"
    "free_lists p4 fl4 (L(k := remove1 n (L k)))" by metis
  have "merge_core p x n p4"
    unfolding merge_core_def nx_pv_core [OF c(4)] same_coreD [OF c(4)]
    using ne by (auto simp: nx_def pv_def same_coreD [OF c(2)] p1 p2)
  with c show ?thesis by blast
qed

lemma merge_delete:
  assumes rep: "ma_rep s (ys @ x # n # zs) L" and p: "p = memory_entry_pool s"
    and k: "k = size_to_page_order (bsize (p n))"
    and F: "free_lists q fl (L(k := remove1 n (L k)))" and core: "merge_core p x n q"
    and r: "r = (delete_entry q n)(x := (delete_entry q n x)\<lparr>me_start := me_start (p x), me_end := me_end (p x)\<rparr>)"
  shows "ma_rep \<lparr>free_size = free_size s - bsize (p n), first_entry = first_entry s, free_list = fl,
      memory_entry_pool = r\<rparr> (ys @ x # zs) (L(k := remove1 n (L k)))"
    "\<And>i. i \<noteq> n \<Longrightarrow> me_start (r i) = me_start (p i) \<and> me_end (r i) = me_end (p i)"
    "r(x := (r x)\<lparr>me_start := me_start (p x), me_end := me_end (p n)\<rparr>) = delete_entry q n"
proof -
  note D = ma_repD [OF rep, folded p]
  have rep': "addr_ok p (first_entry s) ((ys @ [x]) @ n # zs)" using D(1) by simp
  have ne: "x \<noteq> n" and nn: "n \<notin> set (ys @ x # zs)" using D(8) by auto
  note lp = addr_ok_links [OF rep']
  have cq: "nx q = nx p" "pv q = pv p" "\<And>i. me_id (q i) = me_id (p i)" "\<And>i. me_enabled (q i) = me_enabled (p i)"
    "\<And>i. i \<noteq> n \<Longrightarrow> me_start (q i) = me_start (p i)"
    "\<And>i. i \<noteq> n \<Longrightarrow> i \<noteq> x \<Longrightarrow> me_end (q i) = me_end (p i)" "me_end (q x) = me_end (p n)"
    using core by (simp_all add: merge_core_def)
  have idq: "\<forall>i\<in>set ((ys @ [x]) @ n # zs). i < POOL_SIZE \<and> me_id (q i) = i" using lp(3) by (simp add: cq)
  note fd = delete_entry_fields [OF lp(1) [folded cq(1,2)] lp(2) idq] and fp = delete_entry_fields [OF lp]
  show re: "me_start (r i) = me_start (p i) \<and> me_end (r i) = me_end (p i)" if "i \<noteq> n" for i
    using that cq(5,6) by (simp add: r fd)
  show "r(x := (r x)\<lparr>me_start := me_start (p x), me_end := me_end (p n)\<rparr>) = delete_entry q n"
    by (simp add: r range_upd_id fd cq ne)
  have rl: "nx r i = nx (delete_entry q n) i" "pv r i = pv (delete_entry q n) i" "me_id (r i) = me_id (q i)"
    "me_enabled (r i) = me_enabled (delete_entry q n i)" "lnx r i = lnx q i" "lpv r i = lpv q i" for i
    using fd(5-7) by (auto simp: r nx_def pv_def lnx_def lpv_def)
  have "addr_ok (delete_entry p n) (first_entry s) (ys @ x # zs)"
    using addr_ok_delete [OF rep'] rep' by (simp add: addr_ok_def)
  then have addr: "addr_ok r (first_entry s) (ys @ x # zs)"
  proof (rule addr_ok_cong)
    show "\<forall>i\<in>set (ys @ x # zs). nx r i = nx (delete_entry p n) i \<and> pv r i = pv (delete_entry p n) i \<and>
        me_start (r i) = me_start (delete_entry p n i) \<and> me_end (r i) = me_end (delete_entry p n i) \<and>
        me_id (r i) = me_id (delete_entry p n i)"
    proof
      fix i assume "i \<in> set (ys @ x # zs)"
      then have "i \<noteq> n" using nn by blast
      with re show "nx r i = nx (delete_entry p n) i \<and> pv r i = pv (delete_entry p n) i \<and>
        me_start (r i) = me_start (delete_entry p n i) \<and> me_end (r i) = me_end (delete_entry p n i) \<and>
        me_id (r i) = me_id (delete_entry p n i)"
        by (simp only: rl fd fp cq simp_thms if_False)
    qed
    show "\<forall>i. me_enabled (r i) = me_enabled (delete_entry p n i)" by (simp add: rl fp fd cq)
  qed
  have Fr: "free_lists r fl (L(k := remove1 n (L k)))"
    by (rule free_lists_frame [OF F]) (simp add: rl)
  have A: "set (ys @ x # n # zs) - {n} = set (ys @ x # zs)" using nn by auto
  have bs: "bsize (r i) = bsize (p i)" if "i \<in> set (ys @ x # zs)" for i
    using re [of i] nn that unfolding bsize_def by metis
  have cl: "classes (\<lambda>i. bsize (r i)) (set (ys @ x # zs)) (L(k := remove1 n (L k)))"
  proof -
    have "classes (\<lambda>i. bsize (p i)) (set (ys @ x # zs)) (L(k := remove1 n (L k)))"
      using classes_remove [OF D(3) free_listsD(3) [OF D(2)], of n, folded k] unfolding A .
    moreover have "classes (\<lambda>i. bsize (r i)) (set (ys @ x # zs)) (L(k := remove1 n (L k))) =
        classes (\<lambda>i. bsize (p i)) (set (ys @ x # zs)) (L(k := remove1 n (L k)))"
      by (rule classes_cong) (rule bs)
    ultimately show ?thesis by (simp only:)
  qed
  have "total_size r (ys @ x # zs) = total_size p (ys @ x # zs)" by (rule total_size_cong) (rule bs)
  with D(4,5) have "total_size r (ys @ x # zs) \<le> free_size s - bsize (p n)" "free_size s - bsize (p n) < usize_range"
    by simp_all
  with addr Fr cl show "ma_rep \<lparr>free_size = free_size s - bsize (p n), first_entry = first_entry s,
      free_list = fl, memory_entry_pool = r\<rparr> (ys @ x # zs) (L(k := remove1 n (L k)))"
    by (simp add: ma_rep_def del: fun_upd_apply)
qed

lemma free_merge:
  assumes rep: "ma_rep s (ys @ x # n # zs) L" and p: "p = memory_entry_pool s"
    and a: "me_end (p x) + 1 = a" "me_start (p n) = a + sz" "0 < sz"
    and top: "free_size s + sz < usize_range"
    and p1: "p1 = p(x := (p x)\<lparr>me_start := me_start (p x), me_end := a + sz - 1\<rparr>)"
    and p2: "p2 = p1(n := (p1 n)\<lparr>me_start := a, me_end := me_end (p1 n)\<rparr>)"
  shows "\<exists>p3 fl3 p4 fl4 p5 fl5.
     chain_entry_to_free_list p2 (free_list s) n (Some (bsize (p n))) = Some (p3, fl3) \<and>
     same_core p2 p3 \<and>
     unchain_entry_from_free_list
       (p3(x := (p3 x)\<lparr>me_start := me_start (p x), me_end := me_end (p n)\<rparr>)) fl3 n = Some (p4, fl4) \<and>
     chain_entry_to_free_list (delete_entry p4 n) fl4 x (Some (bsize (p x))) = Some (p5, fl5) \<and>
     freed_ok s a sz \<lparr>free_size = free_size s + sz, first_entry = first_entry s, free_list = fl5,
       memory_entry_pool = p5\<rparr>"
proof -
  note D = ma_repD [OF rep, folded p]
  have rep': "addr_ok p (first_entry s) ((ys @ [x]) @ n # zs)" using D(1) by simp
  note G = addr_ok_gaps [OF D(1)] and H = addr_ok_gaps [OF rep']
  have ne: "x \<noteq> n" and nn: "n \<notin> set ys" "n \<notin> set zs" using D(8) by auto
  define k where "k = size_to_page_order (bsize (p n))"
  from merge_chain [OF rep p a p1 p2 k_def] obtain p3 fl3 p4 fl4 where
    c: "chain_entry_to_free_list p2 (free_list s) n (Some (bsize (p n))) = Some (p3, fl3)" "same_core p2 p3"
      "unchain_entry_from_free_list
         (p3(x := (p3 x)\<lparr>me_start := me_start (p x), me_end := me_end (p n)\<rparr>)) fl3 n = Some (p4, fl4)"
    and F: "free_lists p4 fl4 (L(k := remove1 n (L k)))" and core: "merge_core p x n p4" by metis
  define r where "r = (delete_entry p4 n)(x := (delete_entry p4 n x)\<lparr>me_start := me_start (p x), me_end := me_end (p x)\<rparr>)"
  note M = merge_delete [OF rep p k_def F core r_def]
  define s1 where "s1 = \<lparr>free_size = free_size s - bsize (p n), first_entry = first_entry s, free_list = fl4,
      memory_entry_pool = r\<rparr>"
  have s1: "free_list s1 = fl4" "first_entry s1 = first_entry s" "memory_entry_pool s1 = r"
    "free_size s1 + (sz + bsize (p n)) = free_size s + sz"
    using D(4) by (simp_all add: s1_def)
  have rx: "me_start (r x) = me_start (p x)" "me_end (r x) = me_end (p x)" "bsize (r x) = bsize (p x)"
    using M(2) [OF ne] by (simp_all add: bsize_def)
  have out: "\<forall>y\<in>set ys. me_end (r y) + 1 < me_start (p x)" "\<forall>z\<in>set zs. me_end (p n) + 1 < me_start (r z)"
    using G(1) H(2) M(2) nn by metis+
  have num: "me_start (p x) < me_end (p n)" "me_end (p n) + 1 < usize_range"
    "me_end (p n) - me_start (p x) + 1 = bsize (p x) + (sz + bsize (p n))"
    using a G(4) H(4,5) unfolding bsize_def by linarith+
  have cov: "{me_start (p x)..me_end (p n)} = {me_start (r x)..me_end (r x)} \<union> {a..<a + (sz + bsize (p n))}"
    using a G(4) H(4) unfolding rx bsize_def by auto
  from free_extend [OF M(1) [folded s1_def] s1(3) [symmetric] num(1,2) out cov, unfolded s1 rx, OF num(3) top]
  obtain p5 fl5 where e: "chain_entry_to_free_list (delete_entry p4 n) fl4 x (Some (bsize (p x))) = Some (p5, fl5)"
    "freed_ok s1 a (sz + bsize (p n)) \<lparr>free_size = free_size s + sz, first_entry = first_entry s, free_list = fl5,
       memory_entry_pool = p5\<rparr>"
    unfolding M(3) by blast
  have "covered r (ys @ x # zs) = covered p (ys @ x # zs)"
    by (rule covered_cong, rule M(2)) (use nn ne in auto)
  moreover have "free_set s1 = covered r (ys @ x # zs)"
    using ma_repD(9) [OF M(1)] by (simp add: s1_def)
  moreover have "{a..<a + (sz + bsize (p n))} = {a..<a + sz} \<union> {me_start (p n)..me_end (p n)}"
    using a H(4) by (auto simp: bsize_def)
  ultimately have "free_set s1 \<union> {a..<a + (sz + bsize (p n))} = free_set s \<union> {a..<a + sz}"
    using D(9) by auto
  with e(2) have "freed_ok s a sz \<lparr>free_size = free_size s + sz, first_entry = first_entry s, free_list = fl5,
       memory_entry_pool = p5\<rparr>"
    unfolding freed_ok_def memory_allocator.select_convs by metis
  with c e(1) show ?thesis by blast
qed

lemma upd_all:
  "s\<lparr>free_size := f, memory_entry_pool := p, free_list := fl\<rparr> =
     \<lparr>free_size = f, first_entry = first_entry s, free_list = fl, memory_entry_pool = p\<rparr>"
  "s\<lparr>free_size := f, first_entry := e, memory_entry_pool := p, free_list := fl\<rparr> =
     \<lparr>free_size = f, first_entry = e, free_list = fl, memory_entry_pool = p\<rparr>"
  by simp_all

section \<open>A range after a block\<close>

text \<open>The outcome of a free: done, or no pool entry left for a block of its own.\<close>

definition free_outcome :: "memory_allocator \<Rightarrow> usize \<Rightarrow> usize \<Rightarrow> unit ma_result \<Rightarrow> bool" where
  "free_outcome s a sz r \<longleftrightarrow>
     (\<exists>s'. r = Some (s', Ok ()) \<and> freed_ok s a sz s') \<or>
     (r = Some (s, Err NoEntry) \<and> (\<forall>i<POOL_SIZE. me_enabled (memory_entry_pool s i)))"

definition fits :: "memory_allocator \<Rightarrow> usize \<Rightarrow> usize \<Rightarrow> bool" where
  "fits s a sz \<longleftrightarrow> 2 \<le> sz \<and> a + sz < usize_range \<and> free_size s + sz < usize_range"

lemma create_memory_entry_full:
  assumes "addr_ok p f xs" "create_memory_entry p = Err NoEntry" "set xs = {..<POOL_SIZE}"
  shows "\<forall>i<POOL_SIZE. me_enabled (p i)"
  using assms by (auto simp: addr_ok_def)

lemma fitsD:
  assumes "fits s a sz"
  shows "2 \<le> sz" "0 < sz" "a + sz < usize_range" "free_size s + sz < usize_range"
    "get_end_address a sz = Some (a + sz - 1)" "uadd (a + sz - 1) 1 = Some (a + sz)"
    "uadd (free_size s) sz = Some (free_size s + sz)" "a < a + sz - 1"
  using assms by (auto simp: fits_def get_end_address_def uadd_def usub_def)

lemma define_free_after:
  assumes rep: "ma_rep s (ys @ x # zs) L" and p: "p = memory_entry_pool s" and fit: "fits s a sz"
    and x: "me_end (p x) < a" "\<forall>z\<in>set zs. a + sz \<le> me_start (p z)"
    and prev: "search_entry_previous_address_mut p (first_entry s) a = Some (Some x)"
    and adj: "adj = (me_end (p x) + 1 = a)"
    and q: "q = (if adj then p(x := (p x)\<lparr>me_start := me_start (p x), me_end := a + sz - 1\<rparr>) else p)"
  shows "define_free_memory s a sz =
    (case hd_opt zs None of
       Some n \<Rightarrow> define_free_before_next s q x n a sz (a + sz - 1) (bsize (p x)) (me_end (p x) + 1) adj
     | None \<Rightarrow> define_free_at_tail s q x a sz (a + sz - 1) (bsize (p x)) adj)"
proof -
  note D = ma_repD [OF rep, folded p] and f = fitsD [OF fit]
  note G = addr_ok_gaps [OF D(1)]
  have rok: "range_ok (p x)" using G by (simp add: range_ok_def)
  have nxt: "get_next_entry p x = hd_opt zs None" by (rule get_next_entry_ok [OF D(1)])
  have "nx q = nx p" by (auto simp: q nx_def)
  then have nq: "get_next_entry q x = hd_opt zs None"
    using nxt by (simp add: get_next_entry_def nx_def fun_eq_iff)
  have after: "uadd (me_end (p x)) 1 = Some (me_end (p x) + 1)" using G(5) by (simp add: uadd_def)
  have sq: "me_start (q n) = me_start (p n)" for n by (simp add: q)
  have lt: "me_start (p x) < a" "me_start (p x) \<noteq> a + sz" "me_start (p x) < a + sz - 1" "0 < a"
    "\<not> a + sz - 1 \<le> me_end (p x)" "\<not> a \<le> me_end (p x)" "me_end (p x) \<noteq> a + sz - 1"
    using x(1) G(4) f by auto
  have n: "\<not> me_start (p n) \<le> a" if "hd_opt zs None = Some n" for n
    using x(2) hd_opt_SomeD [OF that] f(1) by force
  have qx: "set_range p x (me_start (p x)) (a + sz - 1) = Some q" if adj
    using that lt by (simp add: set_range_def q)
  note defs = p [symmetric] prev get_size_ok [OF rok] after nq sq
  show ?thesis
  proof (cases adj)
    case True
    with adj have "me_end (p x) + 1 = a" by simp
    with True f lt n show ?thesis
      by (subst define_free_memory.simps, cases "hd_opt zs None") (simp_all add: defs qx)
  next
    case False
    with adj q have "me_end (p x) + 1 \<noteq> a" "q = p" by simp_all
    with False f lt n nxt show ?thesis
      by (subst define_free_memory.simps, cases "hd_opt zs None") (simp_all add: defs)
  qed
qed

lemma free_after_extend:
  assumes rep: "ma_rep s (ys @ x # zs) L" and p: "p = memory_entry_pool s" and fit: "fits s a sz"
    and x: "me_end (p x) + 1 = a" "\<forall>z\<in>set zs. a + sz < me_start (p z)"
  shows "\<exists>p' fl'. chain_entry_to_free_list
      (p(x := (p x)\<lparr>me_start := me_start (p x), me_end := a + sz - 1\<rparr>)) (free_list s) x
       (Some (bsize (p x))) = Some (p', fl') \<and>
     same_core (p(x := (p x)\<lparr>me_start := me_start (p x), me_end := a + sz - 1\<rparr>)) p' \<and>
     freed_ok s a sz \<lparr>free_size = free_size s + sz, first_entry = first_entry s, free_list = fl',
       memory_entry_pool = p'\<rparr>"
proof -
  note D = ma_repD [OF rep, folded p] and f = fitsD [OF fit]
  note G = addr_ok_gaps [OF D(1)]
  show ?thesis
  proof (rule free_extend [OF rep p])
    show "{me_start (p x)..a + sz - 1} = {me_start (p x)..me_end (p x)} \<union> {a..<a + sz}"
      using x(1) G(4) f by auto
    show "a + sz - 1 - me_start (p x) + 1 = bsize (p x) + sz"
      using x(1) G(4) f unfolding bsize_def by linarith
  qed (use x f G in auto)
qed

section \<open>A block of its own\<close>

definition new_block :: "memory_entry_pool \<Rightarrow> nat \<Rightarrow> usize \<Rightarrow> usize \<Rightarrow> memory_entry_pool" where
  "new_block p m st en = p(m := memory_entry_new\<lparr>me_id := m, me_enabled := True, me_start := st, me_end := en\<rparr>)"

text \<open>Everything but the address links is as in \<open>new_block\<close>.\<close>

definition block_added :: "memory_entry_pool \<Rightarrow> nat \<Rightarrow> usize \<Rightarrow> usize \<Rightarrow> memory_entry_pool \<Rightarrow> bool" where
  "block_added p m st en q \<longleftrightarrow> me_id (q m) = m \<and> me_enabled (q m) \<and> me_start (q m) = st \<and> me_end (q m) = en \<and>
     lnx q m = None \<and> lpv q m = None \<and>
     (\<forall>i. i \<noteq> m \<longrightarrow> me_start (q i) = me_start (p i) \<and> me_end (q i) = me_end (p i) \<and>
        me_id (q i) = me_id (p i) \<and> me_enabled (q i) = me_enabled (p i) \<and> lnx q i = lnx p i \<and> lpv q i = lpv p i)"

lemmas block_defs = block_added_def new_block_def chain_after_me_def set_prev_entry_def set_next_entry_def
  memory_entry_new_def nx_def pv_def lnx_def lpv_def

lemma insert_last_fields:
  assumes "me_id (p x) = x" "x \<noteq> m" "q = chain_after_me (new_block p m st en) x m"
  shows "block_added p m st en q"
    "nx q i = (if i = m then None else if i = x then Some m else nx p i)"
    "pv q i = (if i = m then Some x else pv p i)"
  unfolding assms(3) using assms(1,2) by (auto simp: block_defs)

lemma insert_first_fields:
  assumes "me_id (p x) = x" "x \<noteq> m" "q = chain_after_me (new_block p m st en) m x"
  shows "block_added p m st en q"
    "nx q i = (if i = m then Some x else nx p i)"
    "pv q i = (if i = m then None else if i = x then Some m else pv p i)"
  unfolding assms(3) using assms(1,2) by (auto simp: block_defs)

lemma insert_mid_fields:
  assumes "me_id (p x) = x" "me_id (p n) = n" "x \<noteq> m" "n \<noteq> m" "x \<noteq> n"
    "q = chain_after_me (set_next_entry (set_prev_entry (new_block p m st en) n m) m n) x m"
  shows "block_added p m st en q"
    "nx q i = (if i = m then Some n else if i = x then Some m else nx p i)"
    "pv q i = (if i = m then Some x else if i = n then Some m else pv p i)"
  unfolding assms(6) using assms(1-5) by (auto simp: block_defs)

lemma set_range_new_block:
  "st < en \<Longrightarrow> set_range (p(m := memory_entry_new\<lparr>me_id := m, me_enabled := True\<rparr>)) m st en =
     Some (new_block p m st en)"
  by (simp only: set_range_def new_block_def fun_upd_upd fun_upd_same rust_assert_True bind.bind_lunit)

lemma create_new_block:
  assumes ok: "addr_ok p f xs" and lt: "st < en"
  obtains (full) "create_memory_entry p = Err NoEntry" "\<forall>i<POOL_SIZE. me_enabled (p i)"
  | (new) p1 m where "create_memory_entry p = Ok (p1, m)" "m < POOL_SIZE" "m \<notin> set xs"
      "set_range p1 m st en = Some (new_block p m st en)"
  using create_memory_entry_cases [OF ok]
proof (elim disjE exE conjE)
  assume "create_memory_entry p = Err NoEntry" "set xs = {..<POOL_SIZE}"
  with create_memory_entry_full [OF ok] full show thesis by blast
next
  fix n assume "n < POOL_SIZE" "n \<notin> set xs"
    "create_memory_entry p = Ok (p(n := memory_entry_new\<lparr>me_id := n, me_enabled := True\<rparr>), n)"
  with new [OF _ _ _ set_range_new_block [OF lt]] show thesis by blast
qed

lemma free_insert_block:
  assumes rep: "ma_rep s (ys @ zs) L" and p: "p = memory_entry_pool s" and x: "x \<in> set (ys @ zs)"
    and m: "m < POOL_SIZE" "m \<notin> set (ys @ zs)" and fit: "fits s a sz"
    and q: "block_added p m a (a + sz - 1) q"
    and links: "\<forall>i. nx q i = (if i = m then hd_opt zs None
          else if last_opt ys None = Some i then Some m else nx p i)"
      "\<forall>i. pv q i = (if i = m then last_opt ys None
          else if hd_opt zs None = Some i then Some m else pv p i)"
    and gaps: "\<forall>y\<in>set ys. me_end (p y) + 1 < a" "\<forall>z\<in>set zs. a + sz < me_start (p z)"
  shows "\<exists>p1 fl1 p2 fl2.
     chain_entry_to_free_list q (free_list s) x (Some (bsize (p x))) = Some (p1, fl1) \<and>
     chain_entry_to_free_list p1 fl1 m None = Some (p2, fl2) \<and>
     freed_ok s a sz \<lparr>free_size = free_size s + sz, first_entry = hd_opt (ys @ m # zs) None,
       free_list = fl2, memory_entry_pool = p2\<rparr>"
proof (rule free_insert [OF rep p x m _ _ _ _ _ _ links _ gaps])
  show "\<forall>i. i \<noteq> m \<longrightarrow> me_start (q i) = me_start (p i) \<and> me_end (q i) = me_end (p i) \<and>
          me_id (q i) = me_id (p i) \<and> me_enabled (q i) = me_enabled (p i) \<and> lnx q i = lnx p i \<and> lpv q i = lpv p i"
    using q by (simp add: block_added_def)
qed (use q fitsD [OF fit] in \<open>simp_all add: block_added_def\<close>)

section \<open>The cases of \<open>define_free_memory\<close>\<close>

lemma free_tail:
  assumes rep: "ma_rep s (ys @ [x]) L" and p: "p = memory_entry_pool s" and fit: "fits s a sz"
    and x: "me_end (p x) < a" and adj: "adj = (me_end (p x) + 1 = a)"
    and q: "q = (if adj then p(x := (p x)\<lparr>me_start := me_start (p x), me_end := a + sz - 1\<rparr>) else p)"
  shows "free_outcome s a sz (define_free_at_tail s q x a sz (a + sz - 1) (bsize (p x)) adj)"
proof -
  note D = ma_repD [OF rep, folded p] and f = fitsD [OF fit]
  note G = addr_ok_gaps [OF D(1)]
  have sp: "s\<lparr>memory_entry_pool := p\<rparr> = s" by (simp add: p)
  show ?thesis
  proof (cases adj)
    case True
    with adj have "me_end (p x) + 1 = a" by simp
    from free_after_extend [OF rep p fit this] True q obtain p' fl' where
      "chain_entry_to_free_list q (free_list s) x (Some (bsize (p x))) = Some (p', fl')"
      "freed_ok s a sz \<lparr>free_size = free_size s + sz, first_entry = first_entry s, free_list = fl',
       memory_entry_pool = p'\<rparr>" by auto
    with True f(7) show ?thesis by (simp add: free_outcome_def define_free_at_tail_def upd_all)
  next
    case False
    with q have q: "q = p" by simp
    show ?thesis
    proof (cases rule: create_new_block [OF D(1) f(8)])
      case 1
      with False q sp p show ?thesis
        by (simp add: free_outcome_def define_free_at_tail_def)
    next
      case (2 p1 m)
      let ?q = "chain_after_me (new_block p m a (a + sz - 1)) x m"
      have ne: "x \<noteq> m" using 2 by auto
      note fs = insert_last_fields [where p = p and q = ?q, OF G(7) ne refl]
      have gl: "me_end (p y) + 1 < a" if "y \<in> set ys" for y using G(1) [OF that] G(4) x by linarith
      have "\<exists>p1 fl1 p2 fl2.
         chain_entry_to_free_list ?q (free_list s) x (Some (bsize (p x))) = Some (p1, fl1) \<and>
         chain_entry_to_free_list p1 fl1 m None = Some (p2, fl2) \<and>
         freed_ok s a sz \<lparr>free_size = free_size s + sz, first_entry = hd_opt ((ys @ [x]) @ m # []) None,
           free_list = fl2, memory_entry_pool = p2\<rparr>"
        by (rule free_insert_block [OF _ p _ _ _ fit fs(1)])
          (use rep 2 False adj x gl in \<open>auto simp: fs\<close>)
      moreover have "hd_opt ((ys @ [x]) @ m # []) None = first_entry s" using D(1) by (simp add: addr_ok_def)
      moreover have "me_end (new_block p m a (a + sz - 1) x) < me_start (new_block p m a (a + sz - 1) m)"
        using ne x by (simp add: new_block_def)
      ultimately show ?thesis using 2 False q f(7)
        by (auto simp: free_outcome_def define_free_at_tail_def upd_all)
    qed
  qed
qed

lemma next_merge:
  assumes rep: "ma_rep s (ys @ x # n # zs) L" and p: "p = memory_entry_pool s" and fit: "fits s a sz"
    and x: "me_end (p x) + 1 = a" "me_start (p n) = a + sz"
    and q: "q = p(x := (p x)\<lparr>me_start := me_start (p x), me_end := a + sz - 1\<rparr>)"
  shows "free_outcome s a sz
    (define_free_before_next s q x n a sz (a + sz - 1) (bsize (p x)) (me_end (p x) + 1) True)"
proof -
  note D = ma_repD [OF rep, folded p] and f = fitsD [OF fit]
  have rep': "addr_ok p (first_entry s) ((ys @ [x]) @ n # zs)" using D(1) by simp
  note G = addr_ok_gaps [OF D(1)] and H = addr_ok_gaps [OF rep']
  have ne: "x \<noteq> n" using D(8) by auto
  define p2 where "p2 = q(n := (q n)\<lparr>me_start := a, me_end := me_end (q n)\<rparr>)"
  from free_merge [OF rep p x f(2,4) q p2_def] obtain p3 fl3 p4 fl4 p5 fl5 where c:
    "chain_entry_to_free_list p2 (free_list s) n (Some (bsize (p n))) = Some (p3, fl3)" "same_core p2 p3"
    "unchain_entry_from_free_list
       (p3(x := (p3 x)\<lparr>me_start := me_start (p x), me_end := me_end (p n)\<rparr>)) fl3 n = Some (p4, fl4)"
    "chain_entry_to_free_list (delete_entry p4 n) fl4 x (Some (bsize (p x))) = Some (p5, fl5)"
    "freed_ok s a sz \<lparr>free_size = free_size s + sz, first_entry = first_entry s, free_list = fl5,
       memory_entry_pool = p5\<rparr>" by blast
  have qn: "q n = p n" "get_size (q n) = Some (bsize (p n))" using ne H(4,5) by (simp_all add: q get_size_ok range_ok_def)
  have sr: "set_range q n a (me_end (q n)) = Some p2" using x H(4) qn by (simp add: set_range_def p2_def)
  have p3: "me_end (p3 x) = a + sz - 1" "me_start (p3 x) = me_start (p x)" "me_start (p3 n) = a" "me_end (p3 n) = me_end (p n)"
    using ne by (simp_all add: same_coreD [OF c(2)] p2_def q)
  have mx: "max (a + sz - 1) (me_end (p n)) = me_end (p n)" using x(2) H(4) by simp
  have sr2: "set_range p3 x (me_start (p x)) (me_end (p n)) =
      Some (p3(x := (p3 x)\<lparr>me_start := me_start (p x), me_end := me_end (p n)\<rparr>))"
    using x G(4) H(4) by (simp add: set_range_def)
  have "define_free_before_next s q x n a sz (a + sz - 1) (bsize (p x)) (me_end (p x) + 1) True =
      Some (\<lparr>free_size = free_size s + sz, first_entry = first_entry s, free_list = fl5,
       memory_entry_pool = p5\<rparr>, Ok ())"
    using f x qn sr c(1,3,4) by (simp add: define_free_before_next_def p3 mx sr2 upd_all)
  with c(5) show ?thesis by (simp add: free_outcome_def)
qed

lemma next_left:
  assumes rep: "ma_rep s (ys @ x # n # zs) L" and p: "p = memory_entry_pool s" and fit: "fits s a sz"
    and x: "me_end (p x) + 1 = a" "a + sz < me_start (p n)"
    and q: "q = p(x := (p x)\<lparr>me_start := me_start (p x), me_end := a + sz - 1\<rparr>)"
  shows "free_outcome s a sz
    (define_free_before_next s q x n a sz (a + sz - 1) (bsize (p x)) (me_end (p x) + 1) True)"
proof -
  note D = ma_repD [OF rep, folded p] and f = fitsD [OF fit]
  have rep': "addr_ok p (first_entry s) ((ys @ [x]) @ n # zs)" using D(1) by simp
  note H = addr_ok_gaps [OF rep']
  have ne: "x \<noteq> n" using D(8) by auto
  have "\<forall>z\<in>set (n # zs). a + sz < me_start (p z)" using x(2) H(2,4) by fastforce
  from free_after_extend [OF rep p fit x(1) this] q obtain p' fl' where c:
    "chain_entry_to_free_list q (free_list s) x (Some (bsize (p x))) = Some (p', fl')"
    "freed_ok s a sz \<lparr>free_size = free_size s + sz, first_entry = first_entry s, free_list = fl',
     memory_entry_pool = p'\<rparr>" by auto
  have "q n = p n" "me_end (q x) = a + sz - 1" using ne by (simp_all add: q)
  with f x c show ?thesis by (simp add: define_free_before_next_def free_outcome_def upd_all)
qed

lemma next_right:
  assumes rep: "ma_rep s (ys @ x # n # zs) L" and p: "p = memory_entry_pool s" and fit: "fits s a sz"
    and x: "me_end (p x) + 1 < a" "me_start (p n) = a + sz"
  shows "free_outcome s a sz
    (define_free_before_next s p x n a sz (a + sz - 1) (bsize (p x)) (me_end (p x) + 1) False)"
proof -
  note D = ma_repD [OF rep, folded p] and f = fitsD [OF fit]
  have rep': "ma_rep s ((ys @ [x]) @ n # zs) L" using rep by simp
  note G = addr_ok_gaps [OF D(1)] and H = addr_ok_gaps [OF ma_repD(1) [OF rep', folded p]]
  have ne: "x \<noteq> n" using D(8) by auto
  let ?q = "p(n := (p n)\<lparr>me_start := a, me_end := me_end (p n)\<rparr>)"
  have "\<exists>p' fl'. chain_entry_to_free_list ?q (free_list s) n (Some (bsize (p n))) = Some (p', fl') \<and>
     same_core ?q p' \<and> freed_ok s a sz \<lparr>free_size = free_size s + sz, first_entry = first_entry s,
       free_list = fl', memory_entry_pool = p'\<rparr>"
  proof (rule free_extend [OF rep' p])
    show "{a..me_end (p n)} = {me_start (p n)..me_end (p n)} \<union> {a..<a + sz}" using x(2) H(4) by auto
    show "me_end (p n) - a + 1 = bsize (p n) + sz" using x(2) H(4) unfolding bsize_def by linarith
    show "\<forall>y\<in>set (ys @ [x]). me_end (p y) + 1 < a" using G(1,4) x(1) by fastforce
  qed (use x f H in auto)
  then obtain p' fl' where c: "chain_entry_to_free_list ?q (free_list s) n (Some (bsize (p n))) = Some (p', fl')"
    "same_core ?q p'" "freed_ok s a sz \<lparr>free_size = free_size s + sz, first_entry = first_entry s,
       free_list = fl', memory_entry_pool = p'\<rparr>" by blast
  have rok: "range_ok (p x)" "range_ok (p n)" using G(4,5) H(4,5) by (simp_all add: range_ok_def)
  have px: "me_end (p' x) = me_end (p x)" "me_start (p' n) = a" "get_size (p' x) = Some (bsize (p x))"
    using ne rok by (simp_all add: same_coreD [OF c(2)] same_core_range_ok [OF c(2)] same_core_bsize [OF c(2)] get_size_ok)
  have sr: "set_range p n a (me_end (p n)) = Some ?q" using x(2) H(4) by (simp add: set_range_def)
  have ee: "uadd (me_end (p x)) 1 = Some (me_end (p x) + 1)" using G(5) by (simp add: uadd_def)
  have noop: "chain_entry_to_free_list p' fl' x (Some (bsize (p x))) = Some (p', fl')"
    by (simp add: chain_entry_to_free_list_def px)
  show ?thesis
    using f x c(1,3) by (simp add: define_free_before_next_def free_outcome_def upd_all px sr ee noop get_size_ok [OF rok(2)])
qed

lemma next_new:
  assumes rep: "ma_rep s (ys @ x # n # zs) L" and p: "p = memory_entry_pool s" and fit: "fits s a sz"
    and x: "me_end (p x) + 1 < a" "a + sz < me_start (p n)"
  shows "free_outcome s a sz
    (define_free_before_next s p x n a sz (a + sz - 1) (bsize (p x)) (me_end (p x) + 1) False)"
proof -
  note D = ma_repD [OF rep, folded p] and f = fitsD [OF fit]
  have rep': "ma_rep s ((ys @ [x]) @ n # zs) L" using rep by simp
  note G = addr_ok_gaps [OF D(1)] and H = addr_ok_gaps [OF ma_repD(1) [OF rep', folded p]]
  have ne: "x \<noteq> n" using D(8) by auto
  have sp: "s\<lparr>memory_entry_pool := p, free_list := free_list s\<rparr> = s" by (simp add: p)
  have ee: "uadd (me_end (p x)) 1 = Some (me_end (p x) + 1)" using G(5) by (simp add: uadd_def)
  note defs = define_free_before_next_def free_outcome_def upd_all ee p [symmetric]
  show ?thesis
  proof (cases rule: create_new_block [OF D(1) f(8)])
    case 1
    with f x sp show ?thesis by (simp add: defs)
  next
    case (2 p1 m)
    let ?b = "new_block p m a (a + sz - 1)"
    let ?q = "chain_after_me (set_next_entry (set_prev_entry ?b n m) m n) x m"
    have nm: "x \<noteq> m" "n \<noteq> m" using 2 by auto
    note fs = insert_mid_fields [where p = p and q = ?q, OF G(7) H(7) nm ne refl]
    have gl: "me_end (p y) + 1 < a" if "y \<in> set ys" for y using G(1) [OF that] G(4) x by linarith
    have gr: "a + sz < me_start (p z)" if "z \<in> set zs" for z using H(2) [OF that] H(4) x by linarith
    have "\<exists>p1 fl1 p2 fl2.
       chain_entry_to_free_list ?q (free_list s) x (Some (bsize (p x))) = Some (p1, fl1) \<and>
       chain_entry_to_free_list p1 fl1 m None = Some (p2, fl2) \<and>
       freed_ok s a sz \<lparr>free_size = free_size s + sz, first_entry = hd_opt ((ys @ [x]) @ m # n # zs) None,
         free_list = fl2, memory_entry_pool = p2\<rparr>"
      by (rule free_insert_block [OF rep' p _ _ _ fit fs(1)]) (use 2 x gl gr in \<open>auto simp: fs\<close>)
    moreover have "hd_opt ((ys @ [x]) @ m # n # zs) None = first_entry s" using D(1) by (simp add: addr_ok_def)
    moreover have "\<not> me_end (?b m) < me_start (?b x)" using nm x G(4) by (simp add: new_block_def)
    ultimately show ?thesis using 2 f x G(2,4) by (auto simp: defs)
  qed
qed

section \<open>A range before the first block\<close>

lemma define_free_before:
  assumes rep: "ma_rep s (x # zs) L" and p: "p = memory_entry_pool s" and fit: "fits s a sz"
    and x: "a + sz \<le> me_start (p x)"
    and prev: "search_entry_previous_address_mut p (first_entry s) a = Some None"
    and adj: "adj = (a + sz = me_start (p x))"
    and q: "q = (if adj then p(x := (p x)\<lparr>me_start := a, me_end := me_end (p x)\<rparr>) else p)"
  shows "define_free_memory s a sz =
    (case hd_opt zs None of
       Some n \<Rightarrow> define_free_before_next s q x n a sz (a + sz - 1) (bsize (p x)) (me_end (p x) + 1) adj
     | None \<Rightarrow> define_free_at_tail s q x a sz (a + sz - 1) (bsize (p x)) adj)"
proof -
  note D = ma_repD [OF rep, folded p] and f = fitsD [OF fit]
  have rep': "addr_ok p (first_entry s) ([] @ x # zs)" using D(1) by simp
  note G = addr_ok_gaps [OF rep']
  have rok: "range_ok (p x)" using G by (simp add: range_ok_def)
  have fst: "first_entry s = Some x" using D(1) by (simp add: addr_ok_def)
  have nxt: "get_next_entry p x = hd_opt zs None" by (rule get_next_entry_ok [OF rep'])
  have isf: "is_first_entry (p x)" using is_first_entry_ok [OF rep'] by simp
  have "nx q = nx p" by (auto simp: q nx_def)
  then have nq: "get_next_entry q x = hd_opt zs None"
    using nxt by (simp add: get_next_entry_def nx_def fun_eq_iff)
  have after: "uadd (me_end (p x)) 1 = Some (me_end (p x) + 1)" using G(5) by (simp add: uadd_def)
  have lt: "\<not> me_start (p x) \<le> a" "me_end (p x) \<noteq> a + sz - 1" "me_end (p x) + 1 \<noteq> a"
    using x G(4) f by auto
  have n: "\<not> me_start (q n) \<le> a" if "hd_opt zs None = Some n" for n
  proof -
    have "n \<in> set zs" using that by (rule hd_opt_SomeD)
    with G(2) [OF this] D(8) x G(4) f(1) show ?thesis by (auto simp: q)
  qed
  note defs = p [symmetric] prev [unfolded fst] fst get_size_ok [OF rok] after nq isf G(6)
  show ?thesis
  proof (cases adj)
    case True
    with adj have ax: "me_start (p x) = a + sz" by simp
    with True G(4) have "set_range p x a (me_end (p x)) = Some q" by (simp add: set_range_def q)
    with ax True f lt n show ?thesis
      by (subst define_free_memory.simps, cases "hd_opt zs None") (simp_all add: defs)
  next
    case False
    with adj q have "me_start (p x) \<noteq> a + sz" "q = p" by simp_all
    with False f lt n nxt show ?thesis
      by (subst define_free_memory.simps, cases "hd_opt zs None") (simp_all add: defs)
  qed
qed

lemma front_extend:
  assumes rep: "ma_rep s (x # zs) L" and p: "p = memory_entry_pool s" and fit: "fits s a sz"
    and x: "me_start (p x) = a + sz"
  shows "\<exists>p' fl'. chain_entry_to_free_list (p(x := (p x)\<lparr>me_start := a, me_end := me_end (p x)\<rparr>)) (free_list s) x
       (Some (bsize (p x))) = Some (p', fl') \<and>
     freed_ok s a sz \<lparr>free_size = free_size s + sz, first_entry = first_entry s, free_list = fl',
       memory_entry_pool = p'\<rparr>"
proof -
  note D = ma_repD [OF rep, folded p] and f = fitsD [OF fit]
  have rep': "ma_rep s ([] @ x # zs) L" using rep by simp
  note G = addr_ok_gaps [OF ma_repD(1) [OF rep', folded p]]
  have "\<exists>p' fl'. chain_entry_to_free_list (p(x := (p x)\<lparr>me_start := a, me_end := me_end (p x)\<rparr>)) (free_list s) x
       (Some (bsize (p x))) = Some (p', fl') \<and>
     same_core (p(x := (p x)\<lparr>me_start := a, me_end := me_end (p x)\<rparr>)) p' \<and>
     freed_ok s a sz \<lparr>free_size = free_size s + sz, first_entry = first_entry s, free_list = fl',
       memory_entry_pool = p'\<rparr>"
  proof (rule free_extend [OF rep' p])
    show "{a..me_end (p x)} = {me_start (p x)..me_end (p x)} \<union> {a..<a + sz}" using x G(4) by auto
    show "me_end (p x) - a + 1 = bsize (p x) + sz" using x G(4) unfolding bsize_def by linarith
  qed (use x f G in auto)
  then show ?thesis by blast
qed

lemma front_insert:
  assumes rep: "ma_rep s (x # zs) L" and p: "p = memory_entry_pool s" and fit: "fits s a sz"
    and x: "a + sz < me_start (p x)" and m: "m < POOL_SIZE" "m \<notin> set (x # zs)"
    and q: "q = chain_after_me (new_block p m a (a + sz - 1)) m x"
  shows "\<exists>p1 fl1 p2 fl2.
       chain_entry_to_free_list q (free_list s) x (Some (bsize (p x))) = Some (p1, fl1) \<and>
       chain_entry_to_free_list p1 fl1 m None = Some (p2, fl2) \<and>
       freed_ok s a sz \<lparr>free_size = free_size s + sz, first_entry = Some m,
         free_list = fl2, memory_entry_pool = p2\<rparr>"
proof -
  have rep': "ma_rep s ([] @ x # zs) L" using rep by simp
  note G = addr_ok_gaps [OF ma_repD(1) [OF rep', folded p]]
  have nm: "x \<noteq> m" using m by auto
  note fs = insert_first_fields [OF G(7) nm q]
  have gr: "a + sz < me_start (p z)" if "z \<in> set zs" for z using G(2) [OF that] G(4) x by linarith
  have "\<exists>p1 fl1 p2 fl2.
       chain_entry_to_free_list q (free_list s) x (Some (bsize (p x))) = Some (p1, fl1) \<and>
       chain_entry_to_free_list p1 fl1 m None = Some (p2, fl2) \<and>
       freed_ok s a sz \<lparr>free_size = free_size s + sz, first_entry = hd_opt ([] @ m # x # zs) None,
         free_list = fl2, memory_entry_pool = p2\<rparr>"
    by (rule free_insert_block [OF rep' p _ m(1) _ fit fs(1)]) (use m x gr in \<open>auto simp: fs\<close>)
  then show ?thesis by simp
qed

lemma new_block_front:
  assumes rep: "ma_rep s (x # zs) L" and p: "p = memory_entry_pool s" and m: "m \<notin> set (x # zs)"
  shows "get_prev_entry (new_block p m st en) x = None" "me_start (new_block p m st en x) = me_start (p x)"
    "me_end (new_block p m st en x) = me_end (p x)" "me_end (new_block p m st en m) = en"
    "me_start (new_block p m st en m) = st" "me_id (new_block p m st en m) = m"
proof -
  have "addr_ok p (first_entry s) ([] @ x # zs)" using ma_repD(1) [OF rep] p by simp
  from get_next_entry_ok(2) [OF this] m show "get_prev_entry (new_block p m st en) x = None"
    by (simp add: new_block_def get_prev_entry_def)
qed (use m in \<open>auto simp: new_block_def\<close>)

lemma free_front:
  assumes rep: "ma_rep s (x # zs) L" and p: "p = memory_entry_pool s" and fit: "fits s a sz"
    and x: "a + sz \<le> me_start (p x)" and adj: "adj = (a + sz = me_start (p x))"
    and q: "q = (if adj then p(x := (p x)\<lparr>me_start := a, me_end := me_end (p x)\<rparr>) else p)"
  shows "free_outcome s a sz (case hd_opt zs None of
       Some n \<Rightarrow> define_free_before_next s q x n a sz (a + sz - 1) (bsize (p x)) (me_end (p x) + 1) adj
     | None \<Rightarrow> define_free_at_tail s q x a sz (a + sz - 1) (bsize (p x)) adj)"
proof -
  note D = ma_repD [OF rep, folded p] and f = fitsD [OF fit]
  have rep': "addr_ok p (first_entry s) ([] @ x # zs)" using D(1) by simp
  note G = addr_ok_gaps [OF rep']
  have sp: "s\<lparr>memory_entry_pool := p, free_list := free_list s\<rparr> = s" "s\<lparr>memory_entry_pool := p\<rparr> = s"
    by (simp_all add: p)
  have ee: "uadd (me_end (p x)) 1 = Some (me_end (p x) + 1)" using G(5) by (simp add: uadd_def)
  have n: "q n = p n \<and> me_end (p x) + 1 < me_start (p n) \<and> a + sz \<noteq> me_start (p n)" if "hd_opt zs None = Some n" for n
    using hd_opt_SomeD [OF that] G(2,4) D(8) x by (force simp: q)
  have qe: "me_end (q x) = me_end (p x)" by (simp add: q)
  note defs = define_free_before_next_def define_free_at_tail_def free_outcome_def upd_all ee p [symmetric] qe
  show ?thesis
  proof (cases adj)
    case True
    with adj have "me_start (p x) = a + sz" by simp
    from front_extend [OF rep p fit this] True q obtain p' fl' where
      "chain_entry_to_free_list q (free_list s) x (Some (bsize (p x))) = Some (p', fl')"
      "freed_ok s a sz \<lparr>free_size = free_size s + sz, first_entry = first_entry s, free_list = fl',
       memory_entry_pool = p'\<rparr>" by auto
    with True f n show ?thesis by (cases "hd_opt zs None") (auto simp: defs)
  next
    case False
    with adj x q have qp: "q = p" and lt: "a + sz < me_start (p x)" by simp_all
    show ?thesis
    proof (cases rule: create_new_block [OF D(1) f(8)])
      case 1
      with False qp f n sp show ?thesis by (cases "hd_opt zs None") (auto simp: defs)
    next
      case (2 p1 m)
      note nb = new_block_front [OF rep p 2(3), of a "a + sz - 1"]
      from front_insert [OF rep p fit lt 2(2,3) refl] 2 False qp f n lt G(4) show ?thesis
        by (cases "hd_opt zs None") (auto simp: defs nb)
    qed
  qed
qed

section \<open>Freeing a range\<close>

lemma define_free_memory_outcome:
  assumes rep: "ma_rep s xs L" and ne: "xs \<noteq> []" and fit: "fits s a sz"
    and dis: "{a..<a + sz} \<inter> free_set s = {}"
  shows "free_outcome s a sz (define_free_memory s a sz)"
proof -
  let ?p = "memory_entry_pool s"
  note D = ma_repD [OF rep] and f = fitsD [OF fit]
  from free_range_split [OF D(1) f(2) dis [unfolded D(9)]] obtain us vs where s: "xs = us @ vs"
    "takeWhile (\<lambda>y. me_start (?p y) < a) xs = us"
    "\<forall>u\<in>set us. me_end (?p u) < a" "\<forall>v\<in>set vs. a + sz \<le> me_start (?p v)" by blast
  have "a \<in> {a..<a + sz}" using f by simp
  with dis D(9) have "a \<notin> covered ?p xs" by blast
  with search_previous_spec [OF D(1)] s(2)
  have prev: "search_entry_previous_address_mut ?p (first_entry s) a = Some (last_opt us None)" by simp
  show ?thesis
  proof (cases us rule: rev_cases)
    case Nil
    with ne s obtain x zs where vs: "vs = x # zs" "xs = x # zs" by (cases vs) auto
    show ?thesis
      using define_free_before [OF rep [unfolded vs(2)] refl fit _ _ refl refl]
        free_front [OF rep [unfolded vs(2)] refl fit _ refl refl] prev Nil s(4) vs by simp
  next
    case (snoc ys x)
    have xs: "xs = ys @ x # vs" using s(1) snoc by simp
    note rep' = rep [unfolded xs]
    have x: "me_end (?p x) < a" and prev': "search_entry_previous_address_mut ?p (first_entry s) a = Some (Some x)"
      using s(3) prev snoc by auto
    note un = define_free_after [OF rep' refl fit x s(4) prev' refl refl]
    show ?thesis
    proof (cases vs)
      case Nil
      with un free_tail [OF _ refl fit x refl refl] rep' show ?thesis by simp
    next
      case (Cons n zs)
      note rep'' = rep' [unfolded Cons]
      have n: "a + sz \<le> me_start (?p n)" using s(4) Cons by simp
      consider "me_end (?p x) + 1 = a" "me_start (?p n) = a + sz" | "me_end (?p x) + 1 = a" "a + sz < me_start (?p n)"
        | "me_end (?p x) + 1 < a" "me_start (?p n) = a + sz" | "me_end (?p x) + 1 < a" "a + sz < me_start (?p n)"
        using n x by linarith
      then show ?thesis
      proof cases
        case 1
        from next_merge [OF rep'' refl fit 1 refl] un 1 Cons show ?thesis by simp
      next
        case 2
        from next_left [OF rep'' refl fit 2 refl] un 2 Cons show ?thesis by simp
      next
        case 3
        from next_right [OF rep'' refl fit 3] un 3 Cons show ?thesis by simp
      next
        case 4
        from next_new [OF rep'' refl fit 4] un 4 Cons show ?thesis by simp
      qed
    qed
  qed
qed

text \<open>The first range given to the allocator.\<close>

lemma ma_inv_new: "ma_inv memory_allocator_new" "free_set memory_allocator_new = {}"
proof -
  have "ma_rep memory_allocator_new [] (\<lambda>_. [])"
    by (simp add: ma_rep_def memory_allocator_new_def addr_ok_def free_lists_def classes_def ids_ok_def
        memory_entry_new_def usize_range_def)
  then show "ma_inv memory_allocator_new" "free_set memory_allocator_new = {}"
    using ma_repD(9) [of memory_allocator_new "[]"] by (auto simp: ma_inv_def)
qed

lemma ma_inv_empty:
  assumes rep: "ma_rep s xs L"
  shows "free_size s = 0 \<longleftrightarrow> xs = []" "free_size s = 0 \<longleftrightarrow> free_set s = {}"
proof -
  note D = ma_repD [OF rep]
  show e: "free_size s = 0 \<longleftrightarrow> xs = []" using D(4,6) by (cases xs) (auto simp: bsize_def)
  have "covered (memory_entry_pool s) xs \<noteq> {}" if "xs \<noteq> []"
    using that D(7) by (cases xs) (auto simp: ids_ok_def range_ok_def)
  with e D(9) show "free_size s = 0 \<longleftrightarrow> free_set s = {}" by auto
qed

lemma ma_free_first:
  assumes rep: "ma_rep s [] L" and fit: "fits s a sz"
  shows "\<exists>s'. ma_free s a sz = Some (s', Ok ()) \<and> freed_ok s a sz s'"
proof -
  let ?p = "memory_entry_pool s"
  note D = ma_repD [OF rep] and f = fitsD [OF fit]
  have s0: "free_size s = 0" using D(6) by simp
  have "(0::nat) \<in> {..<POOL_SIZE}" by (simp add: POOL_SIZE_def)
  with create_memory_entry_cases [OF D(1)] obtain m where m: "m < POOL_SIZE"
    "create_memory_entry ?p = Ok (?p(m := memory_entry_new\<lparr>me_id := m, me_enabled := True\<rparr>), m)"
    by auto
  let ?q = "new_block ?p m a (a + sz - 1)"
  have L: "L k = []" for k using D(3) by (simp add: classes_def)
  have F: "free_lists ?q (free_list s) L" using D(2) unfolding free_lists_def by (simp add: L)
  have qm: "nx ?q m = None" "pv ?q m = None" "lnx ?q m = None" "lpv ?q m = None" "me_id (?q m) = m"
    "me_start (?q m) = a" "me_end (?q m) = a + sz - 1" "me_enabled (?q m)"
    by (simp_all add: block_defs)
  have en: "me_enabled (?q i) \<longleftrightarrow> i = m" if "i < POOL_SIZE" for i
    using D(1) that by (auto simp: new_block_def addr_ok_def)
  have addr: "addr_ok ?q (Some m) [m]"
    using qm en m(1) f by (auto simp: addr_ok_def ids_ok_def range_ok_def)
  then have ids: "ids_ok ?q (insert m {})" by (simp add: addr_ok_def)
  from chain_new_spec [OF F D(3) _ _ qm(3,4), of ] ids obtain p' fl' L' where
    c: "chain_entry_to_free_list ?q (free_list s) m None = Some (p', fl')" "same_core ?q p'" "free_lists p' fl' L'"
      "classes ((\<lambda>i. bsize (?p i))(m := bsize (?q m))) {m} L'" by auto
  have b: "bsize (?q m) = sz" using qm f by (simp add: bsize_def)
  have "ma_rep \<lparr>free_size = sz, first_entry = Some m, free_list = fl', memory_entry_pool = p'\<rparr> [m] L'"
    by (rule ma_rep_core [OF addr c(2,3), of "(\<lambda>i. bsize (?p i))(m := bsize (?q m))"]) (use c(4) b f in auto)
  moreover have "{a..a + sz - 1} = {a..<a + sz}" using f(2) by auto
  with ma_repD(9) [OF calculation] have "free_set \<lparr>free_size = sz, first_entry = Some m, free_list = fl',
      memory_entry_pool = p'\<rparr> = {a..<a + sz}"
    by (simp add: same_coreD [OF c(2)] qm)
  moreover have "ma_free s a sz = Some (\<lparr>free_size = sz, first_entry = Some m, free_list = fl',
      memory_entry_pool = p'\<rparr>, Ok ())"
    using s0 f m(2) c(1) same_coreD(3) [OF c(2), of m] qm(5)
    by (simp add: ma_free_def set_range_new_block)
  ultimately show ?thesis using D(9) s0 by (auto simp: freed_ok_def ma_inv_def)
qed

text \<open>
  \<open>free\<close> adds \<open>size\<close> to \<open>free_size\<close> although \<open>define_free_memory\<close> has done so, so after the
  first range the counter grows by twice the size.
\<close>

lemma ma_free_outcome:
  assumes inv: "ma_inv s" and fit: "fits s a (2 * sz)" "2 \<le> sz" and dis: "{a..<a + sz} \<inter> free_set s = {}"
  shows "(\<exists>s'. ma_free s a sz = Some (s', Ok ()) \<and> ma_inv s' \<and> free_set s' = free_set s \<union> {a..<a + sz} \<and>
      free_size s' = (if free_set s = {} then sz else free_size s + 2 * sz)) \<or>
    (ma_free s a sz = Some (s, Err NoEntry) \<and> (\<forall>i<POOL_SIZE. me_enabled (memory_entry_pool s i)))"
proof -
  from inv obtain xs L where rep: "ma_rep s xs L" by (auto simp: ma_inv_def)
  have fit': "fits s a sz" using fit by (auto simp: fits_def)
  show ?thesis
  proof (cases "xs = []")
    case True
    with ma_free_first [OF _ fit'] rep ma_inv_empty [OF rep] show ?thesis by (auto simp: freed_ok_def)
  next
    case False
    with ma_inv_empty [OF rep] have s0: "free_size s \<noteq> 0" "free_set s \<noteq> {}" by auto
    from define_free_memory_outcome [OF rep False fit' dis] show ?thesis unfolding free_outcome_def
    proof (elim disjE exE conjE)
      fix s' assume d: "define_free_memory s a sz = Some (s', Ok ())" "freed_ok s a sz s'"
      then have u: "uadd (free_size s') sz = Some (free_size s + 2 * sz)"
        using fit by (simp add: freed_ok_def uadd_def fits_def)
      from d(2) obtain xs' L' where r: "ma_rep s' xs' L'" by (auto simp: freed_ok_def ma_inv_def)
      then have "ma_rep (s'\<lparr>free_size := free_size s + 2 * sz\<rparr>) xs' L'"
        using d(2) fit s0 ma_repD(6) [OF r] by (auto simp: ma_rep_def freed_ok_def fits_def)
      moreover have "free_set (s'\<lparr>free_size := f\<rparr>) = free_set s'" for f by (simp add: free_set_def)
      ultimately show ?thesis
        using d s0 u by (auto simp: ma_free_def freed_ok_def ma_inv_def)
    next
      assume "define_free_memory s a sz = Some (s, Err NoEntry)" "\<forall>i<POOL_SIZE. me_enabled (memory_entry_pool s i)"
      with s0 show ?thesis by (simp add: ma_free_def)
    qed
  qed
qed

end
