(* ===== verification/Memory_Pool.thy ===== *)
theory Memory_Pool
  imports Prelude
begin

text \<open>
  The contract between the memory allocator and its clients (the page-table code, the heap,
  the VM loader): an allocation takes an aligned range out of the set of free addresses, a
  failed one changes nothing, and a release gives the range back. The lemmas of the locale
  are what clients rely on; \<open>Page_Alloc\<close> interprets it on the model of
  \<open>memory_allocator.rs\<close>.
\<close>

text \<open>A client that makes several requests and stops at the first failure.\<close>

fun alloc_all ::
    "('s \<Rightarrow> nat \<Rightarrow> nat \<Rightarrow> ('s \<times> (nat, 'e) result) option) \<Rightarrow> 's \<Rightarrow> (nat \<times> nat) list \<Rightarrow>
     ('s \<times> (nat list, 'e) result) option" where
  "alloc_all alloc s [] = ret (s, Ok [])"
| "alloc_all alloc s ((sz, k) # rs) = do {
     (s', r) \<leftarrow> alloc s sz k;
     (case r of
        Err e \<Rightarrow> ret (s', Err e)
      | Ok a \<Rightarrow> do {
          (s'', q) \<leftarrow> alloc_all alloc s' rs;
          ret (s'', case q of Ok as \<Rightarrow> Ok (a # as) | Err e \<Rightarrow> Err e) }) }"

definition ranges :: "nat list \<Rightarrow> (nat \<times> nat) list \<Rightarrow> nat set list" where
  "ranges as rs = map2 (\<lambda>a (sz, k). {a..<a + sz}) as rs"

lemma ranges_simps [simp]:
  "ranges [] rs = []" "ranges as [] = []" "ranges (a # as) ((sz, k) # rs) = {a..<a + sz} # ranges as rs"
  by (simp_all add: ranges_def)

definition pairwise_disjoint :: "'a set list \<Rightarrow> bool" where
  "pairwise_disjoint = sorted_wrt (\<lambda>A B. A \<inter> B = {})"

locale memory_pool =
  fixes inv :: "'s \<Rightarrow> bool" and free :: "'s \<Rightarrow> nat set"
    and alloc :: "'s \<Rightarrow> nat \<Rightarrow> nat \<Rightarrow> ('s \<times> (nat, 'e) result) option"
  assumes alloc_Ok: "\<lbrakk>inv s; alloc s sz k = Some (s', Ok a)\<rbrakk> \<Longrightarrow>
      inv s' \<and> 2 ^ k dvd a \<and> {a..<a + sz} \<subseteq> free s \<and> free s' = free s - {a..<a + sz}"
    and alloc_Err: "\<lbrakk>inv s; alloc s sz k = Some (s', Err e)\<rbrakk> \<Longrightarrow> s' = s"
begin

lemma alloc_disjoint_free:
  "\<lbrakk>inv s; alloc s sz k = Some (s', Ok a)\<rbrakk> \<Longrightarrow> {a..<a + sz} \<inter> free s' = {}"
  using alloc_Ok by blast

lemma alloc_inv: "\<lbrakk>inv s; alloc s sz k = Some (s', r)\<rbrakk> \<Longrightarrow> inv s' \<and> free s' \<subseteq> free s"
  by (cases r) (use alloc_Ok alloc_Err in fastforce)+

text \<open>The blocks of successive requests are aligned, disjoint, and taken from the free set.\<close>

lemma alloc_all_Ok:
  "\<lbrakk>inv s; alloc_all alloc s rs = Some (s', Ok as)\<rbrakk> \<Longrightarrow>
     length as = length rs \<and> inv s' \<and> pairwise_disjoint (ranges as rs) \<and>
     \<Union> (set (ranges as rs)) \<subseteq> free s \<and> free s' = free s - \<Union> (set (ranges as rs)) \<and>
     list_all2 (\<lambda>a (sz, k). 2 ^ k dvd a) as rs"
proof (induction rs arbitrary: s "as")
  case Nil
  then show ?case by (simp add: pairwise_disjoint_def)
next
  case (Cons r rs)
  obtain sz k where r: "r = (sz, k)" by (cases r)
  from Cons.prems(2) r obtain s1 a as1 where st: "alloc s sz k = Some (s1, Ok a)"
    "alloc_all alloc s1 rs = Some (s', Ok as1)" "as = a # as1"
    by (auto simp: bind_eq_Some_conv elim!: case_result_eqE)
  note h = alloc_Ok [OF Cons.prems(1) st(1)]
  from Cons.IH [OF _ st(2)] h have IH: "length as1 = length rs" "inv s'" "pairwise_disjoint (ranges as1 rs)"
    "\<Union> (set (ranges as1 rs)) \<subseteq> free s1" "free s' = free s1 - \<Union> (set (ranges as1 rs))"
    "list_all2 (\<lambda>a (sz, k). 2 ^ k dvd a) as1 rs" by auto
  have "\<forall>B\<in>set (ranges as1 rs). {a..<a + sz} \<inter> B = {}" using IH(4) h by blast
  with IH(3) have "pairwise_disjoint (ranges as (r # rs))" by (simp add: pairwise_disjoint_def st r)
  with IH h st r show ?case by auto
qed

end

text \<open>A pool that also takes memory back; \<open>room s a sz\<close> is what a release may assume.\<close>

locale releasing_pool = memory_pool +
  fixes release :: "'a \<Rightarrow> nat \<Rightarrow> nat \<Rightarrow> ('a \<times> (unit, 'b) result) option"
    and room :: "'a \<Rightarrow> nat \<Rightarrow> nat \<Rightarrow> bool"
  assumes release_Ok: "\<lbrakk>inv s; room s a sz; {a..<a + sz} \<inter> free s = {}; release s a sz = Some (s', Ok u)\<rbrakk> \<Longrightarrow>
      inv s' \<and> free s' = free s \<union> {a..<a + sz}"
    and release_returns: "\<lbrakk>inv s; room s a sz; {a..<a + sz} \<inter> free s = {}\<rbrakk> \<Longrightarrow> release s a sz \<noteq> None"
begin

lemma alloc_release:
  assumes "inv s" "alloc s sz k = Some (s1, Ok a)" "room s1 a sz" "release s1 a sz = Some (s2, Ok u)"
  shows "inv s2 \<and> free s2 = free s"
proof -
  note h = alloc_Ok [OF assms(1,2)]
  have "{a..<a + sz} \<inter> free s1 = {}" using h by blast
  from release_Ok [OF _ assms(3) this assms(4)] h show ?thesis by blast
qed

end

end
