(* ===== verification/Page_Alloc.thy ===== *)
theory Page_Alloc
  imports Allocator_Free Memory_Pool "HOL-Library.Code_Target_Numeral"
begin

text \<open>
  The users of the allocator in \<open>src/src/main.rs\<close>: \<open>allocate_pages\<close>, \<open>free_pages\<close>, the global
  heap (\<open>GlobalAlloc\<close>) and \<open>setup_memory\<close>, which hands the RAM to the allocator at boot and
  takes the device tree, the loaded segments and the stack out of it. The operations run
  with the lock of \<open>MEMORY_ALLOCATOR\<close> held (\<open>Spin_Lock\<close>), so they are state transformers.
  A \<open>.expect(...)\<close> on an error is a panic.
\<close>

definition PAGE_SIZE :: usize where
  "PAGE_SIZE = 2 ^ PAGE_SHIFT"

definition STACK_SIZE :: usize where
  "STACK_SIZE = 0x10000"

text \<open>\<open>number_of_pages << PAGE_SHIFT\<close>: bits shifted out are lost without a panic.\<close>

definition pages_to_bytes :: "usize \<Rightarrow> usize" where
  "pages_to_bytes n = n * 2 ^ PAGE_SHIFT mod usize_range"

definition allocate_pages :: "memory_allocator \<Rightarrow> usize \<Rightarrow> usize \<Rightarrow> usize ma_result" where
  "allocate_pages s number_of_pages align = do {
     (s', r) \<leftarrow> allocate s (pages_to_bytes number_of_pages) align;
     (case r of
        Ok a \<Rightarrow> ret (s', Ok a)
      | Err e \<Rightarrow> ret (s', Err e)) }"

definition free_pages :: "memory_allocator \<Rightarrow> usize \<Rightarrow> usize \<Rightarrow> memory_allocator option" where
  "free_pages s address number_of_pages = do {
     (s', _) \<leftarrow> ma_free s address (pages_to_bytes number_of_pages);
     ret s' }"

text \<open>\<open>GlobalAlloc\<close>; the null pointer is 0.\<close>

definition global_alloc :: "memory_allocator \<Rightarrow> usize \<Rightarrow> usize \<Rightarrow> (memory_allocator \<times> usize) option" where
  "global_alloc s layout_size layout_align = do {
     (s', r) \<leftarrow> allocate s layout_size layout_align;
     (case r of Ok address \<Rightarrow> ret (s', address) | Err e \<Rightarrow> ret (s', 0)) }"

definition global_dealloc :: "memory_allocator \<Rightarrow> usize \<Rightarrow> usize \<Rightarrow> memory_allocator option" where
  "global_dealloc s ptr layout_size = do { (s', _) \<leftarrow> ma_free s ptr layout_size; ret s' }"

section \<open>Boot-time set-up\<close>

definition ELF_PROGRAM_HEADER_SEGMENT_LOAD :: u32 where
  "ELF_PROGRAM_HEADER_SEGMENT_LOAD = 1"

text \<open>What \<open>setup_memory\<close> reads from a program header.\<close>

record load_segment =
  seg_type :: u32
  seg_paddr :: usize
  seg_memsz :: usize

definition ma_expect :: "'a ma_result \<Rightarrow> memory_allocator option" where
  "ma_expect r = do { (s, v) \<leftarrow> r; (case v of Ok _ \<Rightarrow> ret s | Err _ \<Rightarrow> panic) }"

fun reserve_segments :: "memory_allocator \<Rightarrow> load_segment list \<Rightarrow> memory_allocator option" where
  "reserve_segments s [] = ret s"
| "reserve_segments s (p # ps) =
     (if seg_type p = ELF_PROGRAM_HEADER_SEGMENT_LOAD then do {
        _ \<leftarrow> uadd (seg_paddr p) (seg_memsz p);
        s \<leftarrow> ma_expect (reserve_memory s (seg_paddr p) (seg_memsz p) 0);
        reserve_segments s ps }
      else reserve_segments s ps)"

definition setup_memory ::
    "memory_allocator \<Rightarrow> usize \<Rightarrow> usize \<Rightarrow> usize \<Rightarrow> usize \<Rightarrow> load_segment list \<Rightarrow> usize \<Rightarrow> memory_allocator option"
  where
  "setup_memory s start sz dtb_address dtb_size segs stack_pointer = do {
     _ \<leftarrow> uadd start sz;
     s \<leftarrow> ma_expect (ma_free s start sz);
     _ \<leftarrow> uadd dtb_address dtb_size;
     s \<leftarrow> ma_expect (reserve_memory s dtb_address dtb_size 0);
     s \<leftarrow> reserve_segments s segs;
     t \<leftarrow> usub stack_pointer 1;
     stack_end \<leftarrow> uadd (uand_not t PAGE_SIZE) PAGE_SIZE;
     stack_start \<leftarrow> usub stack_end STACK_SIZE;
     ma_expect (reserve_memory s stack_start STACK_SIZE 0) }"

section \<open>The allocator as a memory pool\<close>

definition release_room :: "memory_allocator \<Rightarrow> usize \<Rightarrow> usize \<Rightarrow> bool" where
  "release_room s a sz \<longleftrightarrow> 2 \<le> sz \<and> fits s a (2 * sz)"

lemma allocate_pool_law:
  assumes "ma_inv s" "allocate s sz k = Some (s', Ok a)"
  shows "ma_inv s' \<and> 2 ^ k dvd a \<and> {a..<a + sz} \<subseteq> free_set s \<and> free_set s' = free_set s - {a..<a + sz}"
  using allocate_outcome [OF assms] by (simp add: alloc_outcome_def used_ok_def)

interpretation ma: releasing_pool ma_inv free_set allocate ma_free release_room
proof unfold_locales
  fix s s' :: memory_allocator and sz k a :: nat
  show "\<lbrakk>ma_inv s; allocate s sz k = Some (s', Ok a)\<rbrakk> \<Longrightarrow>
      ma_inv s' \<and> 2 ^ k dvd a \<and> {a..<a + sz} \<subseteq> free_set s \<and> free_set s' = free_set s - {a..<a + sz}"
    by (rule allocate_pool_law)
next
  fix s s' :: memory_allocator and sz k :: nat and e
  show "\<lbrakk>ma_inv s; allocate s sz k = Some (s', Err e)\<rbrakk> \<Longrightarrow> s' = s"
    using allocate_outcome by (fastforce simp: alloc_outcome_def)
next
  fix s s' :: memory_allocator and a sz :: nat and u
  assume h: "ma_inv s" "release_room s a sz" "{a..<a + sz} \<inter> free_set s = {}"
  from ma_free_outcome [OF h(1) _ _ h(3)] h(2) show "ma_free s a sz \<noteq> None"
    by (auto simp: release_room_def)
  assume "ma_free s a sz = Some (s', Ok u)"
  with ma_free_outcome [OF h(1) _ _ h(3)] h(2) show "ma_inv s' \<and> free_set s' = free_set s \<union> {a..<a + sz}"
    by (auto simp: release_room_def)
qed

lemma allocate_pages_eq: "allocate_pages s n k = allocate s (pages_to_bytes n) k"
  unfolding allocate_pages_def
  by (cases "allocate s (pages_to_bytes n) k") (auto split: result.splits)

end
