(* ===== verification/Allocator_Spec.thy ===== *)
theory Allocator_Spec
  imports Page_Alloc
begin

text \<open>
  The properties of the memory allocator and of its users in \<open>main.rs\<close>, with witnesses on
  an allocator that has been given 256 MiB of RAM at \<open>0x40000000\<close>.
\<close>

section \<open>Counting free bytes\<close>

lemma card_covered: "card (covered p xs) \<le> total_size p xs"
proof (induction xs)
  case (Cons x xs)
  have "card (covered p (x # xs)) \<le> card {me_start (p x)..me_end (p x)} + card (covered p xs)"
    unfolding covered_Cons by (rule card_Un_le)
  also have "card {me_start (p x)..me_end (p x)} \<le> bsize (p x)" by (simp add: bsize_def)
  finally show ?case using Cons by simp
qed simp

lemma card_free_set: "ma_inv s \<Longrightarrow> card (free_set s) \<le> free_size s"
  using card_covered ma_repD(4,9) by (fastforce simp: ma_inv_def intro: order_trans)

lemma alloc_page_at:
  assumes rep: "ma_rep s xs L" and g: "page_granular s" and k: "PAGE_SHIFT \<le> k"
    and x: "x \<in> set xs" "suitable sz k (memory_entry_pool s x)"
    and sz: "0 < sz" "2 ^ PAGE_SHIFT dvd sz" "sz < card (free_set s)"
    and room: "\<exists>i<POOL_SIZE. \<not> me_enabled (memory_entry_pool s i)"
  shows "\<exists>s' a. alloc_at s sz k x = Some (s', Ok a) \<and> 2 ^ k dvd a \<and> used_ok s a sz s' \<and> page_granular s'"
proof -
  let ?e = "memory_entry_pool s x" and ?a = "align_up (me_start (memory_entry_pool s x)) k"
  from x(1) obtain ys zs where xs: "xs = ys @ x # zs" by (meson split_list)
  note rep' = rep [unfolded xs]
  have da: "2 ^ PAGE_SHIFT dvd ?a"
    using align_up_bounds(3) [of k "me_start ?e"] le_imp_power_dvd [OF k] by (rule dvd_trans [rotated])
  have req: "request_in ?e ?a sz"
    using x(2) sz(1) align_up_bounds(1) [of "me_start ?e" k] by (simp add: suitable_def request_in_def)
  have nb: "no_byte_left ?e ?a sz"
    by (rule page_no_byte_left [OF page_blocks [OF rep x(1) g] da sz(2)])
  have "free_set s \<noteq> {?a..<?a + sz}" using sz(3) by auto
  moreover have "set xs \<subset> {..<POOL_SIZE}"
    using room ma_repD(1) [OF rep] by (auto simp: addr_ok_def ids_ok_def)
  then have "card (set xs) \<noteq> POOL_SIZE" using psubset_card_mono [of "{..<POOL_SIZE}" "set xs"] by auto
  ultimately obtain s' where s': "define_used_in_entry s ?a sz x = Some (s', Ok ())" "used_ok s ?a sz s'"
    using define_used_in_entry_spec [OF rep' req nb] xs by auto
  from page_granular_used [OF g s'(2) da sz(2)] s' align_up_bounds(3) [of k "me_start ?e"] show ?thesis
    by (auto simp: alloc_at_def Let_def)
qed

lemma used_in_entry_no_memory:
  "define_used_in_entry s a sz x \<noteq> Some (s', Err NoMemory)"
  by (auto simp: define_used_in_entry_def Let_def used_finish_def bind_eq_Some_conv create_memory_entry.simps
      split: if_splits result.splits option.splits)

lemma alloc_at_no_memory: "alloc_at s sz k x \<noteq> Some (s', Err NoMemory)"
  using used_in_entry_no_memory by (auto simp: alloc_at_def Let_def split: result.splits)

section \<open>Boot\<close>

lemma ma_expect_Some: "ma_expect r = Some s \<longleftrightarrow> (\<exists>v. r = Some (s, Ok v))"
  by (auto simp: ma_expect_def bind_eq_Some_conv elim!: case_result_eqE)

lemma reserve_exact:
  assumes "ma_inv s" "reserve_memory s a sz 0 = Some (s', Ok u)"
  shows "used_ok s a sz s'"
  using define_used_unaligned [OF assms(1)] assms(2) by (auto simp: reserve_memory_def)

definition load_ranges :: "load_segment list \<Rightarrow> nat set" where
  "load_ranges ps = (\<Union>p\<in>{p \<in> set ps. seg_type p = ELF_PROGRAM_HEADER_SEGMENT_LOAD}.
     {seg_paddr p..<seg_paddr p + seg_memsz p})"

lemma reserve_segments_spec:
  "\<lbrakk>ma_inv s; reserve_segments s ps = Some s'\<rbrakk> \<Longrightarrow>
     ma_inv s' \<and> load_ranges ps \<subseteq> free_set s \<and> free_set s' = free_set s - load_ranges ps"
proof (induction ps arbitrary: s)
  case Nil
  then show ?case by (simp add: load_ranges_def)
next
  case (Cons p ps)
  show ?case
  proof (cases "seg_type p = ELF_PROGRAM_HEADER_SEGMENT_LOAD")
    case True
    then obtain s1 u where s1: "reserve_memory s (seg_paddr p) (seg_memsz p) 0 = Some (s1, Ok u)"
      "reserve_segments s1 ps = Some s'"
      using Cons.prems(2) by (auto simp: bind_eq_Some_conv ma_expect_Some)
    have u: "used_ok s (seg_paddr p) (seg_memsz p) s1" by (rule reserve_exact [OF Cons.prems(1) s1(1)])
    have "load_ranges (p # ps) = {seg_paddr p..<seg_paddr p + seg_memsz p} \<union> load_ranges ps"
      using True by (auto simp: load_ranges_def)
    with Cons.IH [OF _ s1(2)] u show ?thesis by (auto simp: used_ok_def)
  next
    case False
    then have "load_ranges (p # ps) = load_ranges ps" by (auto simp: load_ranges_def)
    with Cons False show ?thesis by simp
  qed
qed

lemma ma_free_new:
  assumes "ma_free memory_allocator_new a sz = Some (s', Ok u)"
  shows "ma_inv s' \<and> free_set s' = {a..<a + sz} \<and> free_size s' = sz"
proof -
  have "fits memory_allocator_new a sz"
    using assms by (auto simp: ma_free_def memory_allocator_new_def fits_def bind_eq_Some_conv get_end_address_def
        checked_simps set_range_def split: result.splits)
  moreover obtain L where "ma_rep memory_allocator_new [] L"
    using ma_inv_new ma_inv_empty by (force simp: ma_inv_def)
  ultimately show ?thesis using ma_free_first [of memory_allocator_new L a sz] assms ma_inv_new(2)
    by (auto simp: freed_ok_def memory_allocator_new_def)
qed

section \<open>An allocator with RAM\<close>

definition ram_allocator :: memory_allocator where
  "ram_allocator = (case ma_free memory_allocator_new 0x40000000 0x10000000 of
     Some (s, _) \<Rightarrow> s | None \<Rightarrow> memory_allocator_new)"

lemma ram_allocator_free: "ma_free memory_allocator_new 0x40000000 0x10000000 = Some (ram_allocator, Ok ())"
proof -
  obtain L where "ma_rep memory_allocator_new [] L"
    using ma_inv_new ma_inv_empty by (force simp: ma_inv_def)
  moreover have "fits memory_allocator_new 0x40000000 0x10000000"
    by (simp add: fits_def usize_range_def memory_allocator_new_def)
  ultimately show ?thesis using ma_free_first by (fastforce simp: ram_allocator_def)
qed

lemmas ram = ma_free_new [OF ram_allocator_free, simplified]

lemma ram_granular: "page_granular ram_allocator"
proof -
  have "(a \<in> {0x40000000..<0x50000000}) = (a div 2 ^ PAGE_SHIFT \<in> {0x40000..<0x50000})" for a :: nat
    by (simp add: PAGE_SHIFT_def less_eq_div_iff_mult_less_eq div_less_iff_less_mult)
  then show ?thesis using ram unfolding page_granular_def by auto
qed

section \<open>Properties\<close>

text \<open>C1: an allocation that succeeds returns an address with the requested alignment whose
  whole range was free, removes exactly this range from the free addresses, keeps the
  representation invariant and lowers \<open>free_size\<close> by the size; one that fails leaves the
  allocator unchanged.\<close>

theorem allocate_sound:
  assumes "ma_inv s" "allocate s sz k = Some (s', r)"
  shows "case r of
      Ok a \<Rightarrow> 2 ^ k dvd a \<and> ma_inv s' \<and> {a..<a + sz} \<subseteq> free_set s \<and>
        free_set s' = free_set s - {a..<a + sz} \<and> free_size s' = free_size s - sz
    | Err e \<Rightarrow> s' = s"
  using allocate_outcome [OF assms] by (cases r) (simp_all add: alloc_outcome_def used_ok_def)

lemma ram_allocate: "map_option snd (allocate ram_allocator 0x3000 14) = Some (Ok 0x40000000)"
  by code_simp

theorem allocate_sound_witness:
  "\<exists>s'. allocate ram_allocator 0x3000 14 = Some (s', Ok 0x40000000) \<and> ma_inv s' \<and>
     free_set s' = {0x40003000..<0x50000000}"
proof -
  from ram_allocate obtain s' where s': "allocate ram_allocator 0x3000 14 = Some (s', Ok 0x40000000)" by auto
  from allocate_sound [OF _ s'] ram have "ma_inv s'" "free_set s' = {0x40000000..<0x50000000} - {0x40000000..<0x40003000}"
    by auto
  moreover have "{0x40000000..<0x50000000} - {0x40000000..<0x40003000} = {0x40003000..<0x50000000::nat}" by auto
  ultimately show ?thesis using s' by auto
qed

text \<open>C2: a request for at least one byte, whose alignment does not overflow on any block, is answered with
  \<open>NoMemory\<close> exactly when it is not smaller than the counter \<open>free_size\<close> or no aligned range of its
  size is free. A request for all of the memory is therefore refused.\<close>

theorem allocate_complete:
  assumes "ma_inv s" "0 < sz" "below_top s k"
  shows "allocate s sz k = Some (s, Err NoMemory) \<longleftrightarrow>
    free_size s \<le> sz \<or> \<not> (\<exists>a. 2 ^ k dvd a \<and> {a..<a + sz} \<subseteq> free_set s)"
proof (cases "free_size s \<le> sz")
  case True
  then show ?thesis using assms(2) by (simp add: allocate_def)
next
  case False
  from assms(1) obtain xs L where rep: "ma_rep s xs L" by (auto simp: ma_inv_def)
  from False have "sz < free_size s" by simp
  from allocate_search [OF rep assms(2) this assms(3)] show ?thesis
  proof (elim disjE bexE conjE)
    fix x assume x: "x \<in> set xs" "suitable sz k (memory_entry_pool s x)" "allocate s sz k = alloc_at s sz k x"
    have "range_ok (memory_entry_pool s x)" using ma_repD(7) [OF rep] x(1) by (simp add: ids_ok_def)
    from suitable_iff [OF this assms(2), where k = k] x(2) obtain a where
      "2 ^ k dvd a" "request_in (memory_entry_pool s x) a sz" by auto
    moreover from this x(1) have "{a..<a + sz} \<subseteq> free_set s"
      unfolding ma_repD(9) [OF rep] covered_def request_in_def by fastforce
    ultimately show ?thesis using x(3) alloc_at_no_memory False by metis
  qed (use False in simp)
qed

theorem allocate_complete_witness:
  "allocate ram_allocator 0x8000000 28 = Some (ram_allocator, Err NoMemory) \<longleftrightarrow>
     free_size ram_allocator \<le> 0x8000000 \<or> \<not> (\<exists>a. 2 ^ 28 dvd a \<and> {a..<a + 0x8000000} \<subseteq> free_set ram_allocator)"
  by (rule allocate_complete) (use ram in \<open>auto simp: below_top_def usize_range_def\<close>)

text \<open>C3: page allocations do not fail without a reason: on an allocator whose free memory
  consists of whole pages, a request for one or more pages with an alignment of at least a page that
  does not overflow succeeds, without a panic, whenever an aligned range is free, a pool entry is
  left and it asks for less than all of the free memory; the free memory still consists of whole pages
  afterwards.\<close>

theorem allocate_pages_succeeds:
  assumes "ma_inv s" "page_granular s" "PAGE_SHIFT \<le> k" "below_top s k" "0 < n"
    and sz: "n * 2 ^ PAGE_SHIFT < card (free_set s)"
    and room: "\<exists>i<POOL_SIZE. \<not> me_enabled (memory_entry_pool s i)"
    and free: "\<exists>a. 2 ^ k dvd a \<and> {a..<a + n * 2 ^ PAGE_SHIFT} \<subseteq> free_set s"
  shows "\<exists>s' a. allocate_pages s n k = Some (s', Ok a) \<and> 2 ^ k dvd a \<and>
    used_ok s a (n * 2 ^ PAGE_SHIFT) s' \<and> page_granular s'"
proof -
  from assms(1) obtain xs L where rep: "ma_rep s xs L" by (auto simp: ma_inv_def)
  let ?sz = "n * 2 ^ PAGE_SHIFT"
  have "card (free_set s) \<le> free_size s" "free_size s < usize_range"
    using card_free_set [OF assms(1)] ma_repD(5) [OF rep] by auto
  with sz have lt: "?sz < free_size s" "pages_to_bytes n = ?sz" by (simp_all add: pages_to_bytes_def)
  from allocate_search [OF rep _ lt(1) assms(4)] free assms(5)
  obtain x where x: "x \<in> set xs" "suitable ?sz k (memory_entry_pool s x)" "allocate s ?sz k = alloc_at s ?sz k x"
    by auto
  from alloc_page_at [OF rep assms(2,3) x(1,2) _ _ sz room] assms(5) x(3) lt(2) show ?thesis
    by (auto simp: allocate_pages_eq)
qed

lemma ram_entry: "\<not> me_enabled (memory_entry_pool ram_allocator 1)"
  by code_simp

theorem allocate_pages_succeeds_witness:
  "\<exists>s' a. allocate_pages ram_allocator 4 12 = Some (s', Ok a) \<and> 2 ^ 12 dvd a \<and>
     used_ok ram_allocator a (4 * 2 ^ PAGE_SHIFT) s' \<and> page_granular s'"
proof (rule allocate_pages_succeeds)
  show "\<exists>i<POOL_SIZE. \<not> me_enabled (memory_entry_pool ram_allocator i)"
    using ram_entry by (intro exI [where x = 1]) (simp add: POOL_SIZE_def)
  show "\<exists>a. 2 ^ 12 dvd a \<and> {a..<a + 4 * 2 ^ PAGE_SHIFT} \<subseteq> free_set ram_allocator"
    using ram by (intro exI [where x = "0x40000000"]) (auto simp: PAGE_SHIFT_def)
qed (use ram ram_granular in \<open>auto simp: PAGE_SHIFT_def below_top_def usize_range_def\<close>)

text \<open>C4: a reservation that succeeds removes a range which is aligned to the order asked for,
  contains the requested range and is longer by less than one alignment unit on either side;
  a failed one leaves the allocator unchanged.\<close>

theorem reserve_memory_sound:
  assumes "ma_inv s" "a < usize_range" "reserve_memory s a sz k = Some (s', r)"
  shows "case r of
      Ok u \<Rightarrow> \<exists>a' sz'. 2 ^ k dvd a' \<and> 2 ^ k dvd sz' \<and> {a..<a + sz} \<subseteq> {a'..<a' + sz'} \<and> a < a' + 2 ^ k \<and>
        a' + sz' < a + sz + 2 ^ k \<and> ma_inv s' \<and> {a'..<a' + sz'} \<subseteq> free_set s \<and>
        free_set s' = free_set s - {a'..<a' + sz'} \<and> free_size s' = free_size s - sz'
    | Err e \<Rightarrow> s' = s"
proof -
  from reserve_memory_outcome [OF assms] show ?thesis
    unfolding used_ok_def by (elim disjE exE conjE) (simp, blast, simp)
qed

lemma ram_reserve: "map_option snd (reserve_memory ram_allocator 0x40123456 0x200 12) = Some (Ok ())"
  by code_simp

theorem reserve_memory_sound_witness:
  "\<exists>s' a' sz'. reserve_memory ram_allocator 0x40123456 0x200 12 = Some (s', Ok ()) \<and>
     {0x40123456..<0x40123656} \<subseteq> {a'..<a' + sz'} \<and> free_set s' = free_set ram_allocator - {a'..<a' + sz'}"
proof -
  from ram_reserve obtain s' where s': "reserve_memory ram_allocator 0x40123456 0x200 12 = Some (s', Ok ())" by auto
  from reserve_memory_sound [OF _ _ s'] ram show ?thesis
    using s' by (auto simp: usize_range_def)
qed

text \<open>C5: freeing a range of at least two bytes, none of which is free, either adds exactly this range to the
  free addresses, merging it with the blocks it touches, or fails with \<open>NoEntry\<close> and changes
  nothing, the latter only when all pool entries are in use; twice the size has to fit behind the start
  and on the counter. The counter \<open>free_size\<close> becomes the size for the first range and grows by
  twice the size for every other.\<close>

theorem free_sound:
  assumes "ma_inv s" "2 \<le> sz" "a + 2 * sz < usize_range" "free_size s + 2 * sz < usize_range"
    "{a..<a + sz} \<inter> free_set s = {}"
  shows "(\<exists>s'. ma_free s a sz = Some (s', Ok ()) \<and> ma_inv s' \<and> free_set s' = free_set s \<union> {a..<a + sz} \<and>
      free_size s' = (if free_set s = {} then sz else free_size s + 2 * sz)) \<or>
    (ma_free s a sz = Some (s, Err NoEntry) \<and> (\<forall>i<POOL_SIZE. me_enabled (memory_entry_pool s i)))"
  by (rule ma_free_outcome) (use assms in \<open>auto simp: fits_def\<close>)

theorem free_sound_witness:
  "\<exists>s'. ma_free ram_allocator 0x60000000 0x1000 = Some (s', Ok ()) \<and>
     free_set s' = {0x40000000..<0x50000000} \<union> {0x60000000..<0x60001000} \<and> free_size s' = 0x10002000"
proof -
  have "\<not> (\<forall>i<POOL_SIZE. me_enabled (memory_entry_pool ram_allocator i))"
    using ram_entry by (intro notI, elim allE [where x = 1]) (simp add: POOL_SIZE_def)
  with free_sound [of ram_allocator "0x1000" "0x60000000"] ram show ?thesis
    by (auto simp: usize_range_def)
qed

text \<open>C6: giving back what was just allocated restores the set of free addresses.\<close>

theorem allocate_free_roundtrip:
  assumes "ma_inv s" "allocate s sz k = Some (s1, Ok a)" "release_room s1 a sz"
    "ma_free s1 a sz = Some (s2, Ok u)"
  shows "ma_inv s2 \<and> free_set s2 = free_set s"
  using assms by (rule ma.alloc_release)

definition alloc_then_free :: "memory_allocator \<Rightarrow> usize \<Rightarrow> usize \<Rightarrow> (usize \<times> bool) option" where
  "alloc_then_free s sz k = do {
     (s1, r) \<leftarrow> allocate s sz k;
     (case r of
        Ok a \<Rightarrow> do { (s2, q) \<leftarrow> ma_free s1 a sz; ret (a, q = Ok ()) }
      | Err _ \<Rightarrow> panic) }"

lemma ram_alloc_then_free: "alloc_then_free ram_allocator 0x3000 14 = Some (0x40000000, True)"
  by code_simp

theorem allocate_free_roundtrip_witness:
  "\<exists>s1 s2. allocate ram_allocator 0x3000 14 = Some (s1, Ok 0x40000000) \<and>
     ma_free s1 0x40000000 0x3000 = Some (s2, Ok ()) \<and> free_set s2 = free_set ram_allocator"
proof -
  from ram_alloc_then_free obtain s1 s2 where s: "allocate ram_allocator 0x3000 14 = Some (s1, Ok 0x40000000)"
    "ma_free s1 0x40000000 0x3000 = Some (s2, Ok ())"
    by (auto simp: alloc_then_free_def bind_eq_Some_conv elim!: case_result_eqE)
  have "free_size s1 \<le> 0x10000000"
    using allocate_outcome [OF _ s(1)] ram by (simp add: alloc_outcome_def used_ok_def)
  then have "release_room s1 0x40000000 0x3000" by (simp add: release_room_def fits_def usize_range_def)
  from allocate_free_roundtrip [OF _ s(1) this s(2)] ram s show ?thesis by blast
qed

text \<open>C7: the blocks handed out by a series of allocations are aligned, pairwise disjoint, and
  taken from the memory that was free at the start.\<close>

theorem allocations_disjoint:
  assumes "ma_inv s" "alloc_all allocate s rs = Some (s', Ok as)"
  shows "length as = length rs \<and> pairwise_disjoint (ranges as rs) \<and>
    \<Union> (set (ranges as rs)) \<subseteq> free_set s \<and> free_set s' = free_set s - \<Union> (set (ranges as rs)) \<and>
    list_all2 (\<lambda>a (sz, k). 2 ^ k dvd a) as rs"
  using ma.alloc_all_Ok [OF assms] by blast

lemma ram_alloc_all:
  "map_option snd (alloc_all allocate ram_allocator [(0x1000, 12), (0x200000, 21)]) =
     Some (Ok [0x40000000, 0x40200000])"
  by code_simp

theorem allocations_disjoint_witness:
  "\<exists>s'. alloc_all allocate ram_allocator [(0x1000, 12), (0x200000, 21)] = Some (s', Ok [0x40000000, 0x40200000]) \<and>
     pairwise_disjoint (ranges [0x40000000, 0x40200000] [(0x1000, 12), (0x200000, 21)])"
proof -
  from ram_alloc_all obtain s' where
    "alloc_all allocate ram_allocator [(0x1000, 12), (0x200000, 21)] = Some (s', Ok [0x40000000, 0x40200000])" by auto
  with allocations_disjoint [OF _ this] ram show ?thesis by blast
qed

text \<open>C8: when \<open>setup_memory\<close> returns, the free memory is the RAM without the device tree, the
  loaded segments of the hypervisor and its stack, all of which lie in the RAM.\<close>

theorem setup_memory_sound:
  assumes "setup_memory memory_allocator_new start sz dtb dtb_sz segs sp = Some s'"
  shows "ma_inv s' \<and> (\<exists>stack_start.
    {dtb..<dtb + dtb_sz} \<union> load_ranges segs \<union> {stack_start..<stack_start + STACK_SIZE} \<subseteq> {start..<start + sz} \<and>
    stack_start + STACK_SIZE = uand_not (sp - 1) PAGE_SIZE + PAGE_SIZE \<and>
    free_set s' = {start..<start + sz} - {dtb..<dtb + dtb_sz} - load_ranges segs
      - {stack_start..<stack_start + STACK_SIZE})"
proof -
  from assms obtain s0 s1 s2 u v w st where
    s0: "ma_free memory_allocator_new start sz = Some (s0, Ok u)" and
    s1: "reserve_memory s0 dtb dtb_sz 0 = Some (s1, Ok v)" and
    s2: "reserve_segments s1 segs = Some s2" and
    s3: "reserve_memory s2 st STACK_SIZE 0 = Some (s', Ok w)" and
    st: "STACK_SIZE \<le> uand_not (sp - 1) PAGE_SIZE + PAGE_SIZE" "st = uand_not (sp - 1) PAGE_SIZE + PAGE_SIZE - STACK_SIZE"
    by (auto simp: setup_memory_def bind_eq_Some_conv ma_expect_Some checked_simps)
  note h0 = ma_free_new [OF s0]
  from h0 reserve_exact [OF _ s1] have h1: "ma_inv s1" "{dtb..<dtb + dtb_sz} \<subseteq> free_set s0"
    "free_set s1 = free_set s0 - {dtb..<dtb + dtb_sz}" by (auto simp: used_ok_def)
  note h2 = reserve_segments_spec [OF h1(1) s2]
  with reserve_exact [OF _ s3] have h3: "ma_inv s'" "{st..<st + STACK_SIZE} \<subseteq> free_set s2"
    "free_set s' = free_set s2 - {st..<st + STACK_SIZE}" by (auto simp: used_ok_def)
  have "st + STACK_SIZE = uand_not (sp - 1) PAGE_SIZE + PAGE_SIZE" using st by simp
  moreover have "{dtb..<dtb + dtb_sz} \<union> load_ranges segs \<union> {st..<st + STACK_SIZE} \<subseteq> {start..<start + sz}"
    using h0 h1 h2 h3 by blast
  moreover have "free_set s' = {start..<start + sz} - {dtb..<dtb + dtb_sz} - load_ranges segs - {st..<st + STACK_SIZE}"
    using h0 h1 h2 h3 by blast
  ultimately show ?thesis using h3(1) by blast
qed

definition demo_segments :: "load_segment list" where
  "demo_segments = [\<lparr>seg_type = 1, seg_paddr = 0x40080000, seg_memsz = 0x20000\<rparr>,
     \<lparr>seg_type = 0x6474E551, seg_paddr = 0, seg_memsz = 0\<rparr>]"

lemma setup_demo:
  "setup_memory memory_allocator_new 0x40000000 0x10000000 0x48000000 0x100000 demo_segments 0x4800FFF0 = None"
  "\<not> Option.is_none
     (setup_memory memory_allocator_new 0x40000000 0x10000000 0x48000000 0x100000 demo_segments 0x4F00FFF0)"
  by code_simp+

theorem setup_memory_sound_witness:
  "\<exists>s'. setup_memory memory_allocator_new 0x40000000 0x10000000 0x48000000 0x100000 demo_segments 0x4F00FFF0 = Some s' \<and>
     ma_inv s'"
proof -
  from setup_demo(2) obtain s' where
    "setup_memory memory_allocator_new 0x40000000 0x10000000 0x48000000 0x100000 demo_segments 0x4F00FFF0 = Some s'"
    by (auto simp: Option.is_none_def)
  with setup_memory_sound [OF this] show ?thesis by blast
qed

lemma one_byte_left:
  assumes "me_start (memory_entry_pool s e) = a" "a + sz = me_end (memory_entry_pool s e)" "0 < sz"
    "a + sz + 1 < usize_range"
  shows "define_used_in_entry s a sz e = None"
  using assms by (auto simp: define_used_in_entry_def Let_def get_end_address_def set_range_def uadd_def usub_def
      get_size_def rust_assert_def)

lemma block_maximal:
  assumes rep: "ma_rep s xs L" and x: "x \<in> set xs"
  shows "me_end (memory_entry_pool s x) + 1 \<notin> free_set s"
    "0 < me_start (memory_entry_pool s x) \<Longrightarrow> me_start (memory_entry_pool s x) - 1 \<notin> free_set s"
proof -
  let ?p = "memory_entry_pool s"
  have "y = x \<or> me_end (?p x) + 1 < me_start (?p y) \<or> me_end (?p y) + 1 < me_start (?p x)" if "y \<in> set xs" for y
  proof -
    have "sorted_wrt (\<lambda>x y. me_end (?p x) + 1 < me_start (?p y)) xs" using ma_repD(1) [OF rep] by (simp add: addr_ok_def)
    then show ?thesis using x that unfolding in_set_conv_nth sorted_wrt_iff_nth_less by (metis nat_neq_iff)
  qed
  moreover have "me_start (?p y) < me_end (?p y)" if "y \<in> set xs" for y
    using ma_repD(7) [OF rep] that by (simp add: ids_ok_def range_ok_def)
  ultimately show "me_end (?p x) + 1 \<notin> free_set s" "0 < me_start (?p x) \<Longrightarrow> me_start (?p x) - 1 \<notin> free_set s"
    using x unfolding ma_repD(9) [OF rep] covered_def by fastforce+
qed

text \<open>C9: when the free memory is a single block at an aligned address, with an alignment that does not
  overflow there, a request for all of it but its last byte panics: \<open>set_range\<close> asserts that a block has at least two bytes.\<close>

theorem one_byte_remainder_panics:
  assumes inv: "ma_inv s" and block: "free_set s = {b..b + sz}" "2 ^ k dvd b"
    and req: "0 < sz" "below_top s k"
  shows "allocate s sz k = None"
proof -
  have lt: "sz < free_size s" using card_free_set [OF inv] by (simp add: block(1))
  from inv obtain xs L where rep: "ma_rep s xs L" by (auto simp: ma_inv_def)
  have "{b..<b + sz} \<subseteq> free_set s" unfolding block(1) by auto
  with allocate_search [OF rep req(1) lt req(2)] block(2) obtain x where x: "x \<in> set xs" "allocate s sz k = alloc_at s sz k x" by blast
  let ?e = "memory_entry_pool s x"
  have ok: "me_start ?e < me_end ?e" "me_end ?e + 1 < usize_range"
    using ma_repD(7) [OF rep] x(1) by (simp_all add: ids_ok_def range_ok_def)
  have "{me_start ?e..me_end ?e} \<subseteq> {b..b + sz}"
    using x(1) block(1) unfolding ma_repD(9) [OF rep] covered_def by blast
  then have "b \<le> me_start ?e" "me_end ?e \<le> b + sz" using ok(1) by auto
  then have "me_start ?e = b" "me_end ?e = b + sz"
    using block_maximal [OF rep x(1)] ok(1) unfolding block(1) atLeastAtMost_iff by linarith+
  moreover have "align_up b k - b = 0"
    using align_up_bounds [of b k] dvd_diff_nat [OF align_up_bounds(3) block(2)] by (metis less_diff_conv2 nat_dvd_not_less gr0I add.commute)
  then have "align_up b k = b" using align_up_bounds(1) [of b k] by simp
  ultimately show ?thesis using one_byte_left [of s x b sz] req(1) ok(2) x(2) by (simp add: alloc_at_def)
qed

theorem one_byte_remainder_panics_witness: "allocate ram_allocator 0xFFFFFFF 12 = None"
proof -
  have "free_set ram_allocator = {0x40000000..0x40000000 + 0xFFFFFFF}"
    using ram by (intro set_eqI) (simp add: less_Suc_eq_le [symmetric])
  moreover have "(2 :: nat) ^ 12 dvd 0x40000000" by (rule dvdI [of _ _ "0x40000"]) simp
  moreover have "below_top ram_allocator 12" using ram by (simp add: below_top_def usize_range_def)
  ultimately show ?thesis using ram one_byte_remainder_panics [of ram_allocator "0x40000000" "0xFFFFFFF" 12] by simp
qed

text \<open>The heap passes an alignment in bytes where \<open>allocate\<close> expects its binary logarithm: a
  layout with alignment 64 shifts by 64 and panics, one with alignment 8 is aligned to 256.\<close>

lemma heap_alignment_panics: "global_alloc ram_allocator 0x100 64 = None"
  by code_simp

end
