(* ===== verification/Vgic.thy ===== *)
theory Vgic
  imports Prelude "HOL-Library.Code_Target_Numeral"
begin

text \<open>
  Model of the list-register part of \<open>src/src/vgic.rs\<close> and of the system registers it and the
  virtual GIC touch. \<open>cpu\<close> is the state of one physical CPU: the three list registers the
  code uses (\<open>GET_ICH_LRN_EL2\<close>, \<open>SET_ICH_LRN_EL2\<close>), the registers it reads, and the
  software-generated interrupts it has sent through \<open>ICC_SGI1R_EL1\<close>, oldest first.
\<close>

section \<open>Registers\<close>

record cpu =
  mpidr_el1 :: u64
  ich_vtr_el2 :: u64
  ich_eisr_el2 :: u64
  ich_lr :: "u64 list"
  icc_sgi1r :: "u64 list"

definition ICH_VTR_EL2_LIST_REGS :: u64 where "ICH_VTR_EL2_LIST_REGS = 0b11111"
definition ICH_LRN_EL2_STATUS :: u64 where "ICH_LRN_EL2_STATUS = push_bit 62 0b11"
definition ICH_LRN_EL2_STATUS_INACTIVE :: u64 where "ICH_LRN_EL2_STATUS_INACTIVE = push_bit 62 0b00"
definition ICH_LRN_EL2_STATUS_PENDING :: u64 where "ICH_LRN_EL2_STATUS_PENDING = push_bit 62 0b01"
definition ICH_LRN_EL2_HW :: u64 where "ICH_LRN_EL2_HW = push_bit 61 1"
definition ICH_LRN_EL2_EOI :: u64 where "ICH_LRN_EL2_EOI = push_bit 41 1"
definition ICH_LRN_EL2_VINTID :: u64 where "ICH_LRN_EL2_VINTID = push_bit 32 1 - 1"

text \<open>The length of \<open>GET_ICH_LRN_EL2\<close>.\<close>

definition NUM_LR :: nat where
  "NUM_LR = 3"

definition cpu_ok :: "cpu \<Rightarrow> bool" where
  "cpu_ok c \<longleftrightarrow> length (ich_lr c) = NUM_LR"

section \<open>List registers\<close>

definition create_list_register_entry :: "nat \<Rightarrow> u32 \<Rightarrow> u32 \<Rightarrow> nat option \<Rightarrow> u64" where
  "create_list_register_entry int_id grp priority physical_int_id =
     (let entry = ICH_LRN_EL2_STATUS_PENDING OR push_bit 60 (ucast grp) OR push_bit 48 (ucast priority) OR
          word_of_nat int_id
      in case physical_int_id of
           Some p_int_id \<Rightarrow> entry OR (ICH_LRN_EL2_HW OR push_bit 32 (word_of_nat p_int_id))
         | None \<Rightarrow> entry OR ICH_LRN_EL2_EOI)"

definition supported_lrn :: "cpu \<Rightarrow> nat" where
  "supported_lrn c = min (unat (ich_vtr_el2 c AND ICH_VTR_EL2_LIST_REGS) + 1) NUM_LR"

text \<open>The loop of \<open>add_virtual_interrupt\<close> over the remaining register numbers.\<close>

fun add_virtual_interrupt_loop :: "u64 list \<Rightarrow> u64 \<Rightarrow> nat list \<Rightarrow> u64 list" where
  "add_virtual_interrupt_loop lrs entry [] = lrs"
| "add_virtual_interrupt_loop lrs entry (i # is) =
     (let ich_lrn_el2 = lrs ! i in
      if ich_lrn_el2 AND ICH_LRN_EL2_STATUS = ICH_LRN_EL2_STATUS_INACTIVE then lrs[i := entry]
      else if ich_lrn_el2 AND (push_bit 32 1 - 1) = entry AND (push_bit 32 1 - 1)
      then lrs[i := ich_lrn_el2 OR ICH_LRN_EL2_STATUS_PENDING]
      else add_virtual_interrupt_loop lrs entry is)"

definition add_virtual_interrupt :: "cpu \<Rightarrow> u64 \<Rightarrow> cpu" where
  "add_virtual_interrupt c entry =
     c\<lparr>ich_lr := add_virtual_interrupt_loop (ich_lr c) entry [0..<supported_lrn c]\<rparr>"

section \<open>What adding an interrupt does\<close>

definition lr_inactive :: "u64 \<Rightarrow> bool" where
  "lr_inactive r \<longleftrightarrow> r AND ICH_LRN_EL2_STATUS = ICH_LRN_EL2_STATUS_INACTIVE"

definition lr_pending :: "u64 \<Rightarrow> bool" where
  "lr_pending r \<longleftrightarrow> bit r 62"

definition lr_vintid :: "u64 \<Rightarrow> u64" where
  "lr_vintid r = r AND ICH_LRN_EL2_VINTID"

text \<open>A register that the loop stops at.\<close>

definition lr_usable :: "u64 \<Rightarrow> u64 \<Rightarrow> bool" where
  "lr_usable entry r \<longleftrightarrow> lr_inactive r \<or> lr_vintid r = lr_vintid entry"

definition lr_merge :: "u64 \<Rightarrow> u64 \<Rightarrow> u64" where
  "lr_merge entry r = (if lr_inactive r then entry else r OR ICH_LRN_EL2_STATUS_PENDING)"

lemma add_virtual_interrupt_loop_eq:
  "add_virtual_interrupt_loop lrs entry is =
     (case find (\<lambda>i. lr_usable entry (lrs ! i)) is of
        None \<Rightarrow> lrs | Some i \<Rightarrow> lrs[i := lr_merge entry (lrs ! i)])"
  by (induction "is")
    (auto simp: lr_usable_def lr_inactive_def lr_vintid_def lr_merge_def ICH_LRN_EL2_VINTID_def Let_def)

lemma add_virtual_interrupt_simps [simp]:
  "mpidr_el1 (add_virtual_interrupt c e) = mpidr_el1 c" "icc_sgi1r (add_virtual_interrupt c e) = icc_sgi1r c"
  "ich_vtr_el2 (add_virtual_interrupt c e) = ich_vtr_el2 c" "ich_eisr_el2 (add_virtual_interrupt c e) = ich_eisr_el2 c"
  "cpu_ok (add_virtual_interrupt c e) = cpu_ok c"
  by (auto simp: add_virtual_interrupt_def cpu_ok_def add_virtual_interrupt_loop_eq split: option.splits)

lemma status_pending_bit: "bit ICH_LRN_EL2_STATUS_PENDING n \<longleftrightarrow> n = 62"
  unfolding ICH_LRN_EL2_STATUS_PENDING_def bit_push_bit_iff numeral_One bit_1_iff possible_bit_word by auto

lemma vintid_mask: "ICH_LRN_EL2_VINTID = mask 32"
  by (simp add: ICH_LRN_EL2_VINTID_def mask_eq_exp_minus_1)

lemma lr_merge_pending: "lr_pending entry \<Longrightarrow> lr_pending (lr_merge entry r)"
  by (auto simp: lr_pending_def lr_merge_def bit_simps status_pending_bit)

lemma lr_merge_vintid: "lr_usable entry r \<Longrightarrow> lr_vintid (lr_merge entry r) = lr_vintid entry"
proof -
  have "lr_vintid (r OR ICH_LRN_EL2_STATUS_PENDING) = lr_vintid r"
    unfolding lr_vintid_def vintid_mask by (rule bit_word_eqI) (auto simp: bit_simps status_pending_bit)
  then show "lr_usable entry r \<Longrightarrow> lr_vintid (lr_merge entry r) = lr_vintid entry"
    by (auto simp: lr_merge_def lr_usable_def)
qed

text \<open>The three outcomes: a usable register is taken and the others keep their value, or all
  registers are busy and the interrupt is dropped.\<close>

lemma add_virtual_interrupt_spec:
  assumes "cpu_ok c" "lr_pending entry"
  shows "(\<exists>i < supported_lrn c. lr_usable entry (ich_lr c ! i) \<and> (\<forall>j<i. \<not> lr_usable entry (ich_lr c ! j)) \<and>
      ich_lr (add_virtual_interrupt c entry) = (ich_lr c)[i := lr_merge entry (ich_lr c ! i)] \<and>
      lr_pending (ich_lr (add_virtual_interrupt c entry) ! i) \<and>
      lr_vintid (ich_lr (add_virtual_interrupt c entry) ! i) = lr_vintid entry) \<or>
    ((\<forall>i < supported_lrn c. \<not> lr_usable entry (ich_lr c ! i)) \<and> add_virtual_interrupt c entry = c)"
proof (cases "find (\<lambda>i. lr_usable entry (ich_lr c ! i)) [0..<supported_lrn c]")
  case None
  then have "add_virtual_interrupt c entry = c"
    by (simp add: add_virtual_interrupt_def add_virtual_interrupt_loop_eq)
  with None show ?thesis by (auto simp: find_None_iff)
next
  case (Some i)
  then have i: "i < supported_lrn c" "lr_usable entry (ich_lr c ! i)" "\<forall>j<i. \<not> lr_usable entry (ich_lr c ! j)"
    by (auto simp: find_Some_iff)
  have e: "ich_lr (add_virtual_interrupt c entry) = (ich_lr c)[i := lr_merge entry (ich_lr c ! i)]"
    using Some by (simp add: add_virtual_interrupt_def add_virtual_interrupt_loop_eq)
  moreover have "i < length (ich_lr c)" using i(1) assms(1) by (simp add: supported_lrn_def cpu_ok_def)
  ultimately show ?thesis using i lr_merge_pending [OF assms(2)] lr_merge_vintid [OF i(2)] by auto
qed

lemma create_entry_pending: "lr_pending (create_list_register_entry i g p ph)"
  unfolding lr_pending_def create_list_register_entry_def
  by (auto simp: bit_simps status_pending_bit Let_def split: option.splits)

end
