(* ===== verification/Gic_Mmio.thy ===== *)
theory Gic_Mmio
  imports Vgic
begin

text \<open>
  Model of \<open>src/src/mmio/gicv3.rs\<close>, the emulated GICv3 distributor and redistributor that a
  guest sees, and of \<open>maintenance_interrupt_handler\<close> of \<open>src/src/vgic.rs\<close>. The Rust arrays
  are lists (an index out of range panics), registers are words of their width, and every
  operation that can reach the list registers threads the state of the current CPU.
  \<open>LinkedList<u64>\<close> is a list with its front first.
\<close>

section \<open>The distributor\<close>

record gicd =
  d_ctlr :: u32
  d_group :: "u32 list"
  d_enable :: "u32 list"
  d_pending :: "u32 list"
  d_active :: "u32 list"
  d_priority :: "u32 list"
  d_configuration :: "u32 list"
  d_group_modifier :: "u32 list"
  d_router :: "u64 list"
  d_to_inject :: "u64 list"

definition GIC_REVISION :: u64 where "GIC_REVISION = 3"
definition GICD_CTLR :: usize where "GICD_CTLR = 0x0000"
definition GICD_TYPER :: usize where "GICD_TYPER = 0x0004"
definition GICD_IGROUPR0 :: usize where "GICD_IGROUPR0 = 0x0080"
definition GICD_IGROUPR31 :: usize where "GICD_IGROUPR31 = 0x00FC"
definition GICD_ISENABLER0 :: usize where "GICD_ISENABLER0 = 0x0100"
definition GICD_ISENABLER31 :: usize where "GICD_ISENABLER31 = 0x017C"
definition GICD_ICENABLER0 :: usize where "GICD_ICENABLER0 = 0x0180"
definition GICD_ICENABLER31 :: usize where "GICD_ICENABLER31 = 0x01FC"
definition GICD_ISPENDR0 :: usize where "GICD_ISPENDR0 = 0x0200"
definition GICD_ISPENDR31 :: usize where "GICD_ISPENDR31 = 0x027C"
definition GICD_ICPENDR0 :: usize where "GICD_ICPENDR0 = 0x0280"
definition GICD_ICPENDR31 :: usize where "GICD_ICPENDR31 = 0x02FC"
definition GICD_ISACTIVER0 :: usize where "GICD_ISACTIVER0 = 0x0300"
definition GICD_ISACTIVER31 :: usize where "GICD_ISACTIVER31 = 0x037C"
definition GICD_ICACTIVER0 :: usize where "GICD_ICACTIVER0 = 0x0380"
definition GICD_ICACTIVER31 :: usize where "GICD_ICACTIVER31 = 0x03FC"
definition GICD_IPRIORITYR0 :: usize where "GICD_IPRIORITYR0 = 0x0400"
definition GICD_IPRIORITYR254 :: usize where "GICD_IPRIORITYR254 = 0x07F8"
definition GICD_ICFGR0 :: usize where "GICD_ICFGR0 = 0x0C00"
definition GICD_ICFGR63 :: usize where "GICD_ICFGR63 = 0x0CFC"
definition GICD_IGRPMODR0 :: usize where "GICD_IGRPMODR0 = 0x0D00"
definition GICD_IGRPMODR31 :: usize where "GICD_IGRPMODR31 = 0x0F7C"
definition GICD_IROUTER0 :: usize where "GICD_IROUTER0 = 0x6100"
definition GICD_IROUTER1019 :: usize where "GICD_IROUTER1019 = 0x7FD8"
definition GICD_PIDR2 :: usize where "GICD_PIDR2 = 0xFFE8"
definition GICD_CTLR_ARE_S :: u32 where "GICD_CTLR_ARE_S = push_bit 4 1"
definition GICD_CTLR_ENABLE_GRP1NS :: u32 where "GICD_CTLR_ENABLE_GRP1NS = push_bit 1 1"
definition GICD_TYPER_VALUE :: u32 where "GICD_TYPER_VALUE = push_bit 25 1 OR 31"
definition INJECT_INTERRUPT_INT_ID :: nat where "INJECT_INTERRUPT_INT_ID = 11"

lemmas gicd_offsets =
  GICD_CTLR_def GICD_TYPER_def GICD_IGROUPR0_def GICD_IGROUPR31_def GICD_ISENABLER0_def GICD_ISENABLER31_def
  GICD_ICENABLER0_def GICD_ICENABLER31_def GICD_ISPENDR0_def GICD_ISPENDR31_def GICD_ICPENDR0_def
  GICD_ICPENDR31_def GICD_ISACTIVER0_def GICD_ISACTIVER31_def GICD_ICACTIVER0_def GICD_ICACTIVER31_def
  GICD_IPRIORITYR0_def GICD_IPRIORITYR254_def GICD_ICFGR0_def GICD_ICFGR63_def GICD_IGRPMODR0_def
  GICD_IGRPMODR31_def GICD_IROUTER0_def GICD_IROUTER1019_def GICD_PIDR2_def

definition gicd_new :: gicd where
  "gicd_new = \<lparr>d_ctlr = 0, d_group = replicate 32 0, d_enable = replicate 32 0, d_pending = replicate 32 0,
     d_active = replicate 32 0, d_priority = replicate 255 0, d_configuration = replicate 64 0,
     d_group_modifier = replicate 32 0, d_router = replicate 1020 0, d_to_inject = []\<rparr>"

text \<open>Bit \<open>int_id % 32\<close> of register \<open>int_id / 32\<close>, the body shared by the getters and setters.\<close>

definition reg_bit :: "u32 list \<Rightarrow> nat \<Rightarrow> u32 option" where
  "reg_bit regs int_id = do {
     r \<leftarrow> arr_get regs (int_id div 32);
     ret (drop_bit (int_id mod 32) r AND 1) }"

definition set_reg_bit :: "u32 list \<Rightarrow> nat \<Rightarrow> bool \<Rightarrow> u32 list option" where
  "set_reg_bit regs int_id b = do {
     r \<leftarrow> arr_get regs (int_id div 32);
     arr_set regs (int_id div 32)
       (if b then r OR push_bit (int_id mod 32) 1 else r AND NOT (push_bit (int_id mod 32) 1)) }"

text \<open>The byte of an interrupt in the priority registers.\<close>

definition reg_byte :: "u32 list \<Rightarrow> nat \<Rightarrow> u32 option" where
  "reg_byte regs int_id = do {
     r \<leftarrow> arr_get regs (int_id div 4);
     ret (drop_bit (int_id mod 4 * 8) r AND 0xFF) }"

definition gicd_get_group :: "gicd \<Rightarrow> nat \<Rightarrow> u32 option" where
  "gicd_get_group d int_id = reg_bit (d_group d) int_id"

definition gicd_get_enable :: "gicd \<Rightarrow> nat \<Rightarrow> bool option" where
  "gicd_get_enable d int_id = do { b \<leftarrow> reg_bit (d_enable d) int_id; ret (b \<noteq> 0) }"

definition gicd_get_pending :: "gicd \<Rightarrow> nat \<Rightarrow> bool option" where
  "gicd_get_pending d int_id = do { b \<leftarrow> reg_bit (d_pending d) int_id; ret (b \<noteq> 0) }"

definition gicd_change_pending_status :: "gicd \<Rightarrow> nat \<Rightarrow> bool \<Rightarrow> gicd option" where
  "gicd_change_pending_status d int_id is_pending = do {
     p \<leftarrow> set_reg_bit (d_pending d) int_id is_pending;
     ret (d\<lparr>d_pending := p\<rparr>) }"

definition gicd_change_active_status :: "gicd \<Rightarrow> nat \<Rightarrow> bool \<Rightarrow> gicd option" where
  "gicd_change_active_status d int_id is_active = do {
     a \<leftarrow> set_reg_bit (d_active d) int_id is_active;
     ret (d\<lparr>d_active := a\<rparr>) }"

definition gicd_get_priority :: "gicd \<Rightarrow> nat \<Rightarrow> u32 option" where
  "gicd_get_priority d int_id = reg_byte (d_priority d) int_id"

definition gicd_get_group_modifier :: "gicd \<Rightarrow> nat \<Rightarrow> u32 option" where
  "gicd_get_group_modifier d int_id = reg_bit (d_group_modifier d) int_id"

definition gicd_get_router :: "gicd \<Rightarrow> nat \<Rightarrow> u64 option" where
  "gicd_get_router d int_id = arr_get (d_router d) int_id"

text \<open>The affinity fields of a router register or of \<open>MPIDR_EL1\<close>.\<close>

definition aff3 :: "u64 \<Rightarrow> u64" where "aff3 r = drop_bit 32 (r AND (push_bit 40 1 - 1))"
definition aff2 :: "u64 \<Rightarrow> u64" where "aff2 r = drop_bit 16 (r AND (push_bit 24 1 - 1))"
definition aff1 :: "u64 \<Rightarrow> u64" where "aff1 r = drop_bit 8 (r AND (push_bit 16 1 - 1))"
definition aff0 :: "u64 \<Rightarrow> u64" where "aff0 r = r AND (push_bit 8 1 - 1)"

text \<open>The value written to \<open>ICC_SGI1R_EL1\<close> to wake another CPU, as the code computes it.\<close>

definition sgi1r_value :: "u64 \<Rightarrow> u64" where
  "sgi1r_value r = push_bit 48 (aff3 r) OR push_bit 32 (aff2 r) OR push_bit 24 (word_of_nat INJECT_INTERRUPT_INT_ID)
     OR push_bit 48 (aff1 r) OR push_bit (unat (aff0 r)) 1"

definition send_sgi :: "cpu \<Rightarrow> u64 \<Rightarrow> cpu option" where
  "send_sgi c r = do {
     rust_assert (aff0 r < 16);
     ret (c\<lparr>icc_sgi1r := icc_sgi1r c @ [sgi1r_value r]\<rparr>) }"

definition gicd_trigger_interrupt :: "cpu \<Rightarrow> gicd \<Rightarrow> nat \<Rightarrow> nat option \<Rightarrow> (cpu \<times> gicd) option" where
  "gicd_trigger_interrupt c d int_id physical_int_id =
     (if d_ctlr d AND GICD_CTLR_ENABLE_GRP1NS = 0 then ret (c, d)
      else do {
        d \<leftarrow> gicd_change_pending_status d int_id True;
        enabled \<leftarrow> gicd_get_enable d int_id;
        if \<not> enabled then ret (c, d)
        else do {
          gm \<leftarrow> gicd_get_group_modifier d int_id;
          if gm = 1 then ret (c, d)
          else do {
            grp \<leftarrow> gicd_get_group d int_id;
            priority \<leftarrow> gicd_get_priority d int_id;
            router \<leftarrow> gicd_get_router d int_id;
            if d_ctlr d AND GICD_CTLR_ARE_S = 0 then ret (c, d)
            else do {
              let list_entry = create_list_register_entry int_id grp priority physical_int_id;
              if aff3 router = aff3 (mpidr_el1 c) \<and> aff2 router = aff2 (mpidr_el1 c) \<and>
                 aff1 router = aff1 (mpidr_el1 c) \<and> aff0 router = aff0 (mpidr_el1 c)
              then ret (add_virtual_interrupt c list_entry, d)
              else do {
                c \<leftarrow> send_sgi c router;
                ret (c, d\<lparr>d_to_inject := d_to_inject d @ [list_entry]\<rparr>) } } } } })"

section \<open>Distributor accesses\<close>

text \<open>\<open>(lo..=hi).contains(&offset)\<close>\<close>

definition in_range :: "usize \<Rightarrow> usize \<Rightarrow> usize \<Rightarrow> bool" where
  "in_range lo hi offset \<longleftrightarrow> lo \<le> offset \<and> offset \<le> hi"

definition read_reg :: "('a::len) word list \<Rightarrow> nat \<Rightarrow> u64 option" where
  "read_reg regs i = do { r \<leftarrow> arr_get regs i; ret (ucast r) }"

definition gicd_read :: "gicd \<Rightarrow> usize \<Rightarrow> nat \<Rightarrow> (u64, unit) result option" where
  "gicd_read d offset access_width = do {
     v \<leftarrow>
       (if offset = GICD_CTLR \<and> access_width = 32 then ret (ucast (d_ctlr d))
        else if offset = GICD_TYPER \<and> access_width = 32 then ret (ucast GICD_TYPER_VALUE)
        else if in_range GICD_IGROUPR0 GICD_IGROUPR31 offset \<and> access_width = 32
        then read_reg (d_group d) ((offset - GICD_IGROUPR0) div 4)
        else if in_range GICD_ISENABLER0 GICD_ISENABLER31 offset \<and> access_width = 32
        then read_reg (d_enable d) ((offset - GICD_ISENABLER0) div 4)
        else if in_range GICD_ICENABLER0 GICD_ICENABLER31 offset \<and> access_width = 32
        then read_reg (d_enable d) ((offset - GICD_ICENABLER0) div 4)
        else if in_range GICD_ISPENDR0 GICD_ISPENDR31 offset \<and> access_width = 32
        then read_reg (d_pending d) ((offset - GICD_ISPENDR0) div 4)
        else if in_range GICD_ICPENDR0 GICD_ICPENDR31 offset \<and> access_width = 32
        then read_reg (d_pending d) ((offset - GICD_ICPENDR0) div 4)
        else if in_range GICD_ISACTIVER0 GICD_ISACTIVER31 offset \<and> access_width = 32
        then read_reg (d_active d) ((offset - GICD_ISACTIVER0) div 4)
        else if in_range GICD_ICACTIVER0 GICD_ICACTIVER31 offset \<and> access_width = 32
        then read_reg (d_active d) ((offset - GICD_ICACTIVER0) div 4)
        else if GICD_IPRIORITYR0 \<le> offset \<and> offset < GICD_IPRIORITYR254 + 4 then
          (let register_offset = (offset - GICD_IPRIORITYR0) div 4;
             byte_offset = (offset - GICD_IPRIORITYR0) - register_offset * 4 in
           if access_width = 8 then do {
             r \<leftarrow> read_reg (d_priority d) register_offset;
             ret (drop_bit (byte_offset * 8) r AND 0xFF) }
           else if byte_offset = 0 \<and> access_width = 32 then read_reg (d_priority d) register_offset
           else ret 0)
        else if in_range GICD_ICFGR0 GICD_ICFGR63 offset \<and> access_width = 32
        then read_reg (d_configuration d) ((offset - GICD_ICFGR0) div 4)
        else if in_range GICD_IGRPMODR0 GICD_IGRPMODR31 offset \<and> access_width = 32
        then read_reg (d_group_modifier d) ((offset - GICD_IGRPMODR0) div 4)
        else if in_range GICD_IROUTER0 GICD_IROUTER1019 offset \<and> access_width = 64
        then read_reg (d_router d) ((offset - GICD_IROUTER0) div 8)
        else if offset = GICD_PIDR2 \<and> access_width = 32 then ret (push_bit 4 GIC_REVISION)
        else ret 0);
     ret (Ok v) }"

text \<open>
  The loop of a write to a set-enable or set-pending register: every interrupt whose bit is
  written and whose other condition \<open>ready\<close> holds is triggered.
\<close>

lemma drop_bit_1_less:
  assumes "value \<noteq> 0" shows "unat (drop_bit (Suc 0) value) < unat (value :: u64)"
proof -
  have "0 < unat value" using assms by (simp add: unat_gt_0)
  moreover have "unat (drop_bit (Suc 0) value) = unat value div 2"
    unfolding unat_drop_bit_eq by (simp add: drop_bit_Suc)
  ultimately show ?thesis by simp
qed

function gicd_trigger_loop ::
    "(gicd \<Rightarrow> nat \<Rightarrow> bool option) \<Rightarrow> cpu \<Rightarrow> gicd \<Rightarrow> nat \<Rightarrow> u64 \<Rightarrow> (cpu \<times> gicd) option" where
  "gicd_trigger_loop ready c d int_id value =
     (if value = 0 then ret (c, d)
      else do {
        b \<leftarrow> (if value AND 1 \<noteq> 0 then ready d int_id else ret False);
        (c, d) \<leftarrow> (if b then gicd_trigger_interrupt c d int_id None else ret (c, d));
        gicd_trigger_loop ready c d (int_id + 1) (drop_bit 1 value) })"
  by pat_completeness auto
termination
  by (relation "measure (\<lambda>(ready, c, d, int_id, value). unat value)") (simp_all add: drop_bit_1_less)

declare gicd_trigger_loop.simps [simp del]

definition modify_reg :: "('a::len) word list \<Rightarrow> nat \<Rightarrow> ('a word \<Rightarrow> 'a word) \<Rightarrow> 'a word list option" where
  "modify_reg regs i f = do { r \<leftarrow> arr_get regs i; arr_set regs i (f r) }"

definition write_priority :: "u32 list \<Rightarrow> nat \<Rightarrow> nat \<Rightarrow> u64 \<Rightarrow> u32 list option" where
  "write_priority regs off access_width value =
     (let register_offset = off div 4; byte_offset = off - register_offset * 4; bit_offset = byte_offset * 8 in
      if access_width = 8
      then modify_reg regs register_offset
             (\<lambda>r. (r AND NOT (push_bit bit_offset 0xFF)) OR ucast (push_bit bit_offset value))
      else if byte_offset = 0 \<and> access_width = 32 then arr_set regs register_offset (ucast value)
      else ret regs)"

definition gicd_write :: "cpu \<Rightarrow> gicd \<Rightarrow> usize \<Rightarrow> nat \<Rightarrow> u64 \<Rightarrow> ((cpu \<times> gicd) \<times> (unit, unit) result) option" where
  "gicd_write c d offset access_width value = do {
     cd \<leftarrow>
       (if offset = GICD_CTLR \<and> access_width = 32 then ret (c, d\<lparr>d_ctlr := ucast value\<rparr>)
        else if in_range GICD_IGROUPR0 GICD_IGROUPR31 offset \<and> access_width = 32 then do {
          r \<leftarrow> arr_set (d_group d) ((offset - GICD_IGROUPR0) div 4) (ucast value);
          ret (c, d\<lparr>d_group := r\<rparr>) }
        else if in_range GICD_ISENABLER0 GICD_ISENABLER31 offset \<and> access_width = 32 then do {
          let register_offset = (offset - GICD_ISENABLER0) div 4;
          r \<leftarrow> modify_reg (d_enable d) register_offset (\<lambda>r. r OR ucast value);
          gicd_trigger_loop gicd_get_pending c (d\<lparr>d_enable := r\<rparr>) (register_offset * 32) value }
        else if in_range GICD_ICENABLER0 GICD_ICENABLER31 offset \<and> access_width = 32 then do {
          r \<leftarrow> modify_reg (d_enable d) ((offset - GICD_ICENABLER0) div 4) (\<lambda>r. r AND NOT (ucast value));
          ret (c, d\<lparr>d_enable := r\<rparr>) }
        else if in_range GICD_ISPENDR0 GICD_ISPENDR31 offset \<and> access_width = 32 then do {
          let register_offset = (offset - GICD_ISPENDR0) div 4;
          r \<leftarrow> modify_reg (d_pending d) register_offset (\<lambda>r. r OR ucast value);
          gicd_trigger_loop gicd_get_enable c (d\<lparr>d_pending := r\<rparr>) (register_offset * 4 * 8) value }
        else if in_range GICD_ICPENDR0 GICD_ICPENDR31 offset \<and> access_width = 32 then do {
          r \<leftarrow> modify_reg (d_pending d) ((offset - GICD_ICPENDR0) div 4) (\<lambda>r. r AND NOT (ucast value));
          ret (c, d\<lparr>d_pending := r\<rparr>) }
        else if in_range GICD_ISACTIVER0 GICD_ISACTIVER31 offset \<and> access_width = 32 then do {
          r \<leftarrow> modify_reg (d_active d) ((offset - GICD_ISACTIVER0) div 4) (\<lambda>r. r OR ucast value);
          ret (c, d\<lparr>d_active := r\<rparr>) }
        else if in_range GICD_ICACTIVER0 GICD_ICACTIVER31 offset \<and> access_width = 32 then do {
          r \<leftarrow> modify_reg (d_active d) ((offset - GICD_ICACTIVER0) div 4) (\<lambda>r. r AND NOT (ucast value));
          ret (c, d\<lparr>d_active := r\<rparr>) }
        else if GICD_IPRIORITYR0 \<le> offset \<and> offset < GICD_IPRIORITYR254 + 4 then do {
          r \<leftarrow> write_priority (d_priority d) (offset - GICD_IPRIORITYR0) access_width value;
          ret (c, d\<lparr>d_priority := r\<rparr>) }
        else if in_range GICD_ICFGR0 GICD_ICFGR63 offset \<and> access_width = 32 then do {
          r \<leftarrow> arr_set (d_configuration d) ((offset - GICD_ICFGR0) div 4) (ucast value);
          ret (c, d\<lparr>d_configuration := r\<rparr>) }
        else if in_range GICD_IGRPMODR0 GICD_IGRPMODR31 offset \<and> access_width = 32 then do {
          r \<leftarrow> arr_set (d_group_modifier d) ((offset - GICD_IGRPMODR0) div 4) (ucast value);
          ret (c, d\<lparr>d_group_modifier := r\<rparr>) }
        else if in_range GICD_IROUTER0 GICD_IROUTER1019 offset \<and> access_width = 64 then do {
          r \<leftarrow> arr_set (d_router d) ((offset - GICD_IROUTER0) div 8) value;
          ret (c, d\<lparr>d_router := r\<rparr>) }
        else ret (c, d));
     ret (cd, Ok ()) }"

end
