(* ===== verification/Gic_Redist.thy ===== *)
theory Gic_Redist
  imports Gic_Mmio
begin

text \<open>
  The emulated GICv3 redistributor of \<open>src/src/mmio/gicv3.rs\<close>, and the two interrupt handlers
  that connect the emulated controllers to the list registers: \<open>inject_interrupt_handler\<close>
  (same file) and \<open>maintenance_interrupt_handler\<close> (\<open>src/src/vgic.rs\<close>).
\<close>

section \<open>State\<close>

record gicr =
  r_affinity :: u64
  r_ctlr :: u32
  r_waker :: u32
  r_group :: u32
  r_enable :: u32
  r_pending :: u32
  r_active :: u32
  r_priority :: "u32 list"
  r_configuration :: "u32 list"
  r_group_modifier :: u32
  r_to_inject :: "u64 list"

definition GICR_CTLR :: usize where "GICR_CTLR = 0x0000"
definition GICR_TYPER :: usize where "GICR_TYPER = 0x0008"
definition GICR_WAKER :: usize where "GICR_WAKER = 0x0014"
definition GICR_PIDR2 :: usize where "GICR_PIDR2 = 0xFFE8"
definition GICR_VLPI_BASE :: usize where "GICR_VLPI_BASE = 0x10000"
definition GICR_IGROUPR0 :: usize where "GICR_IGROUPR0 = GICR_VLPI_BASE + 0x0080"
definition GICR_ISENABLER0 :: usize where "GICR_ISENABLER0 = GICR_VLPI_BASE + 0x0100"
definition GICR_ICENABLER0 :: usize where "GICR_ICENABLER0 = GICR_VLPI_BASE + 0x0180"
definition GICR_ISPENDR0 :: usize where "GICR_ISPENDR0 = GICR_VLPI_BASE + 0x0200"
definition GICR_ICPENDR0 :: usize where "GICR_ICPENDR0 = GICR_VLPI_BASE + 0x0280"
definition GICR_ISACTIVER0 :: usize where "GICR_ISACTIVER0 = GICR_VLPI_BASE + 0x0300"
definition GICR_ICACTIVER0 :: usize where "GICR_ICACTIVER0 = GICR_VLPI_BASE + 0x0380"
definition GICR_IPRIORITYR0 :: usize where "GICR_IPRIORITYR0 = GICR_VLPI_BASE + 0x0400"
definition GICR_IPRIORITYR7 :: usize where "GICR_IPRIORITYR7 = GICR_VLPI_BASE + 0x041C"
definition GICR_ICFGR0 :: usize where "GICR_ICFGR0 = GICR_VLPI_BASE + 0x0C00"
definition GICR_ICFGR1 :: usize where "GICR_ICFGR1 = GICR_VLPI_BASE + 0x0C04"
definition GICR_IGRPMODR0 :: usize where "GICR_IGRPMODR0 = GICR_VLPI_BASE + 0x0D00"
definition GICR_TYPER_LAST :: u32 where "GICR_TYPER_LAST = push_bit 4 1"
definition GICR_WAKER_CHILDREN_ASLEEP :: u32 where "GICR_WAKER_CHILDREN_ASLEEP = push_bit 2 1"
definition GICR_WAKER_PROCESSOR_SLEEP :: u32 where "GICR_WAKER_PROCESSOR_SLEEP = push_bit 1 1"

lemmas gicr_offsets =
  GICR_CTLR_def GICR_TYPER_def GICR_WAKER_def GICR_PIDR2_def GICR_VLPI_BASE_def GICR_IGROUPR0_def
  GICR_ISENABLER0_def GICR_ICENABLER0_def GICR_ISPENDR0_def GICR_ICPENDR0_def GICR_ISACTIVER0_def
  GICR_ICACTIVER0_def GICR_IPRIORITYR0_def GICR_IPRIORITYR7_def GICR_ICFGR0_def GICR_ICFGR1_def
  GICR_IGRPMODR0_def

text \<open>\<open>asm::mpidr_to_affinity\<close>\<close>

definition mpidr_to_affinity :: "u64 \<Rightarrow> u64" where
  "mpidr_to_affinity mpidr = mpidr AND NOT (push_bit 31 1 OR push_bit 30 1)"

definition gicr_new :: "u64 \<Rightarrow> gicr" where
  "gicr_new mpidr = \<lparr>r_affinity = mpidr_to_affinity mpidr, r_ctlr = 0, r_waker = GICR_WAKER_CHILDREN_ASLEEP,
     r_group = 0, r_enable = 0, r_pending = 0, r_active = 0, r_priority = replicate 8 0,
     r_configuration = replicate 2 0, r_group_modifier = 0, r_to_inject = []\<rparr>"

definition generate_typer :: "gicr \<Rightarrow> u64" where
  "generate_typer r = ucast GICR_TYPER_LAST OR push_bit 32 (aff0 (r_affinity r)) OR push_bit 40 (aff1 (r_affinity r))
     OR push_bit 48 (aff2 (r_affinity r)) OR push_bit 56 (aff3 (r_affinity r))"

section \<open>Interrupt state\<close>

text \<open>\<open>reg >> int_id\<close> and \<open>1 << int_id\<close> on \<open>u32\<close>: a shift by 32 or more panics.\<close>

definition shr_bit :: "u32 \<Rightarrow> nat \<Rightarrow> u32 option" where
  "shr_bit reg int_id = (if int_id < 32 then ret (drop_bit int_id reg AND 1) else panic)"

definition with_bit :: "u32 \<Rightarrow> nat \<Rightarrow> bool \<Rightarrow> u32 option" where
  "with_bit reg int_id b =
     (if int_id < 32 then ret (if b then reg OR push_bit int_id 1 else reg AND NOT (push_bit int_id 1)) else panic)"

definition gicr_get_group :: "gicr \<Rightarrow> nat \<Rightarrow> u32 option" where
  "gicr_get_group r int_id = shr_bit (r_group r) int_id"

definition gicr_get_enable :: "gicr \<Rightarrow> nat \<Rightarrow> bool option" where
  "gicr_get_enable r int_id = do { b \<leftarrow> shr_bit (r_enable r) int_id; ret (b \<noteq> 0) }"

definition gicr_get_pending :: "gicr \<Rightarrow> nat \<Rightarrow> bool option" where
  "gicr_get_pending r int_id = do { b \<leftarrow> shr_bit (r_pending r) int_id; ret (b \<noteq> 0) }"

definition gicr_change_pending_status :: "gicr \<Rightarrow> nat \<Rightarrow> bool \<Rightarrow> gicr option" where
  "gicr_change_pending_status r int_id is_pending = do {
     p \<leftarrow> with_bit (r_pending r) int_id is_pending;
     ret (r\<lparr>r_pending := p\<rparr>) }"

definition gicr_change_active_status :: "gicr \<Rightarrow> nat \<Rightarrow> bool \<Rightarrow> gicr option" where
  "gicr_change_active_status r int_id is_active = do {
     a \<leftarrow> with_bit (r_active r) int_id is_active;
     ret (r\<lparr>r_active := a\<rparr>) }"

definition gicr_get_priority :: "gicr \<Rightarrow> nat \<Rightarrow> u32 option" where
  "gicr_get_priority r int_id = reg_byte (r_priority r) int_id"

definition gicr_get_group_modifier :: "gicr \<Rightarrow> nat \<Rightarrow> u32 option" where
  "gicr_get_group_modifier r int_id = shr_bit (r_group_modifier r) int_id"

definition gicr_trigger_interrupt :: "cpu \<Rightarrow> gicr \<Rightarrow> nat \<Rightarrow> nat option \<Rightarrow> (cpu \<times> gicr) option" where
  "gicr_trigger_interrupt c r int_id physical_int_id =
     (if r_waker r AND GICR_WAKER_CHILDREN_ASLEEP \<noteq> 0 then ret (c, r)
      else do {
        r \<leftarrow> gicr_change_pending_status r int_id True;
        enabled \<leftarrow> gicr_get_enable r int_id;
        if \<not> enabled then ret (c, r)
        else do {
          gm \<leftarrow> gicr_get_group_modifier r int_id;
          if gm = 1 then ret (c, r)
          else do {
            grp \<leftarrow> gicr_get_group r int_id;
            priority \<leftarrow> gicr_get_priority r int_id;
            let list_entry = create_list_register_entry int_id grp priority physical_int_id;
            if r_affinity r = mpidr_to_affinity (mpidr_el1 c)
            then ret (add_virtual_interrupt c list_entry, r)
            else do {
              c \<leftarrow> send_sgi c (r_affinity r);
              ret (c, r\<lparr>r_to_inject := r_to_inject r @ [list_entry]\<rparr>) } } } })"

section \<open>Accesses\<close>

definition gicr_read :: "gicr \<Rightarrow> usize \<Rightarrow> nat \<Rightarrow> (u64, unit) result option" where
  "gicr_read r offset access_width = do {
     v \<leftarrow>
       (if offset = GICR_CTLR \<and> access_width = 32 then ret (ucast (r_ctlr r))
        else if offset = GICR_TYPER \<and> (access_width = 32 \<or> access_width = 64) then ret (generate_typer r)
        else if offset = GICR_TYPER + 4 \<and> access_width = 32 then ret (drop_bit 32 (generate_typer r))
        else if offset = GICR_WAKER \<and> access_width = 32 then ret (ucast (r_waker r))
        else if offset = GICR_PIDR2 \<and> access_width = 32 then ret (push_bit 4 GIC_REVISION)
        else if offset = GICR_IGROUPR0 \<and> access_width = 32 then ret (ucast (r_group r))
        else if (offset = GICR_ISENABLER0 \<or> offset = GICR_ICENABLER0) \<and> access_width = 32 then ret (ucast (r_enable r))
        else if (offset = GICR_ISPENDR0 \<or> offset = GICR_ICPENDR0) \<and> access_width = 32 then ret (ucast (r_pending r))
        else if (offset = GICR_ISACTIVER0 \<or> offset = GICR_ICACTIVER0) \<and> access_width = 32 then ret (ucast (r_active r))
        else if in_range GICR_IPRIORITYR0 GICR_IPRIORITYR7 offset \<and> access_width = 32
        then read_reg (r_priority r) ((offset - GICR_IPRIORITYR0) div 4)
        else if in_range GICR_ICFGR0 GICR_ICFGR1 offset \<and> access_width = 32
        then read_reg (r_configuration r) ((offset - GICR_ICFGR0) div 4)
        else if offset = GICR_IGRPMODR0 \<and> access_width = 32 then ret (ucast (r_group_modifier r))
        else ret 0);
     ret (Ok v) }"

text \<open>The loops \<open>for int_id in 0..32\<close> of a write to the set-enable and set-pending register.\<close>

fun gicr_trigger_loop ::
    "(gicr \<Rightarrow> nat \<Rightarrow> bool option) \<Rightarrow> cpu \<Rightarrow> gicr \<Rightarrow> nat list \<Rightarrow> u64 \<Rightarrow> (cpu \<times> gicr) option" where
  "gicr_trigger_loop ready c r [] value = ret (c, r)"
| "gicr_trigger_loop ready c r (int_id # ids) value =
     (if value = 0 then ret (c, r)
      else do {
        b \<leftarrow> (if value AND 1 \<noteq> 0 then ready r int_id else ret False);
        (c, r) \<leftarrow> (if b then gicr_trigger_interrupt c r int_id None else ret (c, r));
        gicr_trigger_loop ready c r ids (drop_bit 1 value) })"

definition gicr_write :: "cpu \<Rightarrow> gicr \<Rightarrow> usize \<Rightarrow> nat \<Rightarrow> u64 \<Rightarrow> ((cpu \<times> gicr) \<times> (unit, unit) result) option" where
  "gicr_write c r offset access_width value = do {
     let r = (if offset = GICR_CTLR \<and> access_width = 32 then r\<lparr>r_ctlr := ucast value\<rparr> else r);
     cr \<leftarrow>
       (if offset = GICR_WAKER \<and> access_width = 32 then
          ret (c, if (ucast value :: u32) AND GICR_WAKER_PROCESSOR_SLEEP = 0 then r\<lparr>r_waker := 0\<rparr>
                  else r\<lparr>r_waker := GICR_WAKER_CHILDREN_ASLEEP OR GICR_WAKER_PROCESSOR_SLEEP\<rparr>)
        else if offset = GICR_IGROUPR0 \<and> access_width = 32 then ret (c, r\<lparr>r_group := ucast value\<rparr>)
        else if offset = GICR_ISENABLER0 \<and> access_width = 32
        then gicr_trigger_loop gicr_get_pending c (r\<lparr>r_enable := r_enable r OR ucast value\<rparr>) [0..<32] value
        else if offset = GICR_ICENABLER0 \<and> access_width = 32
        then ret (c, r\<lparr>r_enable := r_enable r AND NOT (ucast value)\<rparr>)
        else if offset = GICR_ISPENDR0 \<and> access_width = 32
        then gicr_trigger_loop gicr_get_enable c (r\<lparr>r_pending := r_pending r OR ucast value\<rparr>) [0..<32] value
        else if offset = GICR_ICPENDR0 \<and> access_width = 32
        then ret (c, r\<lparr>r_pending := r_pending r AND NOT (ucast value)\<rparr>)
        else if offset = GICR_ISACTIVER0 \<and> access_width = 32
        then ret (c, r\<lparr>r_active := r_active r OR ucast value\<rparr>)
        else if offset = GICR_ICACTIVER0 \<and> access_width = 32
        then ret (c, r\<lparr>r_active := r_active r AND NOT (ucast value)\<rparr>)
        else if GICR_IPRIORITYR0 \<le> offset \<and> offset < GICR_IPRIORITYR7 + 4 then do {
          p \<leftarrow> write_priority (r_priority r) (offset - GICR_IPRIORITYR0) access_width value;
          ret (c, r\<lparr>r_priority := p\<rparr>) }
        else if in_range GICR_ICFGR0 GICR_ICFGR1 offset \<and> access_width = 32 then do {
          p \<leftarrow> arr_set (r_configuration r) ((offset - GICR_ICFGR0) div 4) (ucast value);
          ret (c, r\<lparr>r_configuration := p\<rparr>) }
        else if offset = GICR_IGRPMODR0 \<and> access_width = 32 then ret (c, r\<lparr>r_group_modifier := ucast value\<rparr>)
        else ret (c, r));
     ret (cr, Ok ()) }"

section \<open>The interrupt handlers\<close>

definition inject_interrupt_handler :: "cpu \<Rightarrow> gicd \<Rightarrow> gicr \<Rightarrow> cpu \<times> gicd \<times> gicr" where
  "inject_interrupt_handler c d r =
     (foldl add_virtual_interrupt (foldl add_virtual_interrupt c (d_to_inject d)) (r_to_inject r),
      d\<lparr>d_to_inject := []\<rparr>, r\<lparr>r_to_inject := []\<rparr>)"

text \<open>The loop of \<open>maintenance_interrupt_handler\<close> over the remaining register numbers.\<close>

fun maintenance_loop :: "cpu \<Rightarrow> gicd \<Rightarrow> gicr \<Rightarrow> u64 \<Rightarrow> nat list \<Rightarrow> (cpu \<times> gicd \<times> gicr) option" where
  "maintenance_loop c d r eoi_bits [] = ret (c, d, r)"
| "maintenance_loop c d r eoi_bits (i # is) =
     (if eoi_bits AND 1 \<noteq> 0 then do {
        entry \<leftarrow> arr_get (ich_lr c) i;
        let int_id = unat (entry AND ICH_LRN_EL2_VINTID);
        (d, r) \<leftarrow>
          (if int_id \<ge> 32 then do {
             d \<leftarrow> gicd_change_pending_status d int_id False;
             d \<leftarrow> gicd_change_active_status d int_id False;
             ret (d, r) }
           else do {
             r \<leftarrow> gicr_change_pending_status r int_id False;
             r \<leftarrow> gicr_change_active_status r int_id False;
             ret (d, r) });
        lrs \<leftarrow> arr_set (ich_lr c) i 0;
        maintenance_loop (c\<lparr>ich_lr := lrs\<rparr>) d r (drop_bit 1 eoi_bits) is }
      else maintenance_loop c d r (drop_bit 1 eoi_bits) is)"

definition maintenance_interrupt_handler :: "cpu \<Rightarrow> gicd \<Rightarrow> gicr \<Rightarrow> (cpu \<times> gicd \<times> gicr) option" where
  "maintenance_interrupt_handler c d r = maintenance_loop c d r (ich_eisr_el2 c) [0..<supported_lrn c]"

end
