(* ===== verification/Mmio_Device.thy ===== *)
theory Mmio_Device
  imports Prelude
begin

text \<open>
  The contract behind the trait \<open>MmioHandler\<close> of \<open>src/src/vm.rs\<close>: a device is a state with a
  read and a write operation on register offsets. An access that the device's contract calls
  safe returns without a panic or an error and keeps the invariant; a total device has no
  unsafe access. The guest is an arbitrary sequence of accesses; a run of them has a result
  only when no access panics and every access answers \<open>Ok\<close>.
\<close>

datatype mmio_access = Mmio_Read usize nat | Mmio_Write usize nat u64

fun mmio_run ::
    "('s \<Rightarrow> usize \<Rightarrow> nat \<Rightarrow> ('s \<times> (u64, unit) result) option) \<Rightarrow>
     ('s \<Rightarrow> usize \<Rightarrow> nat \<Rightarrow> u64 \<Rightarrow> ('s \<times> (unit, unit) result) option) \<Rightarrow>
     's \<Rightarrow> mmio_access list \<Rightarrow> 's option" where
  "mmio_run rd wr s [] = ret s"
| "mmio_run rd wr s (Mmio_Read off w # as) = do {
     (s', r) \<leftarrow> rd s off w;
     case r of Ok _ \<Rightarrow> mmio_run rd wr s' as | Err _ \<Rightarrow> None }"
| "mmio_run rd wr s (Mmio_Write off w v # as) = do {
     (s', r) \<leftarrow> wr s off w v;
     case r of Ok _ \<Rightarrow> mmio_run rd wr s' as | Err _ \<Rightarrow> None }"

locale mmio_device =
  fixes safe :: "mmio_access \<Rightarrow> bool"
    and inv :: "'s \<Rightarrow> bool"
    and rd :: "'s \<Rightarrow> usize \<Rightarrow> nat \<Rightarrow> ('s \<times> (u64, unit) result) option"
    and wr :: "'s \<Rightarrow> usize \<Rightarrow> nat \<Rightarrow> u64 \<Rightarrow> ('s \<times> (unit, unit) result) option"
  assumes read_ok: "\<lbrakk>inv s; safe (Mmio_Read off w)\<rbrakk> \<Longrightarrow> \<exists>s' v. rd s off w = Some (s', Ok v) \<and> inv s'"
    and write_ok: "\<lbrakk>inv s; safe (Mmio_Write off w v)\<rbrakk> \<Longrightarrow> \<exists>s'. wr s off w v = Some (s', Ok ()) \<and> inv s'"
begin

lemma run_safe: "\<lbrakk>inv s; list_all safe as\<rbrakk> \<Longrightarrow> \<exists>s'. mmio_run rd wr s as = Some s' \<and> inv s'"
proof (induction "as" arbitrary: s)
  case (Cons a "as")
  show ?case
  proof (cases a)
    case (Mmio_Read off w)
    with read_ok [OF Cons.prems(1), of off w] Cons.prems(2) obtain s1 v where "rd s off w = Some (s1, Ok v)" "inv s1"
      by auto
    with Cons.IH [of s1] Cons.prems(2) Mmio_Read show ?thesis by simp
  next
    case (Mmio_Write off w v)
    with write_ok [OF Cons.prems(1), of off w v] Cons.prems(2) obtain s1 where "wr s off w v = Some (s1, Ok ())" "inv s1"
      by auto
    with Cons.IH [of s1] Cons.prems(2) Mmio_Write show ?thesis by simp
  qed
qed simp

end

text \<open>A device every access of which is safe.\<close>

locale total_mmio_device = mmio_device "\<lambda>a. True" inv rd wr
  for inv :: "'s \<Rightarrow> bool"
    and rd :: "'s \<Rightarrow> usize \<Rightarrow> nat \<Rightarrow> ('s \<times> (u64, unit) result) option"
    and wr :: "'s \<Rightarrow> usize \<Rightarrow> nat \<Rightarrow> u64 \<Rightarrow> ('s \<times> (unit, unit) result) option"
begin

lemma run_total: "inv s \<Longrightarrow> \<exists>s'. mmio_run rd wr s as = Some s' \<and> inv s'"
  by (rule run_safe) (simp_all add: list_all_iff)

end

end
