(* ===== verification/Gicd_Props.thy ===== *)
theory Gicd_Props
  imports Gic_Redist Mmio_Device
begin

text \<open>
  What the emulated distributor does. The three banks of set/clear registers are refined to
  sets of interrupts: the enabled, the pending and the active ones. An access is decoded to
  the bank it touches, and the write is then a union or a difference of sets; triggering
  delivers interrupts without changing the sets in any other way.
\<close>

section \<open>Register banks as sets of interrupts\<close>

definition reg_set :: "u32 list \<Rightarrow> nat set" where
  "reg_set regs = {i. i < 32 * length regs \<and> bit (regs ! (i div 32)) (i mod 32)}"

text \<open>The interrupts whose bit is one in a value written to register \<open>k\<close> of a bank.\<close>

definition written :: "nat \<Rightarrow> u64 \<Rightarrow> nat set" where
  "written k v = {i. i div 32 = k \<and> bit v (i mod 32)}"

record gic_view =
  enabled :: "nat set"
  pending :: "nat set"
  active :: "nat set"

definition gicd_view :: "gicd \<Rightarrow> gic_view" where
  "gicd_view d = \<lparr>enabled = reg_set (d_enable d), pending = reg_set (d_pending d), active = reg_set (d_active d)\<rparr>"

text \<open>The specification of a write, for the six ranges of set and clear registers.\<close>

definition view_write :: "gic_view \<Rightarrow> usize \<Rightarrow> nat \<Rightarrow> u64 \<Rightarrow> gic_view" where
  "view_write g off w v =
     (if w \<noteq> 32 then g
      else if in_range 0x100 0x17C off then g\<lparr>enabled := enabled g \<union> written ((off - 0x100) div 4) v\<rparr>
      else if in_range 0x180 0x1FC off then g\<lparr>enabled := enabled g - written ((off - 0x180) div 4) v\<rparr>
      else if in_range 0x200 0x27C off then g\<lparr>pending := pending g \<union> written ((off - 0x200) div 4) v\<rparr>
      else if in_range 0x280 0x2FC off then g\<lparr>pending := pending g - written ((off - 0x280) div 4) v\<rparr>
      else if in_range 0x300 0x37C off then g\<lparr>active := active g \<union> written ((off - 0x300) div 4) v\<rparr>
      else if in_range 0x380 0x3FC off then g\<lparr>active := active g - written ((off - 0x380) div 4) v\<rparr>
      else g)"

text \<open>The lengths of the Rust arrays.\<close>

definition gicd_wf :: "gicd \<Rightarrow> bool" where
  "gicd_wf d \<longleftrightarrow> length (d_group d) = 32 \<and> length (d_enable d) = 32 \<and> length (d_pending d) = 32 \<and>
     length (d_active d) = 32 \<and> length (d_priority d) = 255 \<and> length (d_configuration d) = 64 \<and>
     length (d_group_modifier d) = 32 \<and> length (d_router d) = 1020"

lemma gicd_new_wf: "gicd_wf gicd_new"
  by (simp add: gicd_wf_def gicd_new_def)

lemma reg_bit_eq:
  assumes "i < 32 * length regs"
  shows "reg_bit regs i = Some (of_bool (i \<in> reg_set regs))"
proof -
  have "i div 32 < length regs" using assms by (simp add: less_mult_imp_div_less mult.commute)
  moreover have "drop_bit (i mod 32) (regs ! (i div 32)) AND 1 = of_bool (bit (regs ! (i div 32)) (i mod 32))"
    by (simp add: and_one_eq bit_iff_odd_drop_bit odd_iff_mod_2_eq_one)
  ultimately show ?thesis using assms by (simp add: reg_bit_def arr_get_def reg_set_def)
qed

lemma set_reg_bit_eq:
  assumes "i < 32 * length regs"
  shows "\<exists>regs'. set_reg_bit regs i b = Some regs' \<and> length regs' = length regs \<and>
    reg_set regs' = (if b then insert i (reg_set regs) else reg_set regs - {i})"
proof -
  let ?k = "i div 32" and ?j = "i mod 32"
  have k: "?k < length regs" using assms by (simp add: less_mult_imp_div_less mult.commute)
  define r where "r = (if b then regs ! ?k OR push_bit ?j 1 else regs ! ?k AND NOT (push_bit ?j 1))"
  have b: "bit r n \<longleftrightarrow> (if n = ?j then b else bit (regs ! ?k) n)" if "n < 32" for n
    using that by (auto simp: r_def bit_simps bit_push_bit_iff bit_1_iff)
  have "x \<in> reg_set (regs[?k := r]) \<longleftrightarrow> x \<in> (if b then insert i (reg_set regs) else reg_set regs - {i})" for x
  proof (cases "x div 32 = ?k")
    case True
    then have "x mod 32 = ?j \<longleftrightarrow> x = i" by (metis mod_div_mult_eq)
    moreover have "bit r (x mod 32) \<longleftrightarrow> (if x mod 32 = ?j then b else bit (regs ! ?k) (x mod 32))"
      by (rule b) simp
    ultimately show ?thesis using True k assms by (auto simp: reg_set_def)
  next
    case False
    then show ?thesis using k by (auto simp: reg_set_def)
  qed
  then have "reg_set (regs[?k := r]) = (if b then insert i (reg_set regs) else reg_set regs - {i})" by blast
  moreover have "set_reg_bit regs i b = Some (regs[?k := r])"
    using k by (simp add: set_reg_bit_def arr_get_def arr_set_def r_def)
  ultimately show ?thesis by simp
qed

lemma reg_set_update:
  assumes "k < length regs" and "\<And>n. n < 32 \<Longrightarrow> bit r n = f (bit (regs ! k) n) (bit v n)"
  shows "reg_set (regs[k := r]) =
    {i. if i div 32 = k then f (i \<in> reg_set regs) (i \<in> written k v) else i \<in> reg_set regs}"
proof (rule set_eqI)
  fix i
  have "i < 32 * length regs" if "i div 32 = k" using that assms(1) by (metis div_less_iff_less_mult mult.commute zero_less_numeral)
  moreover have "bit r (i mod 32) = f (bit (regs ! k) (i mod 32)) (bit v (i mod 32))" by (rule assms(2)) simp
  ultimately show "(i \<in> reg_set (regs[k := r])) = (i \<in> {i. if i div 32 = k then f (i \<in> reg_set regs) (i \<in> written k v)
      else i \<in> reg_set regs})"
    using assms(1) by (auto simp: reg_set_def written_def)
qed

lemma modify_or:
  assumes "k < length regs"
  shows "modify_reg regs k (\<lambda>r. r OR ucast v) = Some (regs[k := regs ! k OR ucast v])"
    and "reg_set (regs[k := regs ! k OR ucast v]) = reg_set regs \<union> written k v"
proof -
  show "modify_reg regs k (\<lambda>r. r OR ucast v) = Some (regs[k := regs ! k OR ucast v])"
    using assms by (simp add: modify_reg_def arr_get_def arr_set_def)
  show "reg_set (regs[k := regs ! k OR ucast v]) = reg_set regs \<union> written k v"
    by (subst reg_set_update [OF assms, where f = "(\<or>)" and v = v]) (auto simp: bit_simps written_def)
qed

lemma modify_and_not:
  assumes "k < length regs"
  shows "modify_reg regs k (\<lambda>r. r AND NOT (ucast v)) = Some (regs[k := regs ! k AND NOT (ucast v)])"
    and "reg_set (regs[k := regs ! k AND NOT (ucast v)]) = reg_set regs - written k v"
proof -
  show "modify_reg regs k (\<lambda>r. r AND NOT (ucast v)) = Some (regs[k := regs ! k AND NOT (ucast v)])"
    using assms by (simp add: modify_reg_def arr_get_def arr_set_def)
  show "reg_set (regs[k := regs ! k AND NOT (ucast v)]) = reg_set regs - written k v"
    by (subst reg_set_update [OF assms, where f = "\<lambda>a b. a \<and> \<not> b" and v = v]) (auto simp: bit_simps written_def)
qed

lemma modify_reg_bound: "modify_reg regs k f = Some r \<Longrightarrow> k < length regs"
  by (auto simp: modify_reg_def bind_eq_Some_conv checked_simps)

lemma modify_or_Some:
  assumes "modify_reg regs k (\<lambda>r. r OR ucast v) = Some r"
  shows "length r = length regs \<and> reg_set r = reg_set regs \<union> written k v"
  using modify_or [OF modify_reg_bound [OF assms], of v] assms by simp

lemma modify_and_not_Some:
  assumes "modify_reg regs k (\<lambda>r. r AND NOT (ucast v)) = Some r"
  shows "length r = length regs \<and> reg_set r = reg_set regs - written k v"
  using modify_and_not [OF modify_reg_bound [OF assms], of v] assms by simp

section \<open>Triggering an interrupt\<close>

text \<open>When an interrupt goes to a list register, which entry it is and where it goes.\<close>

definition group_enabled :: "gicd \<Rightarrow> bool" where
  "group_enabled d \<longleftrightarrow> d_ctlr d AND GICD_CTLR_ENABLE_GRP1NS \<noteq> 0"

definition deliverable :: "gicd \<Rightarrow> nat \<Rightarrow> bool" where
  "deliverable d i \<longleftrightarrow> group_enabled d \<and> i \<in> reg_set (d_enable d) \<and> i \<notin> reg_set (d_group_modifier d) \<and>
     d_ctlr d AND GICD_CTLR_ARE_S \<noteq> 0"

definition same_cpu :: "u64 \<Rightarrow> u64 \<Rightarrow> bool" where
  "same_cpu r m \<longleftrightarrow> aff3 r = aff3 m \<and> aff2 r = aff2 m \<and> aff1 r = aff1 m \<and> aff0 r = aff0 m"

definition priority_of :: "u32 list \<Rightarrow> nat \<Rightarrow> u32" where
  "priority_of regs i = drop_bit (i mod 4 * 8) (regs ! (i div 4)) AND 0xFF"

definition gicd_entry :: "gicd \<Rightarrow> nat \<Rightarrow> nat option \<Rightarrow> u64" where
  "gicd_entry d i phys =
     create_list_register_entry i (of_bool (i \<in> reg_set (d_group d))) (priority_of (d_priority d) i) phys"

lemma reg_byte_eq: "i < 4 * length regs \<Longrightarrow> reg_byte regs i = Some (priority_of regs i)"
  by (simp add: reg_byte_def arr_get_def priority_of_def less_mult_imp_div_less mult.commute)

lemma gicd_wf_lengths:
  assumes "gicd_wf d"
  shows "length (d_group d) = 32" "length (d_enable d) = 32" "length (d_pending d) = 32"
    "length (d_active d) = 32" "length (d_priority d) = 255" "length (d_configuration d) = 64"
    "length (d_group_modifier d) = 32" "length (d_router d) = 1020"
  using assms by (simp_all add: gicd_wf_def)

lemma change_pending_eq:
  assumes "gicd_wf d" "i < 1024"
  obtains p where "gicd_change_pending_status d i b = Some (d\<lparr>d_pending := p\<rparr>)" "length p = 32"
    "reg_set p = (if b then insert i (reg_set (d_pending d)) else reg_set (d_pending d) - {i})"
  using set_reg_bit_eq [of i "d_pending d" b] assms
  by (auto simp: gicd_change_pending_status_def gicd_wf_lengths)

text \<open>The whole behaviour of \<open>trigger_interrupt\<close> for an interrupt of the distributor.\<close>

lemma gicd_trigger_eq:
  assumes wf: "gicd_wf d" and i: "i < 1020"
  obtains p where "length p = 32" "reg_set p = insert i (reg_set (d_pending d))"
    "gicd_trigger_interrupt c d i phys =
       (if \<not> group_enabled d then Some (c, d)
        else if \<not> deliverable d i then Some (c, d\<lparr>d_pending := p\<rparr>)
        else if same_cpu (d_router d ! i) (mpidr_el1 c)
        then Some (add_virtual_interrupt c (gicd_entry d i phys), d\<lparr>d_pending := p\<rparr>)
        else if aff0 (d_router d ! i) < 16
        then Some (c\<lparr>icc_sgi1r := icc_sgi1r c @ [sgi1r_value (d_router d ! i)]\<rparr>,
                   d\<lparr>d_pending := p, d_to_inject := d_to_inject d @ [gicd_entry d i phys]\<rparr>)
        else None)"
proof -
  obtain p where p: "gicd_change_pending_status d i True = Some (d\<lparr>d_pending := p\<rparr>)" "length p = 32"
    "reg_set p = insert i (reg_set (d_pending d))"
    using change_pending_eq [OF wf, of i True] i by auto
  note l = gicd_wf_lengths [OF wf]
  have b: "reg_bit (d_enable d) i = Some (of_bool (i \<in> reg_set (d_enable d)))"
    "reg_bit (d_group_modifier d) i = Some (of_bool (i \<in> reg_set (d_group_modifier d)))"
    "reg_bit (d_group d) i = Some (of_bool (i \<in> reg_set (d_group d)))"
    "reg_byte (d_priority d) i = Some (priority_of (d_priority d) i)"
    "arr_get (d_router d) i = Some (d_router d ! i)"
    using i by (simp_all add: reg_bit_eq reg_byte_eq l arr_get_def)
  show ?thesis
    by (rule that [OF p(2,3)])
      (simp add: gicd_trigger_interrupt_def p(1) gicd_get_enable_def gicd_get_group_modifier_def gicd_get_group_def
        gicd_get_priority_def gicd_get_router_def b deliverable_def group_enabled_def same_cpu_def gicd_entry_def
        send_sgi_def rust_assert_def Let_def)
qed

text \<open>The last four bits of a bank: interrupts 1020 to 1023 have no priority register.\<close>

lemma gicd_trigger_high:
  assumes wf: "gicd_wf d" and i: "1020 \<le> i" "i < 1024"
  obtains p where "length p = 32" "reg_set p = insert i (reg_set (d_pending d))"
    "gicd_trigger_interrupt c d i phys =
       (if \<not> group_enabled d then Some (c, d)
        else if i \<in> reg_set (d_enable d) \<and> i \<notin> reg_set (d_group_modifier d) then None
        else Some (c, d\<lparr>d_pending := p\<rparr>))"
proof -
  obtain p where p: "gicd_change_pending_status d i True = Some (d\<lparr>d_pending := p\<rparr>)" "length p = 32"
    "reg_set p = insert i (reg_set (d_pending d))"
    using change_pending_eq [OF wf, of i True] i by auto
  note l = gicd_wf_lengths [OF wf]
  have b: "reg_bit (d_enable d) i = Some (of_bool (i \<in> reg_set (d_enable d)))"
    "reg_bit (d_group_modifier d) i = Some (of_bool (i \<in> reg_set (d_group_modifier d)))"
    "reg_bit (d_group d) i = Some (of_bool (i \<in> reg_set (d_group d)))"
    using i by (simp_all add: reg_bit_eq l)
  have "1020 div 4 \<le> i div 4" by (rule div_le_mono [OF i(1)])
  then have r: "reg_byte (d_priority d) i = None" by (simp add: reg_byte_def arr_get_def l)
  show ?thesis
    by (rule that [OF p(2,3)])
      (simp add: gicd_trigger_interrupt_def p(1) gicd_get_enable_def gicd_get_group_modifier_def gicd_get_group_def
        gicd_get_priority_def b r group_enabled_def)
qed

text \<open>What no trigger changes.\<close>

definition gicd_same_config :: "gicd \<Rightarrow> gicd \<Rightarrow> bool" where
  "gicd_same_config d d' \<longleftrightarrow> d_ctlr d' = d_ctlr d \<and> d_group d' = d_group d \<and> d_enable d' = d_enable d \<and>
     d_active d' = d_active d \<and> d_priority d' = d_priority d \<and> d_configuration d' = d_configuration d \<and>
     d_group_modifier d' = d_group_modifier d \<and> d_router d' = d_router d"

definition cpu_same_id :: "cpu \<Rightarrow> cpu \<Rightarrow> bool" where
  "cpu_same_id c c' \<longleftrightarrow> mpidr_el1 c' = mpidr_el1 c \<and> ich_vtr_el2 c' = ich_vtr_el2 c \<and>
     ich_eisr_el2 c' = ich_eisr_el2 c \<and> cpu_ok c' = cpu_ok c"

definition gicd_step_ok :: "cpu \<Rightarrow> gicd \<Rightarrow> cpu \<Rightarrow> gicd \<Rightarrow> bool" where
  "gicd_step_ok c d c' d' \<longleftrightarrow> gicd_same_config d d' \<and> length (d_pending d') = length (d_pending d) \<and> cpu_same_id c c'"

lemmas gicd_step_defs = gicd_step_ok_def gicd_same_config_def cpu_same_id_def

lemma gicd_step_ok_refl: "gicd_step_ok c d c d"
  by (simp add: gicd_step_defs)

lemma gicd_step_ok_trans: "gicd_step_ok c1 d1 c2 d2 \<Longrightarrow> gicd_step_ok c2 d2 c3 d3 \<Longrightarrow> gicd_step_ok c1 d1 c3 d3"
  by (simp add: gicd_step_defs)

lemma gicd_step_ok_wf: "gicd_step_ok c d c' d' \<Longrightarrow> gicd_wf d' = gicd_wf d"
  by (simp add: gicd_step_defs gicd_wf_def)

lemma cpu_ok_sgi [simp]: "cpu_ok (c\<lparr>icc_sgi1r := q\<rparr>) = cpu_ok c"
  by (simp add: cpu_ok_def)

lemma set_reg_bit_bound: "set_reg_bit regs i b = Some r \<Longrightarrow> i < 32 * length regs"
  by (auto simp: set_reg_bit_def bind_eq_Some_conv checked_simps)

lemma gicd_trigger_bound:
  assumes "gicd_wf d" "gicd_trigger_interrupt c d i phys = Some (c', d')" "group_enabled d"
  shows "i < 1024"
proof -
  have "set_reg_bit (d_pending d) i True \<noteq> None"
    using assms(2,3) by (cases "set_reg_bit (d_pending d) i True")
      (simp_all add: gicd_trigger_interrupt_def group_enabled_def gicd_change_pending_status_def)
  then show ?thesis using gicd_wf_lengths [OF assms(1)] set_reg_bit_bound [of "d_pending d" i True] by auto
qed

lemma gicd_trigger_step:
  assumes wf: "gicd_wf d" and t: "gicd_trigger_interrupt c d i phys = Some (c', d')"
  shows "gicd_step_ok c d c' d'"
    and "reg_set (d_pending d') = (if group_enabled d then insert i (reg_set (d_pending d)) else reg_set (d_pending d))"
proof -
  note l = gicd_wf_lengths [OF wf]
  have "gicd_step_ok c d c' d' \<and>
    reg_set (d_pending d') = (if group_enabled d then insert i (reg_set (d_pending d)) else reg_set (d_pending d))"
  proof (cases "i < 1020")
    case True
    obtain p where p: "length p = 32" "reg_set p = insert i (reg_set (d_pending d))"
      and t': "gicd_trigger_interrupt c d i phys =
       (if \<not> group_enabled d then Some (c, d)
        else if \<not> deliverable d i then Some (c, d\<lparr>d_pending := p\<rparr>)
        else if same_cpu (d_router d ! i) (mpidr_el1 c)
        then Some (add_virtual_interrupt c (gicd_entry d i phys), d\<lparr>d_pending := p\<rparr>)
        else if aff0 (d_router d ! i) < 16
        then Some (c\<lparr>icc_sgi1r := icc_sgi1r c @ [sgi1r_value (d_router d ! i)]\<rparr>,
                   d\<lparr>d_pending := p, d_to_inject := d_to_inject d @ [gicd_entry d i phys]\<rparr>)
        else None)"
      using gicd_trigger_eq [OF wf True] by blast
    show ?thesis using t [unfolded t'] p l(3) by (elim if_Some_eqE) (clarsimp simp: gicd_step_defs)+
  next
    case False
    then show ?thesis
    proof (cases "group_enabled d")
      case ge: True
      from gicd_trigger_bound [OF wf t ge] False have i: "1020 \<le> i" "i < 1024" by simp_all
      obtain p where p: "length p = 32" "reg_set p = insert i (reg_set (d_pending d))"
        and t': "gicd_trigger_interrupt c d i phys =
         (if \<not> group_enabled d then Some (c, d)
          else if i \<in> reg_set (d_enable d) \<and> i \<notin> reg_set (d_group_modifier d) then None
          else Some (c, d\<lparr>d_pending := p\<rparr>))"
        using gicd_trigger_high [OF wf i] by blast
      show ?thesis using t [unfolded t'] p l(3) by (elim if_Some_eqE) (clarsimp simp: gicd_step_defs)+
    next
      case False
      then show ?thesis using t by (simp add: gicd_trigger_interrupt_def group_enabled_def gicd_step_ok_refl)
    qed
  qed
  then show "gicd_step_ok c d c' d'"
    and "reg_set (d_pending d') = (if group_enabled d then insert i (reg_set (d_pending d)) else reg_set (d_pending d))"
    by auto
qed

text \<open>The loop of a register write only triggers interrupts that are pending already.\<close>

definition loop_ready :: "(gicd \<Rightarrow> nat \<Rightarrow> bool option) \<Rightarrow> gicd \<Rightarrow> nat \<Rightarrow> u64 \<Rightarrow> bool" where
  "loop_ready ready d i v \<longleftrightarrow> ready = gicd_get_pending \<or> (\<forall>j. bit v j \<longrightarrow> i + j \<in> reg_set (d_pending d))"

lemma get_pending_True:
  assumes "gicd_wf d" shows "gicd_get_pending d i = Some True \<longleftrightarrow> i \<in> reg_set (d_pending d)"
proof (cases "i < 1024")
  case True
  then show ?thesis using assms by (simp add: gicd_get_pending_def reg_bit_eq gicd_wf_lengths)
next
  case False
  then show ?thesis using assms
    by (auto simp: gicd_get_pending_def reg_bit_def bind_eq_Some_conv checked_simps gicd_wf_lengths reg_set_def)
qed

lemma gicd_trigger_loop_step:
  assumes "gicd_wf d" "loop_ready ready d i v" "gicd_trigger_loop ready c d i v = Some (c', d')"
  shows "gicd_step_ok c d c' d' \<and> reg_set (d_pending d') = reg_set (d_pending d)"
  using assms
proof (induction ready c d i v rule: gicd_trigger_loop.induct)
  case (1 ready c d i v)
  show ?case
  proof (cases "v = 0")
    case True
    with "1.prems"(3) show ?thesis by (simp add: gicd_trigger_loop.simps [of ready c d i 0] gicd_step_ok_refl)
  next
    case False
    then obtain b c1 d1 where b: "(if v AND 1 \<noteq> 0 then ready d i else Some False) = Some b"
      and cd: "(if b then gicd_trigger_interrupt c d i None else Some (c, d)) = Some (c1, d1)"
      and l: "gicd_trigger_loop ready c1 d1 (i + 1) (drop_bit 1 v) = Some (c', d')"
      using "1.prems"(3) by (subst (asm) gicd_trigger_loop.simps) (auto simp: bind_eq_Some_conv)
    have i: "i \<in> reg_set (d_pending d)" if b
    proof -
      have "bit v 0" and r: "ready d i = Some True" using b that by (auto simp: bit_0 and_one_eq odd_iff_mod_2_eq_one split: if_splits)
      with "1.prems"(2) get_pending_True [OF "1.prems"(1), of i] show ?thesis by (auto simp: loop_ready_def)
    qed
    have s: "gicd_step_ok c d c1 d1" "reg_set (d_pending d1) = reg_set (d_pending d)"
      using cd i gicd_trigger_step [OF "1.prems"(1), of c i None c1 d1] by (auto simp: gicd_step_ok_refl split: if_splits)
    have "loop_ready ready d1 (i + 1) (drop_bit 1 v)"
      using "1.prems"(2) s(2) by (auto simp: loop_ready_def bit_drop_bit_eq)
    from "1.IH" [OF False b cd refl _ this l] gicd_step_ok_wf [OF s(1)] "1.prems"(1) s show ?thesis
      by (auto intro: gicd_step_ok_trans)
  qed
qed

section \<open>Writes refine the set operations\<close>

lemma in_range_disjoint: "in_range lo hi off \<Longrightarrow> hi < lo' \<or> hi' < lo \<Longrightarrow> \<not> in_range lo' hi' off"
  by (auto simp: in_range_def)

lemma bank_index: "in_range lo hi off \<Longrightarrow> hi = lo + 0x7C \<Longrightarrow> (off - lo) div 4 < 32"
  by (auto simp: in_range_def)

lemma loop_ready_written:
  assumes "v < 2 ^ 32" "written k v \<subseteq> reg_set (d_pending d)"
  shows "loop_ready ready d (k * 32) v"
proof -
  have "k * 32 + j \<in> reg_set (d_pending d)" if "bit v j" for j
  proof -
    have "v = take_bit 32 v" using assms(1) by (simp add: less_mask_eq take_bit_eq_mask)
    with that have "j < 32" by (metis bit_take_bit_iff)
    with that have "k * 32 + j \<in> written k v" by (simp add: written_def)
    with assms(2) show ?thesis by blast
  qed
  then show ?thesis by (simp add: loop_ready_def)
qed

lemma gicd_view_step:
  assumes "gicd_wf d" "loop_ready ready d i v" "gicd_trigger_loop ready c d i v = Some (c', d')"
  shows "gicd_view d' = gicd_view d" "gicd_wf d'" "cpu_same_id c c'" "d_router d' = d_router d"
proof -
  from gicd_trigger_loop_step [OF assms] have s: "gicd_step_ok c d c' d'" "reg_set (d_pending d') = reg_set (d_pending d)"
    by simp_all
  show "gicd_wf d'" using gicd_step_ok_wf [OF s(1)] assms(1) by simp
  show "cpu_same_id c c'" "gicd_view d' = gicd_view d" "d_router d' = d_router d"
    using s by (simp_all only: gicd_step_ok_def gicd_same_config_def gicd_view_def)
qed

lemma write_priority_length: "write_priority regs off w v = Some r \<Longrightarrow> length r = length regs"
  by (auto simp: write_priority_def Let_def modify_reg_def bind_eq_Some_conv checked_simps split: if_splits)

definition gicd_write_ok :: "cpu \<Rightarrow> gicd \<Rightarrow> usize \<Rightarrow> nat \<Rightarrow> u64 \<Rightarrow> cpu \<Rightarrow> gicd \<Rightarrow> bool" where
  "gicd_write_ok c d off w v c' d' \<longleftrightarrow>
     gicd_view d' = view_write (gicd_view d) off w v \<and> gicd_wf d' \<and> cpu_same_id c c' \<and>
     (d_router d' = d_router d \<or> w = 64 \<and> (\<exists>k. d_router d' = (d_router d)[k := v]))"

lemma cpu_same_id_refl [simp]: "cpu_same_id c c"
  by (simp add: cpu_same_id_def)

lemma view_high: "0x400 \<le> off \<Longrightarrow> view_write g off w v = g"
  by (simp add: view_write_def in_range_def)

lemma set_enable_ok:
  assumes wf: "gicd_wf d" and r: "in_range 0x100 0x17C off" "w = 32"
    and m: "modify_reg (d_enable d) ((off - 0x100) div 4) (\<lambda>r. r OR ucast v) = Some en"
    and t: "gicd_trigger_loop gicd_get_pending c (d\<lparr>d_enable := en\<rparr>) ((off - 0x100) div 4 * 32) v = Some cd"
    and cd: "cd = (c', d')"
  shows "gicd_write_ok c d off w v c' d'"
proof -
  from modify_or_Some [OF m] wf have "gicd_wf (d\<lparr>d_enable := en\<rparr>)" by (simp add: gicd_wf_def)
  from gicd_view_step [OF this _ t [unfolded cd]] modify_or_Some [OF m] r show ?thesis
    by (simp add: gicd_write_ok_def loop_ready_def view_write_def gicd_view_def)
qed

lemma set_pending_ok:
  assumes wf: "gicd_wf d" and v: "v < 2 ^ 32" and r: "in_range 0x200 0x27C off" "w = 32"
    and m: "modify_reg (d_pending d) ((off - 0x200) div 4) (\<lambda>r. r OR ucast v) = Some p"
    and t: "gicd_trigger_loop gicd_get_enable c (d\<lparr>d_pending := p\<rparr>) ((off - 0x200) div 4 * 4 * 8) v = Some cd"
    and cd: "cd = (c', d')"
  shows "gicd_write_ok c d off w v c' d'"
proof -
  let ?d = "d\<lparr>d_pending := p\<rparr>"
  from modify_or_Some [OF m] wf have "gicd_wf ?d" by (simp add: gicd_wf_def)
  moreover have "loop_ready gicd_get_enable ?d ((off - 0x200) div 4 * 4 * 8) v"
    using loop_ready_written [OF v, of "(off - 0x200) div 4" ?d] modify_or_Some [OF m] by (simp add: mult.assoc)
  ultimately show ?thesis
    using gicd_view_step [OF _ _ t [unfolded cd]] modify_or_Some [OF m] r in_range_disjoint [OF r(1)]
    by (simp add: gicd_write_ok_def view_write_def gicd_view_def)
qed

lemma gicd_write_refines_aux:
  assumes wf: "gicd_wf d" and v: "w = 32 \<Longrightarrow> v < 2 ^ 32" and w: "gicd_write c d off w v = Some ((c', d'), q)"
  shows "gicd_write_ok c d off w v c' d' \<and> q = Ok ()"
proof -
  note u = view_write_def gicd_view_def gicd_write_ok_def wf [unfolded gicd_wf_def] gicd_wf_def
  have q: "q = Ok ()" using w by (auto simp: gicd_write_def bind_eq_Some_conv)
  have "gicd_write_ok c d off w v c' d'"
    using w unfolding gicd_write_def gicd_offsets Let_def
    apply (elim option_bindE if_Some_eqE conjE)
    subgoal by (clarsimp simp: u in_range_def)
    subgoal by (clarsimp simp: u checked_simps in_range_disjoint)
    subgoal by (rule set_enable_ok [OF wf]) simp_all
    subgoal by (clarsimp simp: u dest!: modify_and_not_Some)
    subgoal by (rule set_pending_ok [OF wf v]) simp_all
    subgoal by (clarsimp simp: u dest!: modify_and_not_Some)
    subgoal by (clarsimp simp: u dest!: modify_or_Some)
    subgoal by (clarsimp simp: u dest!: modify_and_not_Some)
    subgoal by (clarsimp simp: u view_high dest!: write_priority_length)
    subgoal by (clarsimp simp: u checked_simps in_range_disjoint)
    subgoal by (clarsimp simp: u checked_simps in_range_disjoint)
    subgoal by (clarsimp simp: u checked_simps) blast
    subgoal using wf by (clarsimp simp: view_write_def gicd_view_def gicd_write_ok_def)
    done
  with q show ?thesis by simp
qed

section \<open>Accesses that return\<close>

lemma read_reg_None: "read_reg regs i = None \<longleftrightarrow> length regs \<le> i"
  by (auto simp: read_reg_def arr_get_def)

lemma gicd_read_None_iff:
  assumes "gicd_wf d"
  shows "gicd_read d off w = None \<longleftrightarrow> w = 32 \<and> in_range 0xD80 0xF7C off"
proof
  note l = gicd_wf_lengths [OF assms]
  assume "gicd_read d off w = None"
  then show "w = 32 \<and> in_range 0xD80 0xF7C off"
    unfolding gicd_read_def gicd_offsets Let_def
    by (elim option_bind_NoneE if_None_eqE) (simp_all add: read_reg_None l in_range_def, linarith+)
next
  assume "w = 32 \<and> in_range 0xD80 0xF7C off"
  then have w: "w = 32" and off: "0xD80 \<le> off" "off \<le> 0xF7C" by (simp_all add: in_range_def)
  have "32 \<le> (off - 0xD00) div 4" using off(1) by simp
  then show "gicd_read d off w = None"
    unfolding gicd_read_def gicd_offsets in_range_def Let_def w
    using off by (simp add: read_reg_def arr_get_def gicd_wf_lengths [OF assms])
qed

definition routable :: "gicd \<Rightarrow> bool" where
  "routable d \<longleftrightarrow> (\<forall>r \<in> set (d_router d). aff0 r < 16)"

lemma gicd_trigger_total:
  assumes "gicd_wf d" "routable d" "i < 1020"
  shows "gicd_trigger_interrupt c d i phys \<noteq> None"
proof -
  have "aff0 (d_router d ! i) < 16" using assms by (simp add: routable_def gicd_wf_lengths)
  with gicd_trigger_eq [OF assms(1,3)] show ?thesis by (metis option.discI)
qed

lemma gicd_getters_total:
  assumes "gicd_wf d" "i < 1024"
  shows "gicd_get_pending d i \<noteq> None" "gicd_get_enable d i \<noteq> None"
  using assms by (simp_all add: gicd_get_pending_def gicd_get_enable_def reg_bit_eq gicd_wf_lengths)

lemma gicd_trigger_loop_total:
  assumes "gicd_wf d" "routable d" "\<And>j. bit v j \<Longrightarrow> i + j < 1020" "ready = gicd_get_pending \<or> ready = gicd_get_enable"
  shows "gicd_trigger_loop ready c d i v \<noteq> None"
  using assms
proof (induction ready c d i v rule: gicd_trigger_loop.induct)
  case (1 ready c d i v)
  show ?case
  proof (cases "v = 0")
    case True
    then show ?thesis by (simp add: gicd_trigger_loop.simps [of ready c d i 0])
  next
    case False
    have i: "i < 1020" if "v AND 1 \<noteq> 0"
      using "1.prems"(3) [of 0] that by (simp add: bit_0 and_one_eq odd_iff_mod_2_eq_one)
    obtain b where b: "(if v AND 1 \<noteq> 0 then ready d i else Some False) = Some b" and b1: "b \<Longrightarrow> v AND 1 \<noteq> 0"
      using gicd_getters_total [OF "1.prems"(1), of i] "1.prems"(4) i by (cases "v AND 1 \<noteq> 0") auto
    obtain c1 d1 where cd: "(if b then gicd_trigger_interrupt c d i None else Some (c, d)) = Some (c1, d1)"
      using gicd_trigger_total [OF "1.prems"(1,2) i, of c None] b1 by (cases b) auto
    have s: "gicd_step_ok c d c1 d1"
      using cd gicd_trigger_step(1) [OF "1.prems"(1)] by (cases b) (auto simp: gicd_step_ok_refl)
    have "gicd_wf d1" "routable d1"
      using gicd_step_ok_wf [OF s] s "1.prems"(1,2) by (simp_all add: routable_def gicd_step_defs)
    moreover have "i + 1 + j < 1020" if "bit (drop_bit 1 v) j" for j
      using "1.prems"(3) [of "1 + j"] that by (simp add: bit_drop_bit_eq)
    ultimately have "gicd_trigger_loop ready c1 d1 (i + 1) (drop_bit 1 v) \<noteq> None"
      using "1.IH" [OF False b cd refl _ _ _ "1.prems"(4)] by blast
    then show ?thesis using False b cd by (subst gicd_trigger_loop.simps) simp
  qed
qed

lemma bit_less_exp:
  assumes "v < 2 ^ n" "bit (v :: u64) j" shows "j < n"
proof (rule ccontr)
  assume "\<not> j < n"
  moreover have "v = take_bit n v" using assms(1) by (simp add: less_mask_eq take_bit_eq_mask)
  ultimately show False using assms(2) by (metis bit_take_bit_iff)
qed

text \<open>The accesses of a guest that cannot make the distributor panic.\<close>

fun gicd_safe :: "mmio_access \<Rightarrow> bool" where
  "gicd_safe (Mmio_Read off w) \<longleftrightarrow> \<not> (w = 32 \<and> in_range 0xD80 0xF7C off)"
| "gicd_safe (Mmio_Write off w v) \<longleftrightarrow> \<not> (w = 32 \<and> in_range 0xD80 0xF7C off) \<and>
     (w = 32 \<longrightarrow> v < 2 ^ 32 \<and> (off = 0x17C \<or> off = 0x27C \<longrightarrow> v < 2 ^ 28)) \<and> (w = 64 \<longrightarrow> aff0 v < 16)"

lemma write_priority_total: "off div 4 < length regs \<Longrightarrow> write_priority regs off w v \<noteq> None"
  by (simp add: write_priority_def modify_reg_def arr_get_def arr_set_def Let_def)

lemma loop_bound:
  assumes "v < 2 ^ 32" "k < 32" "k = 31 \<longrightarrow> v < 2 ^ 28" "bit (v :: u64) j"
  shows "k * 32 + j < 1020"
proof -
  have "j < 32" "k = 31 \<longrightarrow> j < 28" using assms bit_less_exp by blast+
  with assms(2) show ?thesis by (cases "k = 31") auto
qed

lemma arr_set_None: "arr_set xs i v = None \<longleftrightarrow> length xs \<le> i"
  by (auto simp: arr_set_def)

lemma modify_reg_None: "modify_reg regs i f = None \<longleftrightarrow> length regs \<le> i"
  by (auto simp: modify_reg_def arr_get_def arr_set_def)

lemma bank_modifyE:
  "modify_reg regs ((off - lo) div 4) f = None \<Longrightarrow> in_range lo hi off \<Longrightarrow> hi = lo + 0x7C \<Longrightarrow> length regs = 32 \<Longrightarrow> P"
  using bank_index [of lo hi off] by (simp add: modify_reg_None)

lemma bank_setE:
  "arr_set regs ((off - lo) div 4) v = None \<Longrightarrow> in_range lo hi off \<Longrightarrow> hi = lo + 0x7C \<Longrightarrow> length regs = 32 \<Longrightarrow> P"
  using bank_index [of lo hi off] by (simp add: arr_set_None)

lemma gicd_write_total:
  assumes wf: "gicd_wf d" and r: "routable d" and safe: "gicd_safe (Mmio_Write off w v)"
  shows "gicd_write c d off w v \<noteq> None"
proof
  note l = gicd_wf_lengths [OF wf]
  note u = arr_set_None modify_reg_None l
  have b: "k * 32 + j < 1020"
    if "w = 32" "in_range lo (lo + 0x7C) off" "lo = 0x100 \<or> lo = 0x200" "k = (off - lo) div 4" "bit v j" for k j lo
  proof (rule loop_bound)
    have "w = 32 \<longrightarrow> v < 2 ^ 32 \<and> (off = 0x17C \<or> off = 0x27C \<longrightarrow> v < 2 ^ 28)"
      using safe unfolding gicd_safe.simps by (elim conjE)
    with that(1) have v: "v < 2 ^ 32" "off = 0x17C \<or> off = 0x27C \<longrightarrow> v < 2 ^ 28" by blast+
    show "v < 2 ^ 32" by (rule v(1))
    have o: "lo \<le> off" "off \<le> lo + 0x7C" using that(2) by (simp_all add: in_range_def)
    then show "k < 32" unfolding that(4) by linarith
    have "off = lo + 0x7C" if "k = 31" using that o unfolding \<open>k = (off - lo) div 4\<close> by linarith
    with v(2) that(3) show "k = 31 \<longrightarrow> v < 2 ^ 28" by auto
  qed (rule that(5))
  have loop: "gicd_trigger_loop ready c d' (k * 32) v \<noteq> None"
    if "w = 32" "in_range lo (lo + 0x7C) off" "lo = 0x100 \<or> lo = 0x200" "k = (off - lo) div 4"
      "gicd_wf d'" "routable d'" "ready = gicd_get_pending \<or> ready = gicd_get_enable" for ready d' k lo
    using b [OF that(1-4)] that(5-7) by (intro gicd_trigger_loop_total) auto
  assume "gicd_write c d off w v = None"
  then show False
    unfolding gicd_write_def gicd_offsets Let_def
    apply (elim option_bind_NoneE if_None_eqE conjE; (simp only: option.distinct; fail)?)
    subgoal by (erule bank_setE, assumption) (simp_all add: l)
    subgoal by (erule bank_modifyE, assumption) (simp_all add: l)
    subgoal for en using loop [of "0x100" _ "d\<lparr>d_enable := en\<rparr>" gicd_get_pending] wf r
      by (simp add: gicd_wf_def routable_def modify_or_Some)
    subgoal by (erule bank_modifyE, assumption) (simp_all add: l)
    subgoal by (erule bank_modifyE, assumption) (simp_all add: l)
    subgoal for p using loop [of "0x200" _ "d\<lparr>d_pending := p\<rparr>" gicd_get_enable] wf r
      by (simp add: gicd_wf_def routable_def modify_or_Some mult.assoc)
    subgoal by (erule bank_modifyE, assumption) (simp_all add: l)
    subgoal by (erule bank_modifyE, assumption) (simp_all add: l)
    subgoal by (erule bank_modifyE, assumption) (simp_all add: l)
    subgoal using write_priority_total [of "off - 0x400" "d_priority d" w v] l by simp
    subgoal by (simp add: u in_range_def) linarith
    subgoal using safe by (simp add: u in_range_def) linarith
    subgoal by (simp add: u in_range_def) linarith
    done
qed

section \<open>The distributor as a device\<close>

definition gicd_dev_read :: "cpu \<times> gicd \<Rightarrow> usize \<Rightarrow> nat \<Rightarrow> ((cpu \<times> gicd) \<times> (u64, unit) result) option" where
  "gicd_dev_read s off w = do { r \<leftarrow> gicd_read (snd s) off w; ret (s, r) }"

definition gicd_dev_write :: "cpu \<times> gicd \<Rightarrow> usize \<Rightarrow> nat \<Rightarrow> u64 \<Rightarrow> ((cpu \<times> gicd) \<times> (unit, unit) result) option" where
  "gicd_dev_write s off w v = gicd_write (fst s) (snd s) off w v"

definition gicd_inv :: "cpu \<times> gicd \<Rightarrow> bool" where
  "gicd_inv s \<longleftrightarrow> gicd_wf (snd s) \<and> routable (snd s) \<and> cpu_ok (fst s)"

lemma gicd_read_Ok: "gicd_read d off w = Some r \<Longrightarrow> \<exists>v. r = Ok v"
  unfolding gicd_read_def by (erule option_bindE) (metis option.inject)

lemma gicd_write_keeps_inv:
  assumes inv: "gicd_inv (c, d)" and safe: "gicd_safe (Mmio_Write off w v)"
  shows "\<exists>s'. gicd_write c d off w v = Some (s', Ok ()) \<and> gicd_inv s'"
proof -
  have wf: "gicd_wf d" "routable d" "cpu_ok c" using inv by (simp_all add: gicd_inv_def)
  from gicd_write_total [OF wf(1,2) safe, of c] obtain c' d' q where w: "gicd_write c d off w v = Some ((c', d'), q)" by auto
  have "v < 2 ^ 32" if "w = 32" using safe that unfolding gicd_safe.simps by blast
  from gicd_write_refines_aux [OF wf(1) this w]
  have q: "q = Ok ()" "gicd_wf d'" "cpu_same_id c c'"
    and "d_router d' = d_router d \<or> w = 64 \<and> (\<exists>k. d_router d' = (d_router d)[k := v])"
    by (simp_all add: gicd_write_ok_def)
  moreover have "aff0 v < 16" if "w = 64" using safe that unfolding gicd_safe.simps by blast
  ultimately have "routable d'"
    using wf(2) set_update_subset_insert [of "d_router d" _ v] unfolding routable_def by fastforce
  with w q wf(3) show ?thesis by (auto simp: gicd_inv_def cpu_same_id_def)
qed

interpretation gicd: mmio_device gicd_safe gicd_inv gicd_dev_read gicd_dev_write
proof
  fix s :: "cpu \<times> gicd" and off w v
  show "\<exists>s' v. gicd_dev_read s off w = Some (s', Ok v) \<and> gicd_inv s'"
    if "gicd_inv s" "gicd_safe (Mmio_Read off w)"
    using that gicd_read_None_iff [of "snd s" off w] gicd_read_Ok [of "snd s" off w]
    by (cases "gicd_read (snd s) off w") (auto simp: gicd_dev_read_def gicd_inv_def)
  show "\<exists>s'. gicd_dev_write s off w v = Some (s', Ok ()) \<and> gicd_inv s'"
    if "gicd_inv s" "gicd_safe (Mmio_Write off w v)"
    using gicd_write_keeps_inv [of "fst s" "snd s" off w v] that by (simp add: gicd_dev_write_def)
qed

end
