(* ===== verification/Gic_Delivery.thy ===== *)
theory Gic_Delivery
  imports Gicd_Props
begin

text \<open>
  From a triggered interrupt to the list registers and back: local and remote delivery, the
  handler of the wake-up interrupt, the maintenance handler, and the redistributor as a device.
\<close>

section \<open>Delivery\<close>

lemma create_entry_vintid:
  assumes "i < 2 ^ 32"
  shows "lr_vintid (create_list_register_entry i g p ph) = word_of_nat i"
proof -
  have i: "n < 32" if "bit i n" for n
    using assms that by (metis bit_take_bit_iff take_bit_nat_eq_self)
  have hw: "bit ICH_LRN_EL2_HW n \<longleftrightarrow> n = 61" "bit ICH_LRN_EL2_EOI n \<longleftrightarrow> n = 41" for n
    unfolding ICH_LRN_EL2_HW_def ICH_LRN_EL2_EOI_def bit_push_bit_iff bit_1_iff possible_bit_word by auto
  show ?thesis
    unfolding lr_vintid_def vintid_mask create_list_register_entry_def
    by (rule bit_word_eqI)
      (auto simp: bit_simps status_pending_bit hw Let_def split: option.splits dest: i)
qed

text \<open>An interrupt is offered by a CPU when one of its list registers holds it as pending.\<close>

definition offered :: "cpu \<Rightarrow> nat \<Rightarrow> bool" where
  "offered c i \<longleftrightarrow> (\<exists>j < supported_lrn c. lr_pending (ich_lr c ! j) \<and> lr_vintid (ich_lr c ! j) = word_of_nat i)"

text \<open>No list register can take an interrupt: all are in use for others.\<close>

definition lrs_busy :: "cpu \<Rightarrow> nat \<Rightarrow> bool" where
  "lrs_busy c i \<longleftrightarrow> (\<forall>j < supported_lrn c. \<not> lr_inactive (ich_lr c ! j) \<and> lr_vintid (ich_lr c ! j) \<noteq> word_of_nat i)"

lemma add_create_entry:
  fixes g p :: u32 and ph :: "nat option"
  assumes c: "cpu_ok c" and i: "i < 2 ^ 32"
  defines "e \<equiv> create_list_register_entry i g p ph"
  shows "lrs_busy c i \<and> add_virtual_interrupt c e = c \<or>
    \<not> lrs_busy c i \<and> offered (add_virtual_interrupt c e) i \<and>
    (\<exists>j < supported_lrn c. lr_usable e (ich_lr c ! j) \<and>
       ich_lr (add_virtual_interrupt c e) = (ich_lr c)[j := lr_merge e (ich_lr c ! j)])"
proof -
  have v: "lr_vintid e = word_of_nat i" unfolding e_def by (rule create_entry_vintid [OF i])
  then have b: "lrs_busy c i \<longleftrightarrow> (\<forall>j < supported_lrn c. \<not> lr_usable e (ich_lr c ! j))"
    by (auto simp: lrs_busy_def lr_usable_def)
  have s: "supported_lrn (add_virtual_interrupt c e) = supported_lrn c" by (simp add: supported_lrn_def)
  have "lr_pending e" unfolding e_def by (rule create_entry_pending)
  from add_virtual_interrupt_spec [OF c this] show ?thesis
    unfolding b offered_def s v by blast
qed

lemma gicd_entry_offered:
  assumes "cpu_ok c" "i < 1020"
  shows "if lrs_busy c i then add_virtual_interrupt c (gicd_entry d i None) = c
    else offered (add_virtual_interrupt c (gicd_entry d i None)) i"
proof -
  have "i < 2 ^ 32" using assms(2) by simp
  from add_create_entry [OF assms(1) this, of "of_bool (i \<in> reg_set (d_group d))" "priority_of (d_priority d) i" None]
  show ?thesis unfolding gicd_entry_def by auto
qed

text \<open>What triggering an interrupt of a routable distributor gives the guest.\<close>

lemma gicd_trigger_raises:
  assumes "gicd_wf d" "routable d" "cpu_ok c" "i < 1020"
  obtains c' d' where "gicd_trigger_interrupt c d i None = Some (c', d')"
    "group_enabled d \<longrightarrow> i \<in> pending (gicd_view d')"
    "deliverable d i \<and> same_cpu (d_router d ! i) (mpidr_el1 c) \<and> \<not> lrs_busy c i \<longrightarrow> offered c' i"
proof -
  obtain c' d' where t: "gicd_trigger_interrupt c d i None = Some (c', d')"
    using gicd_trigger_total [OF assms(1,2,4), of c None] by auto
  moreover have "group_enabled d \<longrightarrow> i \<in> pending (gicd_view d')"
    using gicd_trigger_step(2) [OF assms(1) t] by (simp add: gicd_view_def)
  moreover have "offered c' i" if del: "deliverable d i" "same_cpu (d_router d ! i) (mpidr_el1 c)" "\<not> lrs_busy c i"
  proof -
    have "c' = add_virtual_interrupt c (gicd_entry d i None)"
      using gicd_trigger_eq [OF assms(1,4), of c None] del t by (auto simp: deliverable_def)
    then show ?thesis using gicd_entry_offered [OF assms(3,4), of d] del(3) by simp
  qed
  ultimately show ?thesis using that by blast
qed

section \<open>The maintenance handler\<close>

definition word_set :: "u32 \<Rightarrow> nat set" where
  "word_set r = {i. bit r i}"

lemma with_bit_False:
  assumes "i < 32"
  obtains p where "with_bit r i False = Some p" "word_set p = word_set r - {i}"
proof
  show "with_bit r i False = Some (r AND NOT (push_bit i 1))" using assms by (simp add: with_bit_def)
  show "word_set (r AND NOT (push_bit i 1)) = word_set r - {i}"
    using bit_imp_le_length [of r] by (auto simp: word_set_def bit_simps bit_push_bit_iff bit_1_iff)
qed

text \<open>The interrupts of the list registers from \<open>k\<close> on whose end was signalled.\<close>

definition ended :: "u64 \<Rightarrow> u64 list \<Rightarrow> nat \<Rightarrow> nat \<Rightarrow> nat set" where
  "ended eisr lrs k n = {unat (lr_vintid (lrs ! j)) |j. k \<le> j \<and> j < n \<and> bit eisr j}"

lemma ended_step:
  "k < n \<Longrightarrow> ended eisr lrs k n =
     (if bit eisr k then insert (unat (lr_vintid (lrs ! k))) (ended eisr lrs (Suc k) n) else ended eisr lrs (Suc k) n)"
  unfolding ended_def by (auto simp: Suc_le_eq) (metis Suc_leI le_neq_implies_less)+

lemma ended_update: "j < k \<Longrightarrow> ended eisr (lrs[j := x]) k n = ended eisr lrs k n"
  unfolding ended_def by (rule Collect_cong) (metis leD nth_list_update_neq)

definition gicd_retire :: "gicd \<Rightarrow> nat set \<Rightarrow> gicd \<Rightarrow> bool" where
  "gicd_retire d E d' \<longleftrightarrow> gicd_wf d' \<and>
     gicd_view d' = (gicd_view d)\<lparr>pending := pending (gicd_view d) - E, active := active (gicd_view d) - E\<rparr>"

definition gicr_retire :: "gicr \<Rightarrow> nat set \<Rightarrow> gicr \<Rightarrow> bool" where
  "gicr_retire r E r' \<longleftrightarrow> (\<exists>p a. r' = r\<lparr>r_pending := p, r_active := a\<rparr> \<and>
     word_set p = word_set (r_pending r) - E \<and> word_set a = word_set (r_active r) - E)"

lemma gicd_retire_one:
  assumes wf: "gicd_wf d" and i: "i < 1024"
  obtains d1 d2 where "gicd_change_pending_status d i False = Some d1"
    "gicd_change_active_status d1 i False = Some d2" "gicd_retire d {i} d2"
proof -
  from change_pending_eq [OF wf i, of False] obtain p where
    p: "gicd_change_pending_status d i False = Some (d\<lparr>d_pending := p\<rparr>)" "length p = 32"
    "reg_set p = reg_set (d_pending d) - {i}" by auto
  from set_reg_bit_eq [of i "d_active d" False] i gicd_wf_lengths [OF wf] obtain a where
    a: "set_reg_bit (d_active d) i False = Some a" "length a = 32" "reg_set a = reg_set (d_active d) - {i}" by auto
  show ?thesis
  proof (rule that [OF p(1)])
    show "gicd_change_active_status (d\<lparr>d_pending := p\<rparr>) i False = Some (d\<lparr>d_pending := p, d_active := a\<rparr>)"
      by (simp add: gicd_change_active_status_def a)
    show "gicd_retire d {i} (d\<lparr>d_pending := p, d_active := a\<rparr>)"
      using wf p a by (simp add: gicd_retire_def gicd_view_def gicd_wf_def)
  qed
qed

lemma gicr_retire_one:
  assumes i: "i < 32"
  obtains r1 r2 where "gicr_change_pending_status r i False = Some r1"
    "gicr_change_active_status r1 i False = Some r2" "gicr_retire r {i} r2"
proof -
  from with_bit_False [OF i] obtain p a where
    p: "with_bit (r_pending r) i False = Some p" "word_set p = word_set (r_pending r) - {i}" and
    a: "with_bit (r_active r) i False = Some a" "word_set a = word_set (r_active r) - {i}" by metis
  show ?thesis
  proof (rule that)
    show "gicr_change_pending_status r i False = Some (r\<lparr>r_pending := p\<rparr>)"
      by (simp add: gicr_change_pending_status_def p)
    show "gicr_change_active_status (r\<lparr>r_pending := p\<rparr>) i False = Some (r\<lparr>r_pending := p, r_active := a\<rparr>)"
      by (simp add: gicr_change_active_status_def a)
    show "gicr_retire r {i} (r\<lparr>r_pending := p, r_active := a\<rparr>)"
      unfolding gicr_retire_def using p a by blast
  qed
qed


lemma gicd_retire_trans:
  assumes "gicd_retire d E d1" "gicd_retire d1 F d2" shows "gicd_retire d (E \<union> F) d2"
  using assms by (simp add: gicd_retire_def Diff_Un Diff_Int_distrib2 set_diff_eq conj_ac)

lemma gicr_retire_trans:
  assumes "gicr_retire r E r1" "gicr_retire r1 F r2" shows "gicr_retire r (E \<union> F) r2"
  using assms unfolding gicr_retire_def by (fastforce simp: Diff_Un)

lemma gicd_retire_empty: "gicd_wf d \<Longrightarrow> gicd_retire d {} d"
  by (simp add: gicd_retire_def)

lemma gicr_retire_empty: "gicr_retire r {} r"
  unfolding gicr_retire_def by (rule exI [of _ "r_pending r"], rule exI [of _ "r_active r"]) simp

abbreviation spis :: "nat set \<Rightarrow> nat set" where
  "spis E \<equiv> {i \<in> E. 32 \<le> i}"

abbreviation private_ints :: "nat set \<Rightarrow> nat set" where
  "private_ints E \<equiv> {i \<in> E. i < 32}"

lemma maintenance_step:
  assumes wf: "gicd_wf d" and i: "i < 1024"
  obtains d' r' where
    "(if i \<ge> 32 then do {
             d \<leftarrow> gicd_change_pending_status d i False;
             d \<leftarrow> gicd_change_active_status d i False;
             ret (d, r) }
           else do {
             r \<leftarrow> gicr_change_pending_status r i False;
             r \<leftarrow> gicr_change_active_status r i False;
             ret (d, r) }) = Some (d', r')"
    "gicd_retire d (spis {i}) d'" "gicr_retire r (private_ints {i}) r'"
proof (cases "32 \<le> i")
  case True
  then have e: "spis {i} = {i}" "private_ints {i} = {}" by auto
  from gicd_retire_one [OF wf i] obtain d1 d2 where "gicd_change_pending_status d i False = Some d1"
    "gicd_change_active_status d1 i False = Some d2" "gicd_retire d {i} d2" .
  with True that [of d2 r] show ?thesis unfolding e by (simp add: gicr_retire_empty)
next
  case False
  then have e: "spis {i} = {}" "private_ints {i} = {i}" by auto
  from gicr_retire_one [of i r] False obtain r1 r2 where "gicr_change_pending_status r i False = Some r1"
    "gicr_change_active_status r1 i False = Some r2" "gicr_retire r {i} r2" by auto
  with False that [of d r2] show ?thesis unfolding e by (simp add: gicd_retire_empty [OF wf])
qed

definition retire_lrs :: "u64 \<Rightarrow> u64 list \<Rightarrow> nat \<Rightarrow> nat \<Rightarrow> u64 list" where
  "retire_lrs eisr lrs k n = map (\<lambda>j. if k \<le> j \<and> j < n \<and> bit eisr j then 0 else lrs ! j) [0..<length lrs]"

lemma retire_lrs_step:
  "k < n \<Longrightarrow> k < length lrs \<Longrightarrow> retire_lrs eisr lrs k n =
     retire_lrs eisr (if bit eisr k then lrs[k := 0] else lrs) (Suc k) n"
  unfolding retire_lrs_def by (rule nth_equalityI) (auto simp: nth_list_update Suc_le_eq le_less)

lemma maintenance_loop_spec:
  assumes "gicd_wf d" "n \<le> length (ich_lr c)" "k \<le> n" "\<forall>i \<in> ended eisr (ich_lr c) k n. i < 1024"
  shows "\<exists>d' r'. maintenance_loop c d r (drop_bit k eisr) [k..<n] =
      Some (c\<lparr>ich_lr := retire_lrs eisr (ich_lr c) k n\<rparr>, d', r') \<and>
    gicd_retire d (spis (ended eisr (ich_lr c) k n)) d' \<and>
    gicr_retire r (private_ints (ended eisr (ich_lr c) k n)) r'"
  using assms
proof (induction "n - k" arbitrary: c d r k)
  case 0
  then have "k = n" by simp
  then have "ended eisr (ich_lr c) k n = {}" by (auto simp: ended_def)
  moreover have "retire_lrs eisr (ich_lr c) k n = ich_lr c"
    unfolding retire_lrs_def \<open>k = n\<close> by (rule nth_equalityI) auto
  ultimately show ?case using \<open>k = n\<close> 0 by (simp add: gicd_retire_empty gicr_retire_empty)
next
  case (Suc m)
  then have k: "k < n" "k < length (ich_lr c)" and u: "[k..<n] = k # [Suc k..<n]" by (auto simp: upt_conv_Cons)
  have dr: "drop_bit 1 (drop_bit k eisr) = drop_bit (Suc k) eisr" by simp
  have b: "drop_bit k eisr AND 1 \<noteq> 0 \<longleftrightarrow> bit eisr k"
    by (simp add: and_one_eq bit_iff_odd_drop_bit odd_iff_mod_2_eq_one)
  let ?E = "ended eisr (ich_lr c) (Suc k) n"
  show ?case
  proof (cases "bit eisr k")
    case False
    have e: "ended eisr (ich_lr c) k n = ?E" using ended_step [OF k(1)] False by simp
    from Suc.hyps(1) [of "Suc k" d c r] Suc.prems Suc.hyps(2) False b k e dr show ?thesis
      by (simp add: u retire_lrs_step del: drop_bit_drop_bit)
  next
    case True
    let ?i = "unat (lr_vintid (ich_lr c ! k))" and ?c = "c\<lparr>ich_lr := (ich_lr c)[k := 0]\<rparr>"
    have e: "ended eisr (ich_lr c) k n = insert ?i ?E" using ended_step [OF k(1)] True by simp
    have eu: "ended eisr (ich_lr ?c) (Suc k) n = ?E" by (simp add: ended_update)
    from maintenance_step [OF Suc.prems(1), of ?i r] Suc.prems(4) e obtain d1 r1 where
      s: "(if ?i \<ge> 32 then do {
             d \<leftarrow> gicd_change_pending_status d ?i False;
             d \<leftarrow> gicd_change_active_status d ?i False;
             ret (d, r) }
           else do {
             r \<leftarrow> gicr_change_pending_status r ?i False;
             r \<leftarrow> gicr_change_active_status r ?i False;
             ret (d, r) }) = Some (d1, r1)"
      and dr1: "gicd_retire d (spis {?i}) d1" "gicr_retire r (private_ints {?i}) r1" by auto
    have "gicd_wf d1" using dr1(1) by (simp add: gicd_retire_def)
    moreover have "m = n - Suc k" using Suc.hyps(2) by simp
    ultimately have "\<exists>d' r'. maintenance_loop ?c d1 r1 (drop_bit (Suc k) eisr) [Suc k..<n] =
        Some (?c\<lparr>ich_lr := retire_lrs eisr (ich_lr ?c) (Suc k) n\<rparr>, d', r') \<and>
      gicd_retire d1 (spis ?E) d' \<and> gicr_retire r1 (private_ints ?E) r'"
      using Suc.hyps(1) [of "Suc k" d1 ?c r1] Suc.prems(2-4) k e eu by simp
    then
    obtain d2 r2 where l: "maintenance_loop ?c d1 r1 (drop_bit (Suc k) eisr) [Suc k..<n] =
        Some (?c\<lparr>ich_lr := retire_lrs eisr (ich_lr ?c) (Suc k) n\<rparr>, d2, r2)"
      and dr2: "gicd_retire d1 (spis ?E) d2" "gicr_retire r1 (private_ints ?E) r2"
      by blast
    have "maintenance_loop c d r (drop_bit k eisr) [k..<n] =
        Some (c\<lparr>ich_lr := retire_lrs eisr (ich_lr c) k n\<rparr>, d2, r2)"
      unfolding u maintenance_loop.simps dr Let_def
      using l b True k by (simp add: arr_get_def arr_set_def s [unfolded lr_vintid_def] retire_lrs_step)
    moreover have "spis (insert ?i ?E) = spis {?i} \<union> spis ?E"
      "private_ints (insert ?i ?E) = private_ints {?i} \<union> private_ints ?E" by auto
    ultimately show ?thesis
      unfolding e using gicd_retire_trans [OF dr1(1) dr2(1)] gicr_retire_trans [OF dr1(2) dr2(2)] by auto
  qed
qed

section \<open>The redistributor as a device\<close>

definition gicr_inv :: "cpu \<times> gicr \<Rightarrow> bool" where
  "gicr_inv s \<longleftrightarrow> cpu_ok (fst s) \<and> length (r_priority (snd s)) = 8 \<and> length (r_configuration (snd s)) = 2 \<and>
     aff0 (r_affinity (snd s)) < 16"

definition gicr_dev_read :: "cpu \<times> gicr \<Rightarrow> usize \<Rightarrow> nat \<Rightarrow> ((cpu \<times> gicr) \<times> (u64, unit) result) option" where
  "gicr_dev_read s off w = do { v \<leftarrow> gicr_read (snd s) off w; ret (s, v) }"

definition gicr_dev_write :: "cpu \<times> gicr \<Rightarrow> usize \<Rightarrow> nat \<Rightarrow> u64 \<Rightarrow> ((cpu \<times> gicr) \<times> (unit, unit) result) option" where
  "gicr_dev_write s off w v = gicr_write (fst s) (snd s) off w v"

lemma gicr_trigger_total:
  assumes "gicr_inv (c, r)" "i < 32"
  shows "\<exists>s'. gicr_trigger_interrupt c r i ph = Some s' \<and> gicr_inv s'"
proof -
  have "reg_byte (r_priority r) i = Some (priority_of (r_priority r) i)"
    using assms by (intro reg_byte_eq) (simp add: gicr_inv_def)
  with assms show ?thesis
    by (simp add: gicr_trigger_interrupt_def gicr_change_pending_status_def with_bit_def gicr_get_enable_def
        shr_bit_def gicr_get_group_modifier_def gicr_get_group_def gicr_get_priority_def send_sgi_def Let_def
        gicr_inv_def) auto
qed

lemma gicr_trigger_loop_total:
  assumes "gicr_inv (c, r)" "set ids \<subseteq> {..<32}" "ready = gicr_get_pending \<or> ready = gicr_get_enable"
  shows "\<exists>s'. gicr_trigger_loop ready c r ids v = Some s' \<and> gicr_inv s'"
  using assms(1,2)
proof (induction ids arbitrary: c r v)
  case (Cons i ids)
  then have i: "i < 32" by simp
  have "\<exists>b. ready r i = Some b"
    using assms(3) i by (auto simp: gicr_get_pending_def gicr_get_enable_def shr_bit_def)
  then obtain b where b: "(if v AND 1 \<noteq> 0 then ready r i else Some False) = Some b"
    by (cases "v AND 1 \<noteq> 0") auto
  obtain c1 r1 where cr: "(if b then gicr_trigger_interrupt c r i None else Some (c, r)) = Some (c1, r1)"
    and inv: "gicr_inv (c1, r1)"
    using gicr_trigger_total [OF Cons.prems(1) i, of None] Cons.prems(1) by (cases b) auto
  from Cons.IH [OF inv, of "drop_bit 1 v"] Cons.prems b cr show ?case by (cases "v = 0") simp_all
qed simp

lemma gicr_read_total:
  assumes inv: "gicr_inv (c, r)" shows "gicr_read r off w \<noteq> None"
proof
  assume "gicr_read r off w = None"
  then show False
    unfolding gicr_read_def gicr_offsets
    by (elim option_bind_NoneE if_None_eqE)
      (use inv in \<open>simp_all add: read_reg_None in_range_def gicr_inv_def, linarith+\<close>)
qed

lemma gicr_read_Ok: "gicr_read r off w = Some v \<Longrightarrow> \<exists>x. v = Ok x"
  unfolding gicr_read_def by (erule option_bindE) (metis option.inject)

lemma write_priority_Some:
  assumes "off div 4 < length regs"
  shows "\<exists>r. write_priority regs off w v = Some r \<and> length r = length regs"
  using write_priority_total [OF assms, of w v] write_priority_length [of regs off w v] by auto

lemma if_ex:
  assumes "P \<Longrightarrow> \<exists>s. m1 = Some s \<and> Q s" "\<not> P \<Longrightarrow> \<exists>s. m2 = Some s \<and> Q s"
  shows "\<exists>s. (if P then m1 else m2) = Some s \<and> Q s"
  using assms by simp

lemma gicr_write_total:
  assumes inv: "gicr_inv (c, r)"
  shows "\<exists>s'. gicr_write c r off w v = Some (s', Ok ()) \<and> gicr_inv s'"
proof -
  have loop: "\<exists>s'. gicr_trigger_loop ready c r' [0..<32] v = Some s' \<and> gicr_inv s'"
    if "gicr_inv (c, r')" "ready = gicr_get_pending \<or> ready = gicr_get_enable" for ready r'
    using that by (intro gicr_trigger_loop_total) auto
  have ex: "\<exists>s'. (do { cr \<leftarrow> m; Some (cr, Ok ()) }) = Some (s', Ok ()) \<and> gicr_inv s'"
    if "\<exists>s'. m = Some s' \<and> gicr_inv s'" for m :: "(cpu \<times> gicr) option" using that by auto
  show ?thesis
    unfolding gicr_write_def Let_def
    apply (rule ex)
    apply (intro if_ex)
    subgoal using inv by (simp add: gicr_inv_def)
    subgoal using inv by (simp add: gicr_inv_def)
    subgoal using inv by (intro loop) (simp_all add: gicr_inv_def)
    subgoal using inv by (simp add: gicr_inv_def)
    subgoal using inv by (intro loop) (simp_all add: gicr_inv_def)
    subgoal using inv by (simp add: gicr_inv_def)
    subgoal using inv by (simp add: gicr_inv_def)
    subgoal using inv by (simp add: gicr_inv_def)
    subgoal premises p
    proof -
      have "(off - GICR_IPRIORITYR0) div 4 < length (r_priority r)"
        using p inv by (simp add: gicr_offsets gicr_inv_def) linarith
      from write_priority_Some [OF this, of w v] inv show ?thesis by (auto simp: gicr_inv_def)
    qed
    subgoal premises p
    proof -
      have "(off - GICR_ICFGR0) div 4 < length (r_configuration r)"
        using p inv by (simp add: gicr_offsets gicr_inv_def in_range_def) linarith
      with inv show ?thesis by (auto simp: gicr_inv_def arr_set_def)
    qed
    subgoal using inv by (simp add: gicr_inv_def)
    subgoal using inv by (simp add: gicr_inv_def)
    done
qed

interpretation gicr: total_mmio_device gicr_inv gicr_dev_read gicr_dev_write
proof
  fix s :: "cpu \<times> gicr" and off w v
  obtain c r where s: "s = (c, r)" by (cases s)
  show "\<exists>s' v. gicr_dev_read s off w = Some (s', Ok v) \<and> gicr_inv s'" if "gicr_inv s"
    using that gicr_read_total [of c r off w] gicr_read_Ok [of r off w]
    by (cases "gicr_read r off w") (auto simp: gicr_dev_read_def s)
  show "\<exists>s'. gicr_dev_write s off w v = Some (s', Ok ()) \<and> gicr_inv s'" if "gicr_inv s"
    using gicr_write_total [of c r off w v] that by (simp add: gicr_dev_write_def s)
qed

end
