(* ===== verification/Gic_Spec.thy ===== *)
theory Gic_Spec
  imports Gic_Delivery
begin

text \<open>
  The properties of the virtual interrupt controller: the distributor and redistributor as
  devices, the refinement of the register banks to sets, delivery, and retirement.
\<close>

section \<open>Concrete states\<close>

definition cpu_at :: "u64 \<Rightarrow> cpu" where
  "cpu_at mpidr = \<lparr>mpidr_el1 = mpidr, ich_vtr_el2 = 3, ich_eisr_el2 = 0, ich_lr = [0, 0, 0], icc_sgi1r = []\<rparr>"

text \<open>Interrupts in group 1, affinity routing on, interrupt 34 enabled.\<close>

definition gicd_on :: gicd where
  "gicd_on = gicd_new\<lparr>d_ctlr := 0x12, d_enable := (replicate 32 0)[1 := 4]\<rparr>"

lemma cpu_at_ok: "cpu_ok (cpu_at m)" "supported_lrn (cpu_at m) = 3"
  by (simp_all add: cpu_at_def cpu_ok_def NUM_LR_def supported_lrn_def ICH_VTR_EL2_LIST_REGS_def)

lemma gicd_on_wf: "gicd_wf gicd_on"
  by (simp add: gicd_wf_def gicd_on_def gicd_new_def)

lemma reg_set_zero: "reg_set (replicate n 0) = {}"
  by (auto simp: reg_set_def less_mult_imp_div_less mult.commute)

lemma gicd_new_inv: "gicd_inv (cpu_at m, gicd_new)"
proof -
  have "routable gicd_new" by (simp add: routable_def gicd_new_def aff0_def)
  then show ?thesis by (simp add: gicd_inv_def gicd_new_wf cpu_at_ok)
qed

lemma cpu_at_free: "\<not> lrs_busy (cpu_at m) i"
proof -
  have "lr_inactive (ich_lr (cpu_at m) ! 0)"
    by (simp add: lr_inactive_def cpu_at_def ICH_LRN_EL2_STATUS_INACTIVE_def)
  then show ?thesis unfolding lrs_busy_def cpu_at_ok by (metis zero_less_numeral)
qed

lemma gicd_on_deliverable: "deliverable gicd_on 34"
proof -
  have "34 \<in> reg_set ((replicate 32 0)[1 := 4 :: u32])" by (simp add: reg_set_def bit_numeral_rec)
  then show ?thesis
    by (simp add: deliverable_def group_enabled_def gicd_on_def gicd_new_def reg_set_zero
        GICD_CTLR_ENABLE_GRP1NS_def GICD_CTLR_ARE_S_def)
qed

section \<open>Properties\<close>

text \<open>C16: a write access to the distributor that returns acts on the sets of enabled, pending and
  active interrupts as the architecture says: a set register adds the interrupts whose bits
  are written, a clear register removes them, every other register leaves the three sets
  alone, and the arrays keep their lengths.\<close>

theorem gicd_write_refines:
  assumes "gicd_wf d" "w = 32 \<longrightarrow> v < 2 ^ 32" "gicd_write c d off w v = Some ((c', d'), q)"
  shows "gicd_view d' = view_write (gicd_view d) off w v \<and> gicd_wf d' \<and> q = Ok ()"
  using gicd_write_refines_aux [OF assms(1) _ assms(3)] assms(2) by (simp add: gicd_write_ok_def)

theorem gicd_write_refines_witness:
  "\<exists>c' d' q. gicd_write (cpu_at 0) gicd_new 0x104 32 4 = Some ((c', d'), q) \<and> enabled (gicd_view d') = {34}"
proof -
  have "\<exists>s'. gicd_write (cpu_at 0) gicd_new 0x104 32 4 = Some (s', Ok ()) \<and> gicd_inv s'"
    by (rule gicd_write_keeps_inv [OF gicd_new_inv]) (simp add: in_range_def)
  then obtain c' d' where w: "gicd_write (cpu_at 0) gicd_new 0x104 32 4 = Some ((c', d'), Ok ())" by auto
  have "gicd_view d' = view_write (gicd_view gicd_new) 0x104 32 4"
    using gicd_write_refines [OF gicd_new_wf _ w] by simp
  moreover have "written 1 4 = {34}"
  proof -
    have "bit (4 :: u64) n \<longleftrightarrow> n = 2" for n
      using bit_push_bit_iff [of 2 "1 :: u64" n] by (auto simp: bit_1_iff push_bit_eq_mult)
    moreover have "i div 32 = 1 \<and> i mod 32 = 2 \<longleftrightarrow> i = 34" for i :: nat
      by presburger
    ultimately show ?thesis by (simp add: written_def)
  qed
  ultimately have "enabled (gicd_view d') = {34}"
    by (simp add: view_write_def in_range_def gicd_view_def gicd_new_def reg_set_zero)
  with w show ?thesis by blast
qed



text \<open>C18: reads of the distributor panic exactly for 32-bit accesses at 0xD80 to 0xF7C: the upper
  bound of the group modifier registers is too large for their array.\<close>

theorem gicd_read_panics_iff:
  assumes "gicd_wf d"
  shows "gicd_read d off w = None \<longleftrightarrow> w = 32 \<and> in_range 0xD80 0xF7C off"
  using assms by (rule gicd_read_None_iff)

theorem gicd_read_panics_iff_witness:
  "gicd_read gicd_new 0xE00 32 = None \<and> gicd_read gicd_new 0xD7C 32 \<noteq> None"
  using gicd_read_panics_iff [OF gicd_new_wf] by (simp add: in_range_def)

text \<open>C19: triggering an interrupt that is enabled, non-secure and routed to the current CPU makes
  it pending and offers it in a list register, unless every list register is in use for
  another interrupt; then only the pending bit records it.\<close>

theorem gicd_trigger_local:
  assumes wf: "gicd_wf d" "cpu_ok c" and i: "i < 1020" and del: "deliverable d i"
    and here: "same_cpu (d_router d ! i) (mpidr_el1 c)"
  shows "\<exists>c' d'. gicd_trigger_interrupt c d i None = Some (c', d') \<and>
    gicd_view d' = (gicd_view d)\<lparr>pending := insert i (pending (gicd_view d))\<rparr> \<and>
    (if lrs_busy c i then c' = c else offered c' i)"
proof -
  obtain p where p: "reg_set p = insert i (reg_set (d_pending d))"
    "gicd_trigger_interrupt c d i None =
       Some (add_virtual_interrupt c (gicd_entry d i None), d\<lparr>d_pending := p\<rparr>)"
    using gicd_trigger_eq [OF wf(1) i, of c None] del here by (auto simp: deliverable_def)
  with gicd_entry_offered [OF wf(2) i, of d] show ?thesis by (simp add: gicd_view_def)
qed

theorem gicd_trigger_local_witness:
  "\<exists>c' d'. gicd_trigger_interrupt (cpu_at 0) gicd_on 34 None = Some (c', d') \<and> offered c' 34"
proof -
  have "d_router gicd_on ! 34 = 0" by (simp add: gicd_on_def gicd_new_def)
  then have "same_cpu (d_router gicd_on ! 34) (mpidr_el1 (cpu_at 0))" by (simp add: same_cpu_def cpu_at_def)
  from gicd_trigger_local [OF gicd_on_wf cpu_at_ok(1) _ gicd_on_deliverable this] show ?thesis
    by (auto simp: cpu_at_free)
qed

text \<open>
  How the hardware reads a value written to \<open>ICC_SGI1R_EL1\<close> (Arm architecture): the interrupt number
  in bits 24 to 27, the affinity levels 3, 2 and 1 of the target in bits 48, 32 and 16, and a mask of
  sixteen values of level 0, with the range selector in bits 44 to 47; bit 40 sends to all others.
\<close>

definition sgi1r_intid :: "u64 \<Rightarrow> u64" where
  "sgi1r_intid v = drop_bit 24 v AND mask 4"

definition sgi1r_selects :: "u64 \<Rightarrow> u64 \<Rightarrow> bool" where
  "sgi1r_selects v m \<longleftrightarrow> \<not> bit v 40 \<and> drop_bit 48 v AND mask 8 = aff3 m \<and> drop_bit 32 v AND mask 8 = aff2 m \<and>
     drop_bit 16 v AND mask 8 = aff1 m \<and> unat (drop_bit 44 v AND mask 4) = unat (aff0 m) div 16 \<and>
     bit v (unat (aff0 m) mod 16)"

lemma bit_affinity:
  "bit (aff3 r) n \<longleftrightarrow> n < 8 \<and> bit r (32 + n)" "bit (aff2 r) n \<longleftrightarrow> n < 8 \<and> bit r (16 + n)"
  "bit (aff1 r) n \<longleftrightarrow> n < 8 \<and> bit r (8 + n)" "bit (aff0 r) n \<longleftrightarrow> n < 8 \<and> bit r n"
proof -
  have m: "push_bit k 1 - 1 = (mask k :: u64)" for k by (simp add: mask_eq_exp_minus_1)
  show "bit (aff3 r) n \<longleftrightarrow> n < 8 \<and> bit r (32 + n)" "bit (aff2 r) n \<longleftrightarrow> n < 8 \<and> bit r (16 + n)"
    "bit (aff1 r) n \<longleftrightarrow> n < 8 \<and> bit r (8 + n)" "bit (aff0 r) n \<longleftrightarrow> n < 8 \<and> bit r n"
    unfolding aff3_def aff2_def aff1_def aff0_def m by (auto simp: bit_simps)
qed

lemma word_11: "word_of_nat 11 = (11 :: u64)"
  by simp

lemma bit_11: "bit (11 :: u64) n \<longleftrightarrow> n \<in> {0, 1, 3}"
proof -
  have "(11 :: u64) = 1 OR push_bit 1 1 OR push_bit 3 1" by simp
  then show ?thesis by (simp only: bit_simps) auto
qed

lemma bit_sgi1r_value:
  assumes "aff1 r = 0"
  shows "bit (sgi1r_value r) n \<longleftrightarrow> n < 64 \<and> (48 \<le> n \<and> bit (aff3 r) (n - 48) \<or> 32 \<le> n \<and> bit (aff2 r) (n - 32) \<or>
    n \<in> {24, 25, 27} \<or> n = unat (aff0 r))"
proof -
  have "24 \<le> n \<and> n - 24 \<in> {0, 1, 3} \<longleftrightarrow> n \<in> {24, 25, 27}" by auto
  then show ?thesis unfolding sgi1r_value_def assms INJECT_INTERRUPT_INT_ID_def word_11 bit_or_iff bit_push_bit_iff bit_11 bit_1_iff
      possible_bit_word bit_0_eq
    by auto
qed

text \<open>With affinity level 1 equal to 0 the code's value addresses exactly the CPU of the router.\<close>

lemma sgi1r_value_selects:
  assumes "aff1 r = 0" "aff0 r < 16"
  shows "sgi1r_intid (sgi1r_value r) = word_of_nat INJECT_INTERRUPT_INT_ID" "sgi1r_selects (sgi1r_value r) m \<longleftrightarrow> same_cpu r m"
proof -
  let ?v = "sgi1r_value r"
  have a: "unat (aff0 r) < 16" using assms(2) by (simp add: word_less_nat_alt)
  note v = bit_sgi1r_value [OF assms(1)]
  show "sgi1r_intid ?v = word_of_nat INJECT_INTERRUPT_INT_ID" unfolding sgi1r_intid_def INJECT_INTERRUPT_INT_ID_def word_11
    by (rule bit_word_eqI, unfold bit_and_iff bit_drop_bit_eq bit_mask_iff bit_11) (use a in \<open>auto simp: v\<close>)
  have "drop_bit 48 ?v AND mask 8 = aff3 r" "drop_bit 32 ?v AND mask 8 = aff2 r" "drop_bit 16 ?v AND mask 8 = 0" "drop_bit 44 ?v AND mask 4 = 0"
    by (rule bit_word_eqI; use a in \<open>auto simp: bit_simps v bit_affinity\<close>)+
  moreover have "\<not> bit ?v 40" "bit ?v (k mod 16) \<longleftrightarrow> k mod 16 = unat (aff0 r)" for k
    using a mod_less_divisor [of 16 k] by (auto simp: v bit_affinity)
  moreover have "unat (aff0 m) div 16 = 0 \<and> unat (aff0 m) mod 16 = unat (aff0 r) \<longleftrightarrow> aff0 r = aff0 m"
    using a by (auto simp: word_unat_eq_iff)
  ultimately show "sgi1r_selects ?v m \<longleftrightarrow> same_cpu r m"
    using assms(1) by (auto simp: sgi1r_selects_def same_cpu_def)
qed

text \<open>C20: a deliverable interrupt routed to another CPU whose affinity level 1 is 0 and level 0 below 16
  is queued, and the software-generated interrupt that the code sends has the number of the injection handler and
  addresses exactly the CPU of the router; when that CPU runs the handler, with nothing queued before and
  a list register that can take the interrupt, the queues are emptied and the interrupt is offered there.\<close>

theorem gicd_trigger_remote:
  assumes wf: "gicd_wf d" and i: "i < 1020" and del: "deliverable d i"
    and there: "\<not> same_cpu (d_router d ! i) (mpidr_el1 c)" "aff0 (d_router d ! i) < 16" "aff1 (d_router d ! i) = 0"
    and empty: "d_to_inject d = []" "r_to_inject r = []"
    and target: "same_cpu (d_router d ! i) (mpidr_el1 t)" "cpu_ok t" "\<not> lrs_busy t i"
  shows "\<exists>v d' t' d'' r'. gicd_trigger_interrupt c d i None = Some (c\<lparr>icc_sgi1r := icc_sgi1r c @ [v]\<rparr>, d') \<and>
    sgi1r_intid v = word_of_nat INJECT_INTERRUPT_INT_ID \<and> sgi1r_selects v (mpidr_el1 t) \<and>
    (\<forall>m. sgi1r_selects v m \<longleftrightarrow> same_cpu (d_router d ! i) m) \<and>
    inject_interrupt_handler t d' r = (t', d'', r') \<and> offered t' i \<and> i \<in> pending (gicd_view d'') \<and>
    d_to_inject d'' = [] \<and> r_to_inject r' = []"
proof -
  let ?v = "sgi1r_value (d_router d ! i)"
  obtain p where p: "reg_set p = insert i (reg_set (d_pending d))"
    "gicd_trigger_interrupt c d i None =
       Some (c\<lparr>icc_sgi1r := icc_sgi1r c @ [?v]\<rparr>,
             d\<lparr>d_pending := p, d_to_inject := d_to_inject d @ [gicd_entry d i None]\<rparr>)"
    using gicd_trigger_eq [OF wf i, of c None] del there by (auto simp: deliverable_def)
  have "i < 2 ^ 32" using i by simp
  from add_create_entry [OF target(2) this, of "of_bool (i \<in> reg_set (d_group d))" "priority_of (d_priority d) i" None]
    target(3) have "offered (add_virtual_interrupt t (gicd_entry d i None)) i"
    unfolding gicd_entry_def by auto
  with p empty sgi1r_value_selects [OF there(3,2)] target(1) show ?thesis
    by (intro exI [of _ ?v]) (simp add: inject_interrupt_handler_def gicd_view_def)
qed

theorem gicd_trigger_remote_witness:
  "\<exists>v d' t' d'' r'. gicd_trigger_interrupt (cpu_at 1) gicd_on 34 None = Some ((cpu_at 1)\<lparr>icc_sgi1r := [v]\<rparr>, d') \<and>
     sgi1r_selects v 0 \<and> \<not> sgi1r_selects v 1 \<and> inject_interrupt_handler (cpu_at 0) d' (gicr_new 0) = (t', d'', r') \<and> offered t' 34"
proof -
  have r: "d_router gicd_on ! 34 = 0" by (simp add: gicd_on_def gicd_new_def)
  have "\<not> same_cpu 0 (mpidr_el1 (cpu_at 1))" "same_cpu 0 (mpidr_el1 (cpu_at 0))" "aff0 0 < 16" "aff1 0 = 0" "\<not> same_cpu 0 1"
    by (simp_all add: same_cpu_def cpu_at_def aff0_def aff1_def)
  moreover have "d_to_inject gicd_on = []" "r_to_inject (gicr_new 0) = []" "icc_sgi1r (cpu_at 1) = []" "mpidr_el1 (cpu_at 0) = 0"
    by (simp_all add: gicd_on_def gicd_new_def gicr_new_def cpu_at_def)
  ultimately show ?thesis
    using gicd_trigger_remote [OF gicd_on_wf _ gicd_on_deliverable _ _ _ _ _ _ cpu_at_ok(1) cpu_at_free,
        of "cpu_at 1" "gicr_new 0" 0] r
    by fastforce
qed

text \<open>C21: the maintenance handler frees exactly the list registers whose end of interrupt was
  signalled, and clears the pending and active state of exactly those interrupts: the shared
  ones in the distributor, the private ones in the redistributor.\<close>

theorem maintenance_retires:
  assumes "gicd_wf d" "cpu_ok c"
    and "\<forall>i \<in> ended (ich_eisr_el2 c) (ich_lr c) 0 (supported_lrn c). i < 1024"
  shows "\<exists>c' d' r'. maintenance_interrupt_handler c d r = Some (c', d', r') \<and>
    length (ich_lr c') = NUM_LR \<and>
    (\<forall>j < NUM_LR. ich_lr c' ! j = (if j < supported_lrn c \<and> bit (ich_eisr_el2 c) j then 0 else ich_lr c ! j)) \<and>
    gicd_retire d (spis (ended (ich_eisr_el2 c) (ich_lr c) 0 (supported_lrn c))) d' \<and>
    gicr_retire r (private_ints (ended (ich_eisr_el2 c) (ich_lr c) 0 (supported_lrn c))) r'"
proof -
  have "supported_lrn c \<le> length (ich_lr c)" using assms(2) by (simp add: cpu_ok_def supported_lrn_def)
  from maintenance_loop_spec [OF assms(1) this _ assms(3), of r] assms(2) show ?thesis
    by (auto simp: maintenance_interrupt_handler_def retire_lrs_def cpu_ok_def)
qed

theorem maintenance_retires_witness:
  "\<exists>c' d' r'. maintenance_interrupt_handler ((cpu_at 0)\<lparr>ich_eisr_el2 := 2, ich_lr := [7, 34, 5]\<rparr>) gicd_on (gicr_new 0) =
     Some (c', d', r') \<and> ich_lr c' ! 1 = 0 \<and> ich_lr c' ! 2 = 5 \<and>
     34 \<notin> pending (gicd_view d')"
proof -
  let ?c = "(cpu_at 0)\<lparr>ich_eisr_el2 := 2, ich_lr := [7, 34, 5]\<rparr>"
  have s: "supported_lrn ?c = 3"
    by (simp add: cpu_at_def NUM_LR_def supported_lrn_def ICH_VTR_EL2_LIST_REGS_def)
  have b: "bit (2 :: u64) j \<longleftrightarrow> j = 1" for j
    using bit_push_bit_iff [of 1 "1 :: u64" j] by (auto simp: bit_1_iff push_bit_eq_mult)
  have v: "lr_vintid 34 = 34" by (simp add: lr_vintid_def vintid_mask mask_eq_exp_minus_1)
  have e: "ended 2 [7, 34, 5] 0 3 = {34}" unfolding ended_def b using v by auto
  have "cpu_ok ?c" by (simp add: cpu_ok_def NUM_LR_def)
  from maintenance_retires [OF gicd_on_wf this, of "gicr_new 0", unfolded s] e
  obtain c' d' r' where h: "maintenance_interrupt_handler ?c gicd_on (gicr_new 0) = Some (c', d', r')"
    and l: "\<forall>j < NUM_LR. ich_lr c' ! j = (if j < 3 \<and> bit (2 :: u64) j then 0 else [7, 34, 5] ! j)"
    and d: "gicd_retire gicd_on (spis {34}) d'"
    by auto
  have "ich_lr c' ! 1 = 0" "ich_lr c' ! 2 = 5" using l b by (simp_all add: NUM_LR_def)
  moreover have "34 \<notin> pending (gicd_view d')" using d by (simp add: gicd_retire_def)
  ultimately show ?thesis using h by blast
qed

text \<open>C22: the redistributor of a CPU whose affinity level 0 is below 16 is a total device: no
  sequence of guest accesses makes it panic or report an error.\<close>

theorem gicr_guest_total:
  assumes "gicr_inv s"
  shows "\<exists>s'. mmio_run gicr_dev_read gicr_dev_write s accesses = Some s' \<and> gicr_inv s'"
  using assms by (rule gicr.run_total)

theorem gicr_guest_total_witness:
  "\<exists>s'. mmio_run gicr_dev_read gicr_dev_write (cpu_at 0, gicr_new 0)
     [Mmio_Write 0x14 32 0, Mmio_Write 0x10100 32 0xFFFFFFFF, Mmio_Write 0x10200 64 1, Mmio_Read 0x10420 32] = Some s' \<and>
     gicr_inv s'"
  by (rule gicr_guest_total) (simp add: gicr_inv_def cpu_at_ok gicr_new_def mpidr_to_affinity_def aff0_def)

section \<open>Priorities\<close>

lemma bit_priority_of: "bit (priority_of regs i) n \<longleftrightarrow> n < 8 \<and> bit (regs ! (i div 4)) (i mod 4 * 8 + n)"
proof -
  have "(0xFF :: u32) = mask 8" by (simp add: mask_eq_exp_minus_1)
  show ?thesis unfolding priority_of_def \<open>0xFF = mask 8\<close> by (auto simp: bit_simps)
qed

lemma write_priority_byte:
  assumes "i < 4 * length regs" "v < 0x100" "write_priority regs i 8 v = Some regs'"
  shows "priority_of regs' j = (if j = i then ucast v else priority_of regs j)"
proof (rule bit_word_eqI)
  fix n assume "n < LENGTH(32)"
  let ?k = "i div 4" and ?b = "i mod 4 * 8"
  have k: "?k < length regs" using assms(1) by (simp add: less_mult_imp_div_less mult.commute)
  have f: "(0xFF :: u32) = mask 8" by (simp add: mask_eq_exp_minus_1)
  have "i - ?k * 4 = i mod 4" by (simp add: minus_div_mult_eq_mod)
  then have r: "regs' = regs[?k := regs ! ?k AND NOT (push_bit ?b (mask 8)) OR ucast (push_bit ?b v)]"
    using assms(3) k by (simp add: write_priority_def modify_reg_def arr_get_def arr_set_def Let_def f)
  have v: "bit v m \<Longrightarrow> m < 8" for m using bit_less_exp [of v 8 m] assms(2) by simp
  show "bit (priority_of regs' j) n = bit (if j = i then ucast v else priority_of regs j) n"
  proof (cases "j div 4 = ?k")
    case False
    then show ?thesis by (auto simp: bit_priority_of r)
  next
    case True
    have j: "j = i \<longleftrightarrow> j mod 4 = i mod 4" using True by (metis mod_div_mult_eq)
    have "i mod 4 < 4" by simp
    then have in_word: "m < 8 \<Longrightarrow> i mod 4 * 8 + m < 32" for m by linarith
    have other: "\<not> bit v (j mod 4 * 8 + n - i mod 4 * 8) \<or> j mod 4 * 8 + n < i mod 4 * 8"
      "\<not> (i mod 4 * 8 \<le> j mod 4 * 8 + n \<and> j mod 4 * 8 + n - i mod 4 * 8 < 8)" if "j \<noteq> i" "n < 8"
    proof -
      have "j mod 4 < i mod 4 \<or> i mod 4 < j mod 4" using that(1) j by linarith
      then have "j mod 4 * 8 + 8 \<le> i mod 4 * 8 \<or> i mod 4 * 8 + 8 \<le> j mod 4 * 8" by linarith
      with that(2) v [of "j mod 4 * 8 + n - i mod 4 * 8"]
      show "\<not> bit v (j mod 4 * 8 + n - i mod 4 * 8) \<or> j mod 4 * 8 + n < i mod 4 * 8"
        "\<not> (i mod 4 * 8 \<le> j mod 4 * 8 + n \<and> j mod 4 * 8 + n - i mod 4 * 8 < 8)" by linarith+
    qed
    show ?thesis
    proof (cases "j = i")
      case True
      then show ?thesis using k v in_word \<open>n < LENGTH(32)\<close> by (auto simp: bit_priority_of r bit_simps)
    next
      case False
      then show ?thesis using k True other by (auto simp: bit_priority_of r bit_simps)
    qed
  qed
qed

lemma mask_FF: "(0xFF :: 'a :: len word) = mask 8"
  by (simp add: mask_eq_exp_minus_1)

lemma ucast_ucast_small: "v < 0x100 \<Longrightarrow> ucast (ucast (v :: u64) :: u32) = v"
  by (rule bit_word_eqI) (use bit_less_exp [of v 8] in \<open>force simp: bit_simps\<close>)

lemma gicd_read_priority:
  assumes "gicd_wf d" "j < 1020"
  shows "gicd_read d (GICD_IPRIORITYR0 + j) 8 = Some (Ok (ucast (priority_of (d_priority d) j)))"
    "gicd_get_priority d j = Some (priority_of (d_priority d) j)"
proof -
  have l: "j div 4 < length (d_priority d)" using assms by (simp add: gicd_wf_def)
  have "drop_bit (j mod 4 * 8) (ucast w) AND 0xFF = (ucast (drop_bit (j mod 4 * 8) w AND 0xFF) :: u64)" for w :: u32
    unfolding mask_FF by (rule bit_word_eqI) (auto simp: bit_simps)
  then show "gicd_read d (GICD_IPRIORITYR0 + j) 8 = Some (Ok (ucast (priority_of (d_priority d) j)))"
    using l assms(2) by (simp add: gicd_read_def gicd_offsets in_range_def read_reg_def arr_get_def priority_of_def
        minus_div_mult_eq_mod Let_def)
  show "gicd_get_priority d j = Some (priority_of (d_priority d) j)"
    using l assms(2) by (simp add: gicd_get_priority_def reg_byte_eq)
qed

text \<open>C23: a byte write of a value below 256 to the priority register of interrupt \<open>i\<close> is read back by a
  byte read of that register, leaves the byte of every other interrupt as it was, and sets
  the priority that list-register entries of the interrupt carry from then on.\<close>

theorem priority_write_roundtrip:
  assumes "gicd_wf d" "i < 1020" "v < 0x100"
  shows "\<exists>d'. gicd_write c d (GICD_IPRIORITYR0 + i) 8 v = Some ((c, d'), Ok ()) \<and>
    gicd_read d' (GICD_IPRIORITYR0 + i) 8 = Some (Ok v) \<and>
    (\<forall>j < 1020. j = i \<or> gicd_read d' (GICD_IPRIORITYR0 + j) 8 = gicd_read d (GICD_IPRIORITYR0 + j) 8) \<and>
    (\<forall>j < 1020. gicd_get_priority d' j = (if j = i then Some (ucast v) else gicd_get_priority d j))"
proof -
  have l: "length (d_priority d) = 255" using assms(1) by (simp add: gicd_wf_def)
  have "i div 4 < length (d_priority d)" using assms(2) l by simp
  from write_priority_Some [OF this, of 8 v] obtain p where
    p: "write_priority (d_priority d) i 8 v = Some p" "length p = 255" using l by auto
  let ?d = "d\<lparr>d_priority := p\<rparr>"
  have wf: "gicd_wf ?d" using assms(1) p(2) by (simp add: gicd_wf_def)
  have "gicd_write c d (GICD_IPRIORITYR0 + i) 8 v = Some ((c, ?d), Ok ())"
    using p(1) assms(2) by (simp add: gicd_write_def gicd_offsets in_range_def)
  moreover have pr: "priority_of p j = (if j = i then ucast v else priority_of (d_priority d) j)" if "j < 1020" for j
    using that write_priority_byte [OF _ assms(3) p(1), of j] assms(2) l by simp
  moreover have "ucast (ucast v :: u32) = v" using assms(3) by (simp add: ucast_ucast_small)
  ultimately show ?thesis using gicd_read_priority [OF assms(1)] gicd_read_priority [OF wf] assms(2)
    by (intro exI [of _ ?d]) simp
qed

theorem priority_write_roundtrip_witness:
  "\<exists>d'. gicd_write (cpu_at 0) gicd_new (GICD_IPRIORITYR0 + 34) 8 0xA0 = Some ((cpu_at 0, d'), Ok ()) \<and>
     gicd_read d' (GICD_IPRIORITYR0 + 34) 8 = Some (Ok 0xA0) \<and> gicd_get_priority d' 35 = gicd_get_priority gicd_new 35"
  using priority_write_roundtrip [OF gicd_new_wf, of 34 "0xA0" "cpu_at 0"] by auto

end
