(* ===== verification/Pl011_Mmio.thy ===== *)
theory Pl011_Mmio
  imports Gic_Mmio Mmio_Device
begin

text \<open>
  Model of \<open>src/src/mmio/pl011.rs\<close>, the emulated UART. A byte 0 in the four-byte receive buffer
  marks a free slot. The characters the guest prints are an explicit output.
\<close>

definition UART_DR :: usize where "UART_DR = 0x000"
definition UART_FR :: usize where "UART_FR = 0x018"
definition UART_CR :: usize where "UART_CR = 0x030"
definition UART_IMSC :: usize where "UART_IMSC = 0x038"
definition UART_RIS :: usize where "UART_RIS = 0x03C"
definition UART_ICR :: usize where "UART_ICR = 0x044"
definition UART_PERIPH_ID0 :: usize where "UART_PERIPH_ID0 = 0xFE0"
definition UART_PERIPH_ID1 :: usize where "UART_PERIPH_ID1 = 0xFE4"
definition UART_PERIPH_ID2 :: usize where "UART_PERIPH_ID2 = 0xFE8"
definition UART_PERIPH_ID3 :: usize where "UART_PERIPH_ID3 = 0xFEC"
definition UART_PCELL_ID0 :: usize where "UART_PCELL_ID0 = 0xFF0"
definition UART_PCELL_ID1 :: usize where "UART_PCELL_ID1 = 0xFF4"
definition UART_PCELL_ID2 :: usize where "UART_PCELL_ID2 = 0xFF8"
definition UART_PCELL_ID3 :: usize where "UART_PCELL_ID3 = 0xFFC"
definition UART_FR_RXFE :: u16 where "UART_FR_RXFE = push_bit 4 1"
definition UART_IMSC_RXIM :: u16 where "UART_IMSC_RXIM = push_bit 4 1"
definition UART_RIS_RXRIS :: u16 where "UART_RIS_RXRIS = push_bit 4 1"
definition PL011_INT_ID :: nat where "PL011_INT_ID = 33"

lemmas uart_offsets = UART_DR_def UART_FR_def UART_CR_def UART_IMSC_def UART_RIS_def UART_ICR_def
  UART_PERIPH_ID0_def UART_PERIPH_ID1_def UART_PERIPH_ID2_def UART_PERIPH_ID3_def UART_PCELL_ID0_def
  UART_PCELL_ID1_def UART_PCELL_ID2_def UART_PCELL_ID3_def

record pl011 =
  flag :: u16
  interrupt_mask :: u16
  raw_interrupt_status :: u16
  control :: u16
  read_buffer :: "u8 list"
  uart_output :: "u8 list"

definition pl011_new :: pl011 where
  "pl011_new = \<lparr>flag = 0, interrupt_mask = 0, raw_interrupt_status = 0, control = 0,
     read_buffer = replicate 4 0, uart_output = []\<rparr>"

text \<open>The loop \<open>for c in &mut self.read_buffer\<close>: the first free slot takes the byte.\<close>

fun push_buffer :: "u8 list \<Rightarrow> u8 \<Rightarrow> u8 list" where
  "push_buffer [] x = []"
| "push_buffer (b # bs) x = (if b = 0 then x # bs else b # push_buffer bs x)"

definition pl011_push :: "cpu \<Rightarrow> gicd \<Rightarrow> pl011 \<Rightarrow> u8 \<Rightarrow> (cpu \<times> gicd \<times> pl011) option" where
  "pl011_push c d u x = do {
     let u = u\<lparr>read_buffer := push_buffer (read_buffer u) x\<rparr>;
     let u = u\<lparr>flag := flag u AND NOT UART_FR_RXFE\<rparr>;
     if interrupt_mask u AND UART_IMSC_RXIM \<noteq> 0 then do {
       let u = u\<lparr>raw_interrupt_status := raw_interrupt_status u OR UART_RIS_RXRIS\<rparr>;
       (c, d) \<leftarrow> gicd_trigger_interrupt c d PL011_INT_ID None;
       ret (c, d, u) }
     else ret (c, d, u) }"

text \<open>The loop \<open>for i in 1..len { buf[i - 1] = buf[i] }\<close>, over the remaining indices.\<close>

fun shift_buffer :: "u8 list \<Rightarrow> nat list \<Rightarrow> u8 list option" where
  "shift_buffer bs [] = ret bs"
| "shift_buffer bs (i # is) = do {
     v \<leftarrow> arr_get bs i;
     j \<leftarrow> usub i 1;
     bs \<leftarrow> arr_set bs j v;
     shift_buffer bs is }"

definition pl011_read :: "pl011 \<Rightarrow> usize \<Rightarrow> nat \<Rightarrow> (pl011 \<times> (u64, unit) result) option" where
  "pl011_read u offset access_width =
     (if offset = UART_DR then do {
        v \<leftarrow> arr_get (read_buffer u) 0;
        bs \<leftarrow> shift_buffer (read_buffer u) [1..<length (read_buffer u)];
        let u = u\<lparr>read_buffer := bs\<rparr>;
        b \<leftarrow> arr_get bs 0;
        let u = (if b = 0
                 then u\<lparr>flag := flag u OR UART_FR_RXFE,
                        raw_interrupt_status := raw_interrupt_status u AND NOT UART_RIS_RXRIS\<rparr>
                 else u);
        ret (u, Ok (ucast v)) }
      else ret (u, Ok
        (if offset = UART_FR then ucast (flag u)
         else if offset = UART_CR then ucast (control u)
         else if offset = UART_IMSC then ucast (interrupt_mask u)
         else if offset = UART_RIS then ucast (raw_interrupt_status u)
         else if offset = UART_PERIPH_ID0 then 0x11
         else if offset = UART_PERIPH_ID1 then push_bit 4 0x01
         else if offset = UART_PERIPH_ID2 then push_bit 4 0x03 OR 0x04
         else if offset = UART_PERIPH_ID3 then 0x00
         else if offset = UART_PCELL_ID0 then 0x0D
         else if offset = UART_PCELL_ID1 then 0xF0
         else if offset = UART_PCELL_ID2 then 0x05
         else if offset = UART_PCELL_ID3 then 0xB1
         else 0x00)))"

definition pl011_write :: "pl011 \<Rightarrow> usize \<Rightarrow> nat \<Rightarrow> u64 \<Rightarrow> (pl011 \<times> (unit, unit) result) option" where
  "pl011_write u offset access_width value =
     ret (if offset = UART_DR then u\<lparr>uart_output := uart_output u @ [ucast value]\<rparr>
          else if offset = UART_CR then u\<lparr>control := ucast value\<rparr>
          else if offset = UART_IMSC then u\<lparr>interrupt_mask := ucast value\<rparr>
          else if offset = UART_ICR
          then u\<lparr>raw_interrupt_status := raw_interrupt_status u AND NOT (ucast value)\<rparr>
          else u, Ok ())"

section \<open>Invariant\<close>

definition pl011_ok :: "pl011 \<Rightarrow> bool" where
  "pl011_ok u \<longleftrightarrow> length (read_buffer u) = 4"

lemma push_buffer_length [simp]: "length (push_buffer bs x) = length bs"
  by (induction bs) auto

lemma buffer4: "length bs = 4 \<Longrightarrow> \<exists>a b c d. bs = [a, b, c, d]"
  by (auto simp: numeral_eq_Suc length_Suc_conv)

lemma shift_buffer4: "shift_buffer [a, b, c, d] [1..<4] = Some [b, c, d, d]"
proof -
  have "[1..<4] = [1, 2, 3::nat]" by (simp add: upt_rec)
  then show ?thesis by (simp add: arr_get_def arr_set_def usub_def numeral_2_eq_2 numeral_3_eq_3)
qed

lemma pl011_read_total: "pl011_ok u \<Longrightarrow> \<exists>u' v. pl011_read u off w = Some (u', Ok v) \<and> pl011_ok u'"
  by (auto simp: pl011_ok_def pl011_read_def arr_get_def shift_buffer4 [simplified] Let_def dest!: buffer4)

lemma pl011_write_total: "pl011_ok u \<Longrightarrow> \<exists>u'. pl011_write u off w v = Some (u', Ok ()) \<and> pl011_ok u'"
  by (auto simp: pl011_ok_def pl011_write_def)

interpretation uart: total_mmio_device pl011_ok pl011_read pl011_write
  by unfold_locales (use pl011_read_total pl011_write_total in auto)

section \<open>The receive FIFO\<close>

text \<open>The bytes waiting in the buffer, oldest first. The code can hold three of them as a queue;
  the last slot is never cleared by a read.\<close>

definition fifo :: "u8 list \<Rightarrow> u8 list" where
  "fifo bs = takeWhile (\<lambda>b. b \<noteq> 0) bs"

text \<open>A buffer whose bytes after the queue are all free.\<close>

definition fifo_shape :: "u8 list \<Rightarrow> bool" where
  "fifo_shape bs \<longleftrightarrow> length bs = 4 \<and> bs = fifo bs @ replicate (4 - length (fifo bs)) 0"

lemma push_append: "0 \<notin> set xs \<Longrightarrow> push_buffer (xs @ 0 # ys) x = xs @ x # ys"
  by (induction xs) auto

lemma fifo_append: "0 \<notin> set xs \<Longrightarrow> fifo (xs @ replicate n 0) = xs"
  by (induction xs) (auto simp: fifo_def)

lemma fifo_nonzero: "0 \<notin> set (fifo bs)"
  by (auto simp: fifo_def dest: set_takeWhileD)

lemma push_fifo:
  assumes "fifo_shape bs" "length (fifo bs) < 4" "x \<noteq> 0"
  shows "fifo_shape (push_buffer bs x) \<and> fifo (push_buffer bs x) = fifo bs @ [x]"
proof -
  let ?n = "4 - length (fifo bs)"
  obtain k where n: "?n = Suc k" using assms(2) by (cases ?n) auto
  have "bs = fifo bs @ 0 # replicate k 0" using assms(1) n by (simp add: fifo_shape_def)
  with push_append [OF fifo_nonzero] have p: "push_buffer bs x = (fifo bs @ [x]) @ replicate k 0"
    by (metis append.assoc append_Cons append_Nil)
  have f: "fifo (push_buffer bs x) = fifo bs @ [x]"
    unfolding p by (rule fifo_append) (use fifo_nonzero assms(3) in auto)
  moreover have "4 - length (fifo bs @ [x]) = k" using n by simp
  moreover have "length (push_buffer bs x) = 4" using assms(1) by (simp add: fifo_shape_def)
  ultimately show ?thesis using p by (simp add: fifo_shape_def del: push_buffer_length)
qed

lemma push_full:
  assumes "fifo_shape bs" "length (fifo bs) = 4" shows "push_buffer bs x = bs"
proof -
  have "0 \<notin> set bs" using assms fifo_nonzero [of bs] by (simp add: fifo_shape_def)
  then show ?thesis by (induction bs) auto
qed

lemma shift_fifo:
  assumes "fifo_shape bs" "fifo bs = x # xs" "length xs < 3"
  shows "shift_buffer bs [1..<length bs] = Some (xs @ replicate (4 - length xs) 0)"
proof -
  have l: "length bs = 4" and b: "bs = x # xs @ replicate (3 - length xs) 0"
    using assms by (simp_all add: fifo_shape_def)
  consider "xs = []" | y where "xs = [y]" | y z where "xs = [y, z]"
    using assms(3) by (cases xs; cases "tl xs"; cases "tl (tl xs)") auto
  then show ?thesis
    unfolding l using b by cases (auto simp: numeral_eq_Suc arr_get_def arr_set_def usub_def)
qed

section \<open>Properties\<close>

text \<open>C13: the UART registers are a total device: no sequence of guest accesses makes the model
  panic or report an error, and the receive buffer keeps its four slots.\<close>

theorem pl011_guest_total:
  assumes "pl011_ok u"
  shows "\<exists>u'. mmio_run pl011_read pl011_write u accesses = Some u' \<and> pl011_ok u'"
  using assms by (rule uart.run_total)

theorem pl011_guest_total_witness:
  "\<exists>u'. mmio_run pl011_read pl011_write pl011_new [Mmio_Write 0x38 32 0x10, Mmio_Read 0 32, Mmio_Write 0 8 0x41] = Some u' \<and>
     pl011_ok u'"
  by (rule pl011_guest_total) (simp add: pl011_ok_def pl011_new_def)

text \<open>A byte received while at most three are waiting goes to the end of the queue and clears
  the "receive FIFO empty" flag; when the receive interrupt is unmasked its status bit is set.\<close>

lemma pl011_push_fifo:
  assumes "fifo_shape (read_buffer u)" "length (fifo (read_buffer u)) < 4" "x \<noteq> 0"
    and p: "pl011_push c d u x = Some (c', d', u')"
  shows "fifo_shape (read_buffer u') \<and> fifo (read_buffer u') = fifo (read_buffer u) @ [x] \<and>
    flag u' AND UART_FR_RXFE = 0 \<and>
    (interrupt_mask u AND UART_IMSC_RXIM \<noteq> 0 \<longrightarrow> raw_interrupt_status u' AND UART_RIS_RXRIS \<noteq> 0)"
proof -
  have u': "read_buffer u' = push_buffer (read_buffer u) x" "flag u' = flag u AND NOT UART_FR_RXFE"
    "interrupt_mask u AND UART_IMSC_RXIM \<noteq> 0 \<longrightarrow> raw_interrupt_status u' = raw_interrupt_status u OR UART_RIS_RXRIS"
    using p by (auto simp: pl011_push_def Let_def bind_eq_Some_conv split: if_splits)
  have f: "(flag u AND NOT UART_FR_RXFE) AND UART_FR_RXFE = 0"
    by (rule bit_word_eqI) (simp add: bit_simps)
  have "bit ((raw_interrupt_status u OR UART_RIS_RXRIS) AND UART_RIS_RXRIS) 4"
    by (simp add: bit_simps UART_RIS_RXRIS_def)
  then have "(raw_interrupt_status u OR UART_RIS_RXRIS) AND UART_RIS_RXRIS \<noteq> 0" by fastforce
  with push_fifo [OF assms(1-3)] u' f show ?thesis by auto
qed

text \<open>C14: while at most three bytes are waiting, a read of the data register returns and removes
  the oldest one, and sets the "empty" flag exactly when none is left.\<close>

theorem pl011_read_fifo:
  assumes "fifo_shape (read_buffer u)" "fifo (read_buffer u) = y # ys" "length ys < 3"
  shows "\<exists>u'. pl011_read u UART_DR w = Some (u', Ok (ucast y)) \<and> fifo_shape (read_buffer u') \<and>
    fifo (read_buffer u') = ys \<and>
    flag u' = (if ys = [] then flag u OR UART_FR_RXFE else flag u) \<and>
    raw_interrupt_status u' =
      (if ys = [] then raw_interrupt_status u AND NOT UART_RIS_RXRIS else raw_interrupt_status u)"
proof -
  let ?bs = "ys @ replicate (4 - length ys) 0"
  have nz: "0 \<notin> set ys" using fifo_nonzero [of "read_buffer u"] assms(2) by auto
  have f: "fifo ?bs = ys" by (rule fifo_append [OF nz])
  then have "fifo_shape ?bs" using assms(3) by (simp add: fifo_shape_def)
  moreover have "?bs ! 0 = 0 \<longleftrightarrow> ys = []" using nz by (cases ys) auto
  moreover have "read_buffer u ! 0 = y" "length (read_buffer u) = 4"
    using assms(1,2) by (auto simp: fifo_shape_def nth_append)
  moreover have "0 < length ?bs" using assms(3) by simp
  ultimately show ?thesis
    using shift_fifo [OF assms] f by (auto simp: pl011_read_def arr_get_def Let_def simp del: upt_Suc)
qed

text \<open>C15: once all four slots are in use the buffer never empties again: a read copies the last
  byte instead of freeing its slot, so after any number of reads no slot is free.\<close>

theorem pl011_full_buffer_sticks:
  assumes "length (read_buffer u) = 4" "0 \<notin> set (read_buffer u)"
  shows "\<exists>u'. mmio_run pl011_read pl011_write u (replicate n (Mmio_Read UART_DR w)) = Some u' \<and>
    0 \<notin> set (read_buffer u') \<and> last (read_buffer u') = last (read_buffer u)"
  using assms
proof (induction n arbitrary: u)
  case (Suc n)
  from buffer4 [OF Suc.prems(1)] obtain a b c d where u: "read_buffer u = [a, b, c, d]" by blast
  have "pl011_read u UART_DR w = Some (u\<lparr>read_buffer := [b, c, d, d]\<rparr>, Ok (ucast a))"
    using Suc.prems(2) by (simp add: pl011_read_def u arr_get_def arr_set_def usub_def Let_def)
  moreover have "\<exists>u'. mmio_run pl011_read pl011_write (u\<lparr>read_buffer := [b, c, d, d]\<rparr>)
      (replicate n (Mmio_Read UART_DR w)) = Some u' \<and> 0 \<notin> set (read_buffer u') \<and> last (read_buffer u') = d"
    using Suc.IH [of "u\<lparr>read_buffer := [b, c, d, d]\<rparr>"] Suc.prems(2) u by auto
  ultimately show ?case using u by simp
qed simp

definition full_uart :: pl011 where
  "full_uart = pl011_new\<lparr>read_buffer := [0x61, 0x62, 0x63, 0x64]\<rparr>"

theorem pl011_full_buffer_sticks_witness:
  "\<exists>u'. mmio_run pl011_read pl011_write full_uart (replicate 10 (Mmio_Read UART_DR 32)) = Some u' \<and>
     0 \<notin> set (read_buffer u') \<and> last (read_buffer u') = 0x64"
proof -
  have "length (read_buffer full_uart) = 4" "0 \<notin> set (read_buffer full_uart)" "last (read_buffer full_uart) = 0x64"
    by (simp_all add: full_uart_def pl011_new_def)
  with pl011_full_buffer_sticks [of full_uart 10 32] show ?thesis by simp
qed

theorem pl011_read_fifo_witness:
  "\<exists>u'. pl011_read (pl011_new\<lparr>read_buffer := [0x61, 0x62, 0, 0]\<rparr>) UART_DR 32 = Some (u', Ok 0x61) \<and>
     fifo (read_buffer u') = [0x62]"
proof -
  let ?u = "pl011_new\<lparr>read_buffer := [0x61, 0x62, 0, 0]\<rparr>"
  have "fifo (read_buffer ?u) = [0x61, 0x62]" by (simp add: fifo_def)
  moreover from this have "fifo_shape (read_buffer ?u)" by (simp add: fifo_shape_def numeral_2_eq_2)
  ultimately show ?thesis using pl011_read_fifo [of ?u "0x61" "[0x62]" 32] by auto
qed

end
