(* ===== verification/Spin_Lock.thy ===== *)
theory Spin_Lock
  imports Prelude
begin

text \<open>
  Model of \<open>src/src/lock.rs\<close>, the spin lock behind \<open>Mutex<T>\<close>, as a step relation on the lock,
  the protected data and, for every CPU, the point it has reached in \<open>lock\<close> or \<open>drop\<close> and its
  \<open>DAIF\<close> register (\<open>get_daif_and_disable_irq_fiq\<close> and \<open>set_daif\<close> of \<open>src/src/asm.rs\<close>). The
  relaxed load of the inner loop reads the value of the lock that the CPU sees, which may be
  stale; \<open>observe\<close> is the arrival of the current value. The compare-and-exchange acts on the lock
  itself.
\<close>

section \<open>State and steps\<close>

definition DAIF_IRQ_FIQ :: u64 where
  "DAIF_IRQ_FIQ = push_bit 7 1 OR push_bit 6 1"

text \<open>Both return the register's new value; the first also returns the old one.\<close>

definition get_daif_and_disable_irq_fiq :: "u64 \<Rightarrow> u64 \<times> u64" where
  "get_daif_and_disable_irq_fiq daif = (daif, daif OR DAIF_IRQ_FIQ)"

definition set_daif :: "u64 \<Rightarrow> u64" where
  "set_daif saved = saved"

text \<open>
  \<open>Idle\<close>: outside the lock; \<open>Spinning\<close>: in the inner loop; \<open>Loaded\<close>: the load read false;
  \<open>Masked d\<close>: interrupts masked, \<open>d\<close> saved; \<open>Failed d\<close>: the exchange failed; \<open>Held d\<close>: the
  guard exists; \<open>Dropping d\<close>: the lock is released, the register not yet restored.
\<close>

datatype lock_pc = Idle | Spinning | Loaded | Masked u64 | Failed u64 | Held u64 | Dropping u64

record 'd mutex =
  lock_flag :: bool
  mdata :: 'd
  lseen :: "nat \<Rightarrow> bool"
  lpc :: "nat \<Rightarrow> lock_pc"
  ldaif :: "nat \<Rightarrow> u64"

definition mutex_new :: "'d \<Rightarrow> (nat \<Rightarrow> u64) \<Rightarrow> 'd mutex" where
  "mutex_new x daif = \<lparr>lock_flag = False, mdata = x, lseen = (\<lambda>i. False), lpc = (\<lambda>i. Idle), ldaif = daif\<rparr>"

inductive lock_step :: "nat \<Rightarrow> 'd mutex \<Rightarrow> 'd mutex \<Rightarrow> bool" where
  call: "lpc s i = Idle \<Longrightarrow> lock_step i s (s\<lparr>lpc := (lpc s)(i := Spinning)\<rparr>)"
| observe: "lock_step i s (s\<lparr>lseen := (lseen s)(i := lock_flag s)\<rparr>)"
| spin: "\<lbrakk>lpc s i = Spinning; lseen s i\<rbrakk> \<Longrightarrow> lock_step i s s"
| load: "\<lbrakk>lpc s i = Spinning; \<not> lseen s i\<rbrakk> \<Longrightarrow> lock_step i s (s\<lparr>lpc := (lpc s)(i := Loaded)\<rparr>)"
| mask_irq: "\<lbrakk>lpc s i = Loaded; get_daif_and_disable_irq_fiq (ldaif s i) = (d, v)\<rbrakk> \<Longrightarrow>
    lock_step i s (s\<lparr>lpc := (lpc s)(i := Masked d), ldaif := (ldaif s)(i := v)\<rparr>)"
| exchange_ok: "\<lbrakk>lpc s i = Masked d; \<not> lock_flag s\<rbrakk> \<Longrightarrow>
    lock_step i s (s\<lparr>lock_flag := True, lseen := (lseen s)(i := True), lpc := (lpc s)(i := Held d)\<rparr>)"
| exchange_fail: "\<lbrakk>lpc s i = Masked d; lock_flag s\<rbrakk> \<Longrightarrow>
    lock_step i s (s\<lparr>lseen := (lseen s)(i := True), lpc := (lpc s)(i := Failed d)\<rparr>)"
| retry: "lpc s i = Failed d \<Longrightarrow>
    lock_step i s (s\<lparr>lpc := (lpc s)(i := Spinning), ldaif := (ldaif s)(i := set_daif d)\<rparr>)"
| deref_mut: "lpc s i = Held d \<Longrightarrow> lock_step i s (s\<lparr>mdata := x\<rparr>)"
| drop_store: "lpc s i = Held d \<Longrightarrow>
    lock_step i s (s\<lparr>lock_flag := False, lseen := (lseen s)(i := False), lpc := (lpc s)(i := Dropping d)\<rparr>)"
| drop_daif: "lpc s i = Dropping d \<Longrightarrow>
    lock_step i s (s\<lparr>lpc := (lpc s)(i := Idle), ldaif := (ldaif s)(i := set_daif d)\<rparr>)"

text \<open>States reached by any interleaving of the CPUs.\<close>

inductive lock_reach :: "'d mutex \<Rightarrow> 'd mutex \<Rightarrow> bool" for s0 where
  reach_refl: "lock_reach s0 s0"
| reach_step: "\<lbrakk>lock_reach s0 s; lock_step i s s'\<rbrakk> \<Longrightarrow> lock_reach s0 s'"

section \<open>Invariant\<close>

definition holder :: "'d mutex \<Rightarrow> nat \<Rightarrow> bool" where
  "holder s i \<longleftrightarrow> (\<exists>d. lpc s i = Held d)"

text \<open>The saved value of a CPU and whether it has masked its interrupts.\<close>

fun daif_ok :: "u64 \<Rightarrow> lock_pc \<Rightarrow> u64 \<Rightarrow> bool" where
  "daif_ok d0 (Masked d) v \<longleftrightarrow> d = d0 \<and> v = d0 OR DAIF_IRQ_FIQ"
| "daif_ok d0 (Failed d) v \<longleftrightarrow> d = d0 \<and> v = d0 OR DAIF_IRQ_FIQ"
| "daif_ok d0 (Held d) v \<longleftrightarrow> d = d0 \<and> v = d0 OR DAIF_IRQ_FIQ"
| "daif_ok d0 (Dropping d) v \<longleftrightarrow> d = d0 \<and> v = d0 OR DAIF_IRQ_FIQ"
| "daif_ok d0 pc v \<longleftrightarrow> v = d0"

definition holders :: "'d mutex \<Rightarrow> nat set" where
  "holders s = {i. holder s i}"

definition lock_inv :: "(nat \<Rightarrow> u64) \<Rightarrow> 'd mutex \<Rightarrow> bool" where
  "lock_inv daif s \<longleftrightarrow> (if lock_flag s then \<exists>i. holders s = {i} else holders s = {}) \<and>
     (\<forall>i. daif_ok (daif i) (lpc s i) (ldaif s i))"

lemma holders_upd:
  "holders (s\<lparr>lpc := (lpc s)(i := Held d)\<rparr>) = insert i (holders s)"
  "(\<nexists>d. pc = Held d) \<Longrightarrow> holders (s\<lparr>lpc := (lpc s)(i := pc)\<rparr>) = holders s - {i}"
  "holders (s\<lparr>lock_flag := b\<rparr>) = holders s" "holders (s\<lparr>ldaif := v\<rparr>) = holders s"
  "holders (s\<lparr>mdata := x\<rparr>) = holders s" "holders (s\<lparr>lseen := w\<rparr>) = holders s"
  by (auto simp: holders_def holder_def)

lemma holders_iff: "i \<in> holders s \<longleftrightarrow> (\<exists>d. lpc s i = Held d)"
  by (simp add: holders_def holder_def)

lemma holders_step:
  assumes "lock_step i s s'"
  shows "lock_flag s' = lock_flag s \<and> holders s' = holders s \<or>
    \<not> lock_flag s \<and> lock_flag s' \<and> holders s' = insert i (holders s) \<or>
    \<not> lock_flag s' \<and> i \<in> holders s \<and> holders s' = holders s - {i}"
  using assms by (cases rule: lock_step.cases) (auto simp: holders_iff set_eq_iff)

lemma daif_step:
  assumes "lock_step i s s'" "daif_ok (d0 i) (lpc s i) (ldaif s i)"
  shows "daif_ok (d0 i) (lpc s' i) (ldaif s' i)" "j \<noteq> i \<Longrightarrow> lpc s' j = lpc s j \<and> ldaif s' j = ldaif s j"
  using assms by (cases rule: lock_step.cases; force simp: get_daif_and_disable_irq_fiq_def set_daif_def)+

lemma lock_inv_daif: "lock_inv daif s \<Longrightarrow> daif_ok (daif i) (lpc s i) (ldaif s i)"
  by (simp add: lock_inv_def)

lemma lock_inv_step:
  assumes "lock_step i s s'" "lock_inv daif s"
  shows "lock_inv daif s'"
proof -
  have "daif_ok (daif j) (lpc s' j) (ldaif s' j)" for j
    using daif_step [OF assms(1), of daif] lock_inv_daif [OF assms(2)] by (cases "j = i") auto
  moreover have "if lock_flag s' then \<exists>i. holders s' = {i} else holders s' = {}"
    using holders_step [OF assms(1)] assms(2) by (auto simp: lock_inv_def split: if_splits)
  ultimately show ?thesis by (simp add: lock_inv_def)
qed

lemma lock_inv_reach: "lock_reach (mutex_new x daif) s \<Longrightarrow> lock_inv daif s"
proof (induction rule: lock_reach.induct)
  case reach_refl
  show ?case by (simp add: lock_inv_def mutex_new_def holders_def holder_def)
qed (rule lock_inv_step)

section \<open>Properties\<close>

text \<open>C38: whatever the interleaving of the CPUs, at most one of them holds the lock, the protected
  data only changes in a step of the CPU that holds it, and that CPU has IRQ and FIQ masked,
  so no interrupt handler on it can wait for the lock it holds.\<close>

theorem mutex_exclusion:
  assumes "lock_reach (mutex_new x daif) s"
  shows "(\<forall>i j. holder s i \<longrightarrow> holder s j \<longrightarrow> i = j) \<and>
    (\<forall>i s'. lock_step i s s' \<longrightarrow> mdata s' \<noteq> mdata s \<longrightarrow> holder s i) \<and>
    (\<forall>i. holder s i \<longrightarrow> bit (ldaif s i) 6 \<and> bit (ldaif s i) 7)"
proof -
  have inv: "lock_inv daif s" using assms by (rule lock_inv_reach)
  have "holder s i" if "lock_step i s s'" "mdata s' \<noteq> mdata s" for i s'
    using that by (cases rule: lock_step.cases) (auto simp: holder_def)
  moreover have "bit (ldaif s i) 6 \<and> bit (ldaif s i) 7" if h: "holder s i" for i
  proof -
    from h lock_inv_daif [OF inv, of i] have "ldaif s i = daif i OR DAIF_IRQ_FIQ" by (auto simp: holder_def)
    then show ?thesis by (simp add: DAIF_IRQ_FIQ_def bit_or_iff)
  qed
  moreover have "i = j" if "holder s i" "holder s j" for i j
  proof -
    from that have "i \<in> holders s" "j \<in> holders s" by (simp_all add: holders_def)
    with inv show ?thesis by (auto simp: lock_inv_def split: if_splits)
  qed
  ultimately show ?thesis by blast
qed

text \<open>C39: a CPU outside the lock has the interrupt mask it started with, however often it has
  taken the lock, failed to take it, or dropped it.\<close>

theorem mutex_restores_daif:
  assumes "lock_reach (mutex_new x daif) s" "lpc s i = Idle \<or> lpc s i = Spinning"
  shows "ldaif s i = daif i"
  using lock_inv_daif [OF lock_inv_reach [OF assms(1)], of i] assms(2) by auto

text \<open>The steps of one CPU, with no other CPU moving.\<close>

inductive solo_steps :: "nat \<Rightarrow> 'd mutex \<Rightarrow> 'd mutex \<Rightarrow> bool" for i where
  solo_refl: "solo_steps i s s"
| solo_step: "\<lbrakk>lock_step i s s'; solo_steps i s' s''\<rbrakk> \<Longrightarrow> solo_steps i s s''"

lemma solo_trans: "solo_steps i s1 s2 \<Longrightarrow> solo_steps i s2 s3 \<Longrightarrow> solo_steps i s1 s3"
  by (induction rule: solo_steps.induct) (auto intro: solo_step)

lemma solo_one: "lock_step i s s' \<Longrightarrow> solo_steps i s s'"
  by (blast intro: solo_step solo_refl)

lemma solo_from_masked:
  assumes "lpc s i = Masked d" "\<not> lock_flag s"
  shows "\<exists>s'. solo_steps i s s' \<and> holder s' i"
  using solo_one [OF exchange_ok [OF assms]] by (intro exI conjI) (auto simp: holder_def)

lemma solo_from_loaded:
  assumes "lpc s i = Loaded" "\<not> lock_flag s"
  shows "\<exists>s'. solo_steps i s s' \<and> holder s' i"
proof -
  obtain d v where "get_daif_and_disable_irq_fiq (ldaif s i) = (d, v)" by fastforce
  from mask_irq [OF assms(1) this] show ?thesis
    using solo_from_masked [of "s\<lparr>lpc := (lpc s)(i := Masked d), ldaif := (ldaif s)(i := v)\<rparr>" i d] assms(2)
    by (auto intro: solo_step)
qed

lemma solo_from_spinning:
  assumes "lpc s i = Spinning" "\<not> lock_flag s"
  shows "\<exists>s'. solo_steps i s s' \<and> holder s' i"
proof -
  let ?s = "s\<lparr>lseen := (lseen s)(i := lock_flag s)\<rparr>"
  have "lock_step i ?s (?s\<lparr>lpc := (lpc ?s)(i := Loaded)\<rparr>)" using assms by (intro load) simp_all
  with observe [of i s] solo_from_loaded [of "?s\<lparr>lpc := (lpc ?s)(i := Loaded)\<rparr>" i] assms(2) show ?thesis
    by simp (meson solo_step)
qed

text \<open>C40: a CPU that is not in the critical section can, whenever the lock is free, take it in
  steps of its own, without waiting for any other CPU: it sees that the lock is free, leaves the inner
  loop and wins the exchange.\<close>

theorem mutex_progress:
  assumes "lock_reach (mutex_new x daif) s" "\<not> lock_flag s"
  shows "\<exists>s'. solo_steps i s s' \<and> holder s' i"
proof -
  have idle: "\<exists>s'. solo_steps i s s' \<and> holder s' i" if "lpc s i = Idle" "\<not> lock_flag s" for s :: "'a mutex"
    using call [OF that(1)] solo_from_spinning [of "s\<lparr>lpc := (lpc s)(i := Spinning)\<rparr>" i] that(2)
    by (auto intro: solo_step)
  show ?thesis
  proof (cases "lpc s i")
    case (Failed d)
    from retry [OF this] solo_from_spinning
        [of "s\<lparr>lpc := (lpc s)(i := Spinning), ldaif := (ldaif s)(i := set_daif d)\<rparr>" i] assms(2)
    show ?thesis by (auto intro: solo_step)
  next
    case (Held d)
    then have "i \<in> holders s" by (simp add: holders_iff)
    with lock_inv_reach [OF assms(1)] assms(2) show ?thesis by (simp add: lock_inv_def)
  next
    case (Dropping d)
    from drop_daif [OF this] idle
        [of "s\<lparr>lpc := (lpc s)(i := Idle), ldaif := (ldaif s)(i := set_daif d)\<rparr>"] assms(2)
    show ?thesis by (auto intro: solo_step)
  qed (use assms(2) idle solo_from_spinning solo_from_loaded solo_from_masked in blast)+
qed

section \<open>Witnesses\<close>

text \<open>CPU 0 has taken the lock, with every interrupt enabled before.\<close>

definition lock_taken :: "nat mutex" where
  "lock_taken = \<lparr>lock_flag = True, mdata = 5, lseen = (\<lambda>i. False)(0 := True), lpc = (\<lambda>i. Idle)(0 := Held 0), ldaif = (\<lambda>i. 0)(0 := 0xC0)\<rparr>"

lemma lock_taken_reach: "lock_reach (mutex_new 5 (\<lambda>i. 0)) lock_taken"
proof -
  let ?s = "mutex_new 5 (\<lambda>i. 0) :: nat mutex"
  let ?s1 = "?s\<lparr>lpc := (lpc ?s)(0 := Spinning)\<rparr>"
  let ?s2 = "?s1\<lparr>lpc := (lpc ?s1)(0 := Loaded)\<rparr>"
  let ?s3 = "?s2\<lparr>lpc := (lpc ?s2)(0 := Masked 0), ldaif := (ldaif ?s2)(0 := 0xC0)\<rparr>"
  have "lock_reach ?s ?s1" by (rule reach_step [OF reach_refl call]) (simp add: mutex_new_def)
  then have "lock_reach ?s ?s2" by (rule reach_step [OF _ load]) (simp_all add: mutex_new_def)
  then have "lock_reach ?s ?s3"
    by (rule reach_step [OF _ mask_irq])
      (simp_all add: get_daif_and_disable_irq_fiq_def mutex_new_def DAIF_IRQ_FIQ_def)
  then have "lock_reach ?s (?s3\<lparr>lock_flag := True, lseen := (lseen ?s3)(0 := True), lpc := (lpc ?s3)(0 := Held 0)\<rparr>)"
    by (rule reach_step [OF _ exchange_ok]) (simp_all add: mutex_new_def)
  then show ?thesis by (simp add: lock_taken_def mutex_new_def)
qed

theorem mutex_exclusion_witness:
  "holder lock_taken 0 \<and> \<not> holder lock_taken 1 \<and> bit (ldaif lock_taken 0) 7"
proof -
  have "holder lock_taken 0" by (simp add: holder_def lock_taken_def)
  with mutex_exclusion [OF lock_taken_reach] show ?thesis by (metis One_nat_def zero_neq_one)
qed

text \<open>CPU 0 has dropped it again.\<close>

definition lock_dropped :: "nat mutex" where
  "lock_dropped = (let s = lock_taken\<lparr>lock_flag := False, lseen := (lseen lock_taken)(0 := False), lpc := (lpc lock_taken)(0 := Dropping 0)\<rparr>
     in s\<lparr>lpc := (lpc s)(0 := Idle), ldaif := (ldaif s)(0 := set_daif 0)\<rparr>)"

lemma lock_dropped_reach: "lock_reach (mutex_new 5 (\<lambda>i. 0)) lock_dropped"
  unfolding lock_dropped_def Let_def
  by (rule reach_step [OF reach_step [OF lock_taken_reach drop_store] drop_daif]) (simp_all add: lock_taken_def)

theorem mutex_restores_daif_witness: "ldaif lock_dropped 0 = 0"
  by (rule mutex_restores_daif [OF lock_dropped_reach]) (simp add: lock_dropped_def)

theorem mutex_progress_witness:
  "\<exists>s'. solo_steps 2 (mutex_new (5 :: nat) (\<lambda>i. 0)) s' \<and> holder s' 2"
  by (rule mutex_progress [OF reach_refl]) (simp add: mutex_new_def)

end
