(* ===== verification/Paging.thy ===== *)
theory Paging
  imports Page_Alloc
begin

text \<open>
  Model of \<open>src/src/paging.rs\<close>: stage 2 translation tables. The memory that holds the tables is
  a function from the address of an 8-byte descriptor to its value; a \<open>&mut Descriptor\<close> is
  such an address. New tables come from \<open>allocate_pages\<close>. The three values the code passes
  down as \<open>&mut usize\<close> are the record \<open>cursor\<close>. A level is a number from 0 to 3.
\<close>

section \<open>Descriptors\<close>

type_synonym descriptor = u64
type_synonym table_mem = "nat \<Rightarrow> descriptor"

datatype shareability = NonShareable | OuterShareable | InnerShareable

fun shareability_code :: "shareability \<Rightarrow> u64" where
  "shareability_code NonShareable = 0b00"
| "shareability_code OuterShareable = 0b10"
| "shareability_code InnerShareable = 0b11"

definition TABLE_ADDRESS_MASK :: u64 where
  "TABLE_ADDRESS_MASK = (push_bit 52 1 - 1) AND NOT (word_of_nat PAGE_SIZE - 1)"
definition OUTPUT_ADDRESS_MASK :: u64 where
  "OUTPUT_ADDRESS_MASK = (push_bit 50 1 - 1) AND NOT (word_of_nat PAGE_SIZE - 1)"
definition AF :: u64 where "AF = push_bit 10 1"
definition SH_OFFSET :: nat where "SH_OFFSET = 8"
definition SH :: u64 where "SH = push_bit SH_OFFSET 0b11"
definition S2AP_OFFSET :: nat where "S2AP_OFFSET = 6"
definition S2AP :: u64 where "S2AP = push_bit S2AP_OFFSET 0b11"
definition ATTR_INDEX_OFFSET :: nat where "ATTR_INDEX_OFFSET = 2"
definition ATTR_INDEX :: u64 where "ATTR_INDEX = push_bit ATTR_INDEX_OFFSET 0b1111"
definition ATTR_WRITE_BACK :: u64 where "ATTR_WRITE_BACK = push_bit ATTR_INDEX_OFFSET 0b1111"

definition descriptor_new :: descriptor where
  "descriptor_new = 0"

definition validate_as_page_descriptor :: "descriptor \<Rightarrow> descriptor" where
  "validate_as_page_descriptor d = d OR 0b11"

definition validate_as_table_descriptor :: "descriptor \<Rightarrow> descriptor" where
  "validate_as_table_descriptor d = d OR 0b11"

definition validate_as_block_descriptor :: "descriptor \<Rightarrow> descriptor" where
  "validate_as_block_descriptor d = d OR 0b01"

definition is_table_descriptor :: "descriptor \<Rightarrow> bool" where
  "is_table_descriptor d \<longleftrightarrow> d AND 0b11 = 0b11"

definition get_next_level_table_address :: "descriptor \<Rightarrow> usize" where
  "get_next_level_table_address d = unat (d AND TABLE_ADDRESS_MASK)"

definition set_output_address :: "descriptor \<Rightarrow> usize \<Rightarrow> descriptor" where
  "set_output_address d output_address = (d AND NOT OUTPUT_ADDRESS_MASK) OR word_of_nat output_address OR AF"

definition set_shareability :: "descriptor \<Rightarrow> shareability \<Rightarrow> descriptor" where
  "set_shareability d sh = (d AND NOT SH) OR push_bit SH_OFFSET (shareability_code sh)"

definition set_permission :: "descriptor \<Rightarrow> u64 \<Rightarrow> descriptor" where
  "set_permission d permission = (d AND NOT S2AP) OR push_bit S2AP_OFFSET permission"

definition set_memory_attribute_write_back :: "descriptor \<Rightarrow> descriptor" where
  "set_memory_attribute_write_back d = (d AND NOT ATTR_INDEX) OR ATTR_WRITE_BACK"

text \<open>The descriptors the mapping loop builds, in the order of the calls.\<close>

definition leaf_attributes :: "usize \<Rightarrow> u64 \<Rightarrow> descriptor" where
  "leaf_attributes physical_address permission =
     set_shareability (set_memory_attribute_write_back
       (set_permission (set_output_address descriptor_new physical_address) permission)) InnerShareable"

definition page_descriptor :: "usize \<Rightarrow> u64 \<Rightarrow> descriptor" where
  "page_descriptor physical_address permission = validate_as_page_descriptor (leaf_attributes physical_address permission)"

definition block_descriptor :: "usize \<Rightarrow> u64 \<Rightarrow> descriptor" where
  "block_descriptor physical_address permission = validate_as_block_descriptor (leaf_attributes physical_address permission)"

definition table_descriptor :: "usize \<Rightarrow> descriptor" where
  "table_descriptor next_level_table_address =
     validate_as_table_descriptor (set_output_address descriptor_new next_level_table_address)"

section \<open>Tables\<close>

text \<open>\<open>for d in from_raw_parts_mut(table, n) { d.init() }\<close>, over the remaining indices.\<close>

fun init_table :: "table_mem \<Rightarrow> usize \<Rightarrow> nat list \<Rightarrow> table_mem" where
  "init_table m table [] = m"
| "init_table m table (i # is) = init_table (m(table + 8 * i := descriptor_new)) table is"

definition number_of_concatenated_page_tables :: "nat \<Rightarrow> nat \<Rightarrow> nat" where
  "number_of_concatenated_page_tables t0sz first_level =
     (if t0sz > 43 - (3 - first_level) * 9 then 1 else 2 ^ ((43 - (3 - first_level) * 9) - t0sz))"

definition VTTBR_BADDR :: u64 where "VTTBR_BADDR = (push_bit 47 1 - 1) AND NOT 1"
definition VTCR_EL2_RES1 :: u64 where "VTCR_EL2_RES1 = push_bit 31 1"
definition VTCR_EL2_PS_BITS_OFFSET :: nat where "VTCR_EL2_PS_BITS_OFFSET = 16"
definition VTCR_EL2_TG0_BITS_OFFSET :: nat where "VTCR_EL2_TG0_BITS_OFFSET = 14"
definition VTCR_EL2_SH0_BITS_OFFSET :: nat where "VTCR_EL2_SH0_BITS_OFFSET = 12"
definition VTCR_EL2_ORGN0_BITS_OFFSET :: nat where "VTCR_EL2_ORGN0_BITS_OFFSET = 10"
definition VTCR_EL2_IRGN0_BITS_OFFSET :: nat where "VTCR_EL2_IRGN0_BITS_OFFSET = 8"
definition VTCR_EL2_SL0_BITS_OFFSET :: nat where "VTCR_EL2_SL0_BITS_OFFSET = 6"
definition VTCR_EL2_SL0 :: u64 where "VTCR_EL2_SL0 = push_bit VTCR_EL2_SL0_BITS_OFFSET 0b11"
definition VTCR_EL2_T0SZ_BITS_OFFSET :: nat where "VTCR_EL2_T0SZ_BITS_OFFSET = 0"
definition VTCR_EL2_T0SZ :: u64 where "VTCR_EL2_T0SZ = push_bit VTCR_EL2_T0SZ_BITS_OFFSET 0b111111"
definition ID_AA64MMFR0_EL1_PARANGE :: u64 where "ID_AA64MMFR0_EL1_PARANGE = 0b1111"

lemmas vtcr_offsets = VTCR_EL2_PS_BITS_OFFSET_def VTCR_EL2_TG0_BITS_OFFSET_def VTCR_EL2_SH0_BITS_OFFSET_def
  VTCR_EL2_ORGN0_BITS_OFFSET_def VTCR_EL2_IRGN0_BITS_OFFSET_def VTCR_EL2_SL0_BITS_OFFSET_def
  VTCR_EL2_T0SZ_BITS_OFFSET_def

record stage2 =
  st_mem :: table_mem
  st_alloc :: memory_allocator
  vtcr_el2 :: u64
  vttbr_el2 :: u64

definition t0sz_and_level :: "u64 \<Rightarrow> nat \<times> nat" where
  "t0sz_and_level ps =
     (if ps = 0b000 then (32, 1) else if ps = 0b001 then (28, 1) else if ps = 0b010 then (24, 1)
      else if ps = 0b011 then (22, 1) else if ps = 0b100 then (20, 0) else if ps = 0b101 then (16, 0)
      else (16, 0))"

definition init_stage2_translation_table :: "stage2 \<Rightarrow> u64 \<Rightarrow> stage2 option" where
  "init_stage2_translation_table s id_aa64mmfr0_el1 = do {
     let ps = id_aa64mmfr0_el1 AND ID_AA64MMFR0_EL1_PARANGE;
     let (t0sz, initial_lookup_level) = t0sz_and_level ps;
     let number_of_tables = number_of_concatenated_page_tables t0sz initial_lookup_level;
     (al, r) \<leftarrow> allocate_pages (st_alloc s) number_of_tables (12 + number_of_tables - 1);
     table \<leftarrow> (case r of Ok a \<Rightarrow> ret a | Err e \<Rightarrow> panic);
     let m = init_table (st_mem s) table [0..<number_of_tables * 512];
     let sl0 = (if initial_lookup_level = 1 then 0b01 else 0b10);
     let vtcr = VTCR_EL2_RES1 OR push_bit VTCR_EL2_PS_BITS_OFFSET ps OR push_bit VTCR_EL2_TG0_BITS_OFFSET 0 OR
       push_bit VTCR_EL2_SH0_BITS_OFFSET 0b11 OR push_bit VTCR_EL2_ORGN0_BITS_OFFSET 0b11 OR
       push_bit VTCR_EL2_IRGN0_BITS_OFFSET 0b11 OR push_bit VTCR_EL2_SL0_BITS_OFFSET sl0 OR
       push_bit VTCR_EL2_T0SZ_BITS_OFFSET (word_of_nat t0sz);
     ret \<lparr>st_mem = m, st_alloc = al, vtcr_el2 = vtcr, vttbr_el2 = word_of_nat table\<rparr> }"

section \<open>Mapping\<close>

record cursor =
  cu_pa :: usize
  cu_ipa :: usize
  cu_rem :: usize

definition cursor_advance :: "cursor \<Rightarrow> usize \<Rightarrow> cursor option" where
  "cursor_advance c sz = do {
     pa \<leftarrow> uadd (cu_pa c) sz;
     ipa \<leftarrow> uadd (cu_ipa c) sz;
     r \<leftarrow> usub (cu_rem c) sz;
     ret \<lparr>cu_pa = pa, cu_ipa = ipa, cu_rem = r\<rparr> }"

text \<open>The loop of level 3 over the remaining indices.\<close>

fun map_pages :: "u64 \<Rightarrow> usize \<Rightarrow> table_mem \<Rightarrow> cursor \<Rightarrow> nat list \<Rightarrow> (table_mem \<times> cursor) option" where
  "map_pages permission table m c [] = ret (m, c)"
| "map_pages permission table m c (i # is) = do {
     let m = m(table + 8 * i := page_descriptor (cu_pa c) permission);
     c \<leftarrow> cursor_advance c PAGE_SIZE;
     if cu_rem c = 0 then ret (m, c) else map_pages permission table m c is }"

type_synonym map_result = "((table_mem \<times> memory_allocator \<times> cursor) \<times> (unit, unit) result) option"

text \<open>The table an entry points to, made when there is none.\<close>

definition next_table ::
    "usize \<Rightarrow> table_mem \<Rightarrow> memory_allocator \<Rightarrow> (table_mem \<times> memory_allocator \<times> (usize, unit) result) option" where
  "next_table entry m al =
     (if is_table_descriptor (m entry) then ret (m, al, Ok (get_next_level_table_address (m entry)))
      else do {
        (al, r) \<leftarrow> allocate_pages al 1 12;
        (case r of
           Err e \<Rightarrow> ret (m, al, Err ())
         | Ok a \<Rightarrow> ret ((init_table m a [0..<512])(entry := table_descriptor a), al, Ok a)) })"

text \<open>
  The loop of the levels 0 to 2 over the remaining indices; \<open>sub\<close> is the recursive call for
  the level below.
\<close>

fun map_entries ::
    "(table_mem \<Rightarrow> memory_allocator \<Rightarrow> cursor \<Rightarrow> usize \<Rightarrow> map_result) \<Rightarrow> nat \<Rightarrow> nat \<Rightarrow> u64 \<Rightarrow> usize \<Rightarrow>
     table_mem \<Rightarrow> memory_allocator \<Rightarrow> cursor \<Rightarrow> nat list \<Rightarrow> map_result" where
  "map_entries sub level shift permission table m al c [] = ret ((m, al, c), Ok ())"
| "map_entries sub level shift permission table m al c (i # is) =
     (let block_size = 2 ^ shift; entry = table + 8 * i in
      if 1 \<le> level \<and> block_size \<le> cu_rem c \<and> cu_pa c mod block_size = 0 \<and> cu_ipa c mod block_size = 0 then do {
        let m = m(entry := block_descriptor (cu_pa c) permission);
        c \<leftarrow> cursor_advance c block_size;
        if cu_rem c = 0 then ret ((m, al, c), Ok ())
        else map_entries sub level shift permission table m al c is }
      else do {
        (m, al, r) \<leftarrow> next_table entry m al;
        (case r of
           Err e \<Rightarrow> ret ((m, al, c), Err ())
         | Ok next_level_table_address \<Rightarrow> do {
             ((m, al, c), q) \<leftarrow> sub m al c next_level_table_address;
             (case q of
                Err e \<Rightarrow> ret ((m, al, c), Err ())
              | Ok u \<Rightarrow>
                  if cu_rem c = 0 then ret ((m, al, c), Ok ())
                  else map_entries sub level shift permission table m al c is) }) })"

text \<open>\<open>_map_address_stage2\<close>, by recursion on \<open>3 - level\<close>.\<close>

definition level_shift :: "nat \<Rightarrow> nat" where
  "level_shift d = 12 + 9 * d"

definition first_index :: "nat \<Rightarrow> cursor \<Rightarrow> nat \<Rightarrow> nat" where
  "first_index d c num_of_descriptors = (cu_ipa c div 2 ^ level_shift d) AND (num_of_descriptors - 1)"

primrec map_level ::
    "nat \<Rightarrow> u64 \<Rightarrow> nat \<Rightarrow> table_mem \<Rightarrow> memory_allocator \<Rightarrow> cursor \<Rightarrow> usize \<Rightarrow> map_result" where
  "map_level 0 permission n m al c table = do {
     (m, c) \<leftarrow> map_pages permission table m c [first_index 0 c n..<n];
     ret ((m, al, c), Ok ()) }"
| "map_level (Suc d) permission n m al c table =
     map_entries (map_level d permission 512) (3 - Suc d) (level_shift (Suc d)) permission table m al c
       [first_index (Suc d) c n..<n]"

definition initial_level :: "nat \<Rightarrow> nat option" where
  "initial_level sl0 =
     (if sl0 = 0 then ret 2 else if sl0 = 1 then ret 1 else if sl0 = 2 then ret 0 else if sl0 = 3 then ret 3 else panic)"

definition map_address_stage2 ::
    "stage2 \<Rightarrow> usize \<Rightarrow> usize \<Rightarrow> usize \<Rightarrow> bool \<Rightarrow> bool \<Rightarrow> (stage2 \<times> (unit, unit) result) option" where
  "map_address_stage2 s physical_address intermediate_physical_address map_size is_readable is_writable =
     (if map_size mod 2 ^ PAGE_SHIFT \<noteq> 0 then ret (s, Err ())
      else do {
        let table_address = unat (vttbr_el2 s AND VTTBR_BADDR);
        let sl0 = unat (drop_bit VTCR_EL2_SL0_BITS_OFFSET (vtcr_el2 s AND VTCR_EL2_SL0));
        let t0sz = unat (drop_bit VTCR_EL2_T0SZ_BITS_OFFSET (vtcr_el2 s AND VTCR_EL2_T0SZ));
        initial_lookup_level \<leftarrow> initial_level sl0;
        let num_of_descriptors = number_of_concatenated_page_tables t0sz initial_lookup_level * 512;
        ((m, al, c), q) \<leftarrow>
          map_level (3 - initial_lookup_level) (push_bit 1 (of_bool is_writable) OR of_bool is_readable)
            num_of_descriptors (st_mem s) (st_alloc s)
            \<lparr>cu_pa = physical_address, cu_ipa = intermediate_physical_address, cu_rem = map_size\<rparr> table_address;
        ret (s\<lparr>st_mem := m, st_alloc := al\<rparr>, q) })"

section \<open>The translation the hardware makes\<close>

text \<open>
  The stage 2 walk of the Arm architecture for a 4 KiB granule, from a table with \<open>n\<close> entries
  at level \<open>3 - d\<close>: the output address of the leaf with its access permissions and the number of
  address bits that the leaf covers, or a fault. A leaf without the access flag (bit 10) faults.
\<close>

definition output_address :: "nat \<Rightarrow> descriptor \<Rightarrow> nat" where
  "output_address shift e = unat e div 2 ^ shift mod 2 ^ (48 - shift) * 2 ^ shift"

definition permissions :: "descriptor \<Rightarrow> u64" where
  "permissions e = drop_bit 6 e AND 0b11"

type_synonym leaf = "nat \<times> u64 \<times> nat"

fun walk :: "nat \<Rightarrow> table_mem \<Rightarrow> nat \<Rightarrow> nat \<Rightarrow> nat \<Rightarrow> leaf option" where
  "walk 0 m n table x =
     (let e = m (table + 8 * (x div 2 ^ 12 mod n)) in
      if e AND 0b11 = 0b11 \<and> bit e 10 then Some (output_address 12 e + x mod 2 ^ 12, permissions e, 12) else None)"
| "walk (Suc d) m n table x =
     (let shift = level_shift (Suc d); e = m (table + 8 * (x div 2 ^ shift mod n)) in
      if e AND 0b11 = 0b11 then walk d m 512 (get_next_level_table_address e) x
      else if e AND 0b11 = 0b01 \<and> d < 2 \<and> bit e 10 then Some (output_address shift e + x mod 2 ^ shift, permissions e, shift)
      else None)"

definition translation_leaf :: "stage2 \<Rightarrow> nat \<Rightarrow> leaf option" where
  "translation_leaf s x =
     (let sl0 = unat (drop_bit VTCR_EL2_SL0_BITS_OFFSET (vtcr_el2 s AND VTCR_EL2_SL0));
        t0sz = unat (drop_bit VTCR_EL2_T0SZ_BITS_OFFSET (vtcr_el2 s AND VTCR_EL2_T0SZ)) in
      if 2 ^ (64 - t0sz) \<le> x then None
      else case initial_level sl0 of None \<Rightarrow> None | Some level \<Rightarrow>
        walk (3 - level) (st_mem s) (number_of_concatenated_page_tables t0sz level * 512)
          (unat (vttbr_el2 s AND VTTBR_BADDR)) x)"

text \<open>The translation itself: physical address and permissions.\<close>

definition translate :: "stage2 \<Rightarrow> nat \<Rightarrow> (nat \<times> u64) option" where
  "translate s x = map_option (\<lambda>(a, p, shift). (a, p)) (translation_leaf s x)"

end
