(* ===== verification/Paging_Walk.thy ===== *)
theory Paging_Walk
  imports Paging
begin

text \<open>
  Translation tables as trees: what a descriptor means to the walk, the memory a tree of tables
  occupies, and that a change of memory elsewhere does not change the translation.
\<close>

section \<open>Descriptors\<close>

lemma bit_const_simps:
  "bit (0b11 :: u64) n \<longleftrightarrow> n < 2" "bit (0b1111 :: u64) n \<longleftrightarrow> n < 4" "bit (0b01 :: u64) n \<longleftrightarrow> n = 0"
proof -
  have "(0b11 :: u64) = mask 2" "(0b1111 :: u64) = mask 4" by (simp_all add: mask_eq_exp_minus_1)
  then show "bit (0b11 :: u64) n \<longleftrightarrow> n < 2" "bit (0b1111 :: u64) n \<longleftrightarrow> n < 4" by (simp_all only: bit_mask_iff) auto
  show "bit (0b01 :: u64) n \<longleftrightarrow> n = 0" by (auto simp: bit_1_iff)
qed

lemma bit_AF: "bit AF n \<longleftrightarrow> n = 10"
  unfolding AF_def bit_push_bit_iff bit_1_iff by auto

lemma bit_masks:
  "bit SH n \<longleftrightarrow> n = 8 \<or> n = 9" "bit S2AP n \<longleftrightarrow> n = 6 \<or> n = 7"
  "bit ATTR_INDEX n \<longleftrightarrow> 2 \<le> n \<and> n < 6" "bit ATTR_WRITE_BACK n \<longleftrightarrow> 2 \<le> n \<and> n < 6"
  unfolding SH_def S2AP_def ATTR_INDEX_def ATTR_WRITE_BACK_def SH_OFFSET_def S2AP_OFFSET_def ATTR_INDEX_OFFSET_def
    bit_push_bit_iff bit_const_simps by auto

lemma page_size_mask: "word_of_nat PAGE_SIZE - 1 = (mask 12 :: u64)"
  by (simp add: PAGE_SIZE_def PAGE_SHIFT_def mask_eq_exp_minus_1)

lemma bit_table_mask: "bit TABLE_ADDRESS_MASK n \<longleftrightarrow> 12 \<le> n \<and> n < 52"
proof -
  have "(push_bit 52 1 - 1 :: u64) = mask 52" by (simp add: mask_eq_exp_minus_1)
  show ?thesis unfolding TABLE_ADDRESS_MASK_def page_size_mask \<open>push_bit 52 1 - 1 = mask 52\<close>
    by (auto simp: bit_simps)
qed

text \<open>An address that fits a descriptor: page aligned and below 2 to the 48.\<close>

definition desc_addr :: "nat \<Rightarrow> bool" where
  "desc_addr a \<longleftrightarrow> 2 ^ 12 dvd a \<and> a < 2 ^ 48"

lemma desc_addr_bit:
  assumes "desc_addr a" "bit a n" shows "12 \<le> n \<and> n < 48"
proof -
  have "a = push_bit 12 (drop_bit 12 a)" "a = take_bit 48 a"
    using assms(1) by (auto simp: desc_addr_def push_bit_eq_mult drop_bit_eq_div take_bit_nat_eq_self)
  with assms(2) show ?thesis by (metis bit_push_bit_iff bit_take_bit_iff)
qed

lemma perm_bit: "p < 4 \<Longrightarrow> bit (p :: u64) k \<Longrightarrow> k < 2"
proof -
  assume "p < 4" "bit p k"
  moreover have "p = take_bit 2 p" using \<open>p < 4\<close> by (simp add: less_mask_eq take_bit_eq_mask)
  ultimately show "k < 2" by (metis bit_take_bit_iff)
qed

lemma bit_leaf:
  assumes "desc_addr pa" "p < 4" "n < 64"
  shows "bit (leaf_attributes pa p) n \<longleftrightarrow> bit pa n \<or> n = 10 \<or> n = 8 \<or> n = 9 \<or> 2 \<le> n \<and> n < 6 \<or>
    6 \<le> n \<and> bit p (n - 6)"
proof -
  have pa: "12 \<le> n" if "bit pa n" using desc_addr_bit [OF assms(1) that] by simp
  have sh: "push_bit SH_OFFSET 0b11 = SH" by (simp only: SH_def)
  show ?thesis
    unfolding leaf_attributes_def set_shareability_def set_memory_attribute_write_back_def set_permission_def
      set_output_address_def descriptor_new_def shareability_code.simps sh S2AP_OFFSET_def
    using assms(3) pa perm_bit [OF assms(2), of "n - 6"] by (auto simp: bit_simps bit_masks bit_AF)
qed

lemma bit_nat_of_word: "bit (unat (w :: u64)) n \<longleftrightarrow> bit w n"
  by (simp add: bit_unsigned_iff)

lemma bit_output_address: "bit (output_address sh e) n \<longleftrightarrow> sh \<le> n \<and> n < 48 \<and> bit e n"
proof -
  have "output_address sh e = push_bit sh (take_bit (48 - sh) (drop_bit sh (unat e)))"
    by (simp add: output_address_def push_bit_eq_mult take_bit_eq_mod drop_bit_eq_div)
  then show ?thesis by (auto simp: bit_simps bit_nat_of_word)
qed

lemma aligned_bit:
  assumes "2 ^ sh dvd a" "bit (a :: nat) n" shows "sh \<le> n"
proof -
  have "a = push_bit sh (drop_bit sh a)" using assms(1) by (auto simp: push_bit_eq_mult drop_bit_eq_div)
  with assms(2) show ?thesis by (metis bit_push_bit_iff)
qed

lemma permissions_eq:
  assumes "desc_addr pa" "p < 4" "\<And>n. 2 \<le> n \<Longrightarrow> bit e n \<longleftrightarrow> bit (leaf_attributes pa p) n"
  shows "permissions e = p"
proof (rule bit_word_eqI)
  fix n assume "n < LENGTH(64)"
  have "bit (permissions e) n \<longleftrightarrow> n < 2 \<and> bit (leaf_attributes pa p) (n + 6)"
    unfolding permissions_def bit_and_iff bit_drop_bit_eq bit_const_simps
    using assms(3) [of "n + 6"] by (auto simp: add.commute)
  also have "\<dots> \<longleftrightarrow> bit p n"
    using bit_leaf [OF assms(1,2), of "n + 6"] desc_addr_bit [OF assms(1), of "n + 6"] perm_bit [OF assms(2), of n]
    by auto
  finally show "bit (permissions e) n = bit p n" .
qed

text \<open>What the walk reads from the descriptors that the mapping loops write.\<close>

lemma page_descriptor_walk:
  assumes "desc_addr pa" "p < 4"
  shows "page_descriptor pa p AND 0b11 = 0b11" "output_address 12 (page_descriptor pa p) = pa"
    "permissions (page_descriptor pa p) = p" "bit (page_descriptor pa p) 10"
proof -
  have b: "bit (page_descriptor pa p) n \<longleftrightarrow> n < 2 \<or> bit (leaf_attributes pa p) n" for n
    unfolding page_descriptor_def validate_as_page_descriptor_def bit_or_iff bit_const_simps by blast
  show "page_descriptor pa p AND 0b11 = 0b11"
    by (rule bit_word_eqI) (unfold bit_and_iff b bit_const_simps, blast)
  show "output_address 12 (page_descriptor pa p) = pa"
    by (rule bit_eqI)
      (use desc_addr_bit [OF assms(1)] perm_bit [OF assms(2)] in
        \<open>fastforce simp: bit_output_address b bit_leaf [OF assms]\<close>)
  show "permissions (page_descriptor pa p) = p"
    by (rule permissions_eq [OF assms(1,2)]) (auto simp: b)
  show "bit (page_descriptor pa p) 10" by (simp add: b bit_leaf [OF assms])
qed

lemma block_descriptor_walk:
  assumes "desc_addr pa" "p < 4" "2 ^ sh dvd pa" "12 \<le> sh"
  shows "block_descriptor pa p AND 0b11 = 0b01" "output_address sh (block_descriptor pa p) = pa"
    "permissions (block_descriptor pa p) = p" "bit (block_descriptor pa p) 10"
proof -
  have b: "bit (block_descriptor pa p) n \<longleftrightarrow> n = 0 \<or> bit (leaf_attributes pa p) n" for n
    unfolding block_descriptor_def validate_as_block_descriptor_def bit_or_iff bit_const_simps by blast
  show "block_descriptor pa p AND 0b11 = 0b01"
  proof (rule bit_word_eqI)
    fix n assume "n < LENGTH(64)"
    then show "bit (block_descriptor pa p AND 0b11) n = bit (0b01 :: u64) n"
      unfolding bit_and_iff b bit_const_simps
      using desc_addr_bit [OF assms(1), of n] by (auto simp: bit_leaf [OF assms(1,2)])
  qed
  show "output_address sh (block_descriptor pa p) = pa"
    by (rule bit_eqI)
      (use desc_addr_bit [OF assms(1)] perm_bit [OF assms(2)] aligned_bit [OF assms(3)] assms(4) in
        \<open>fastforce simp: bit_output_address b bit_leaf [OF assms(1,2)]\<close>)
  show "permissions (block_descriptor pa p) = p"
    by (rule permissions_eq [OF assms(1,2)]) (auto simp: b)
  show "bit (block_descriptor pa p) 10" by (simp add: b bit_leaf [OF assms(1,2)])
qed

lemma table_descriptor_walk:
  assumes "desc_addr a"
  shows "is_table_descriptor (table_descriptor a)" "get_next_level_table_address (table_descriptor a) = a"
proof -
  have b: "bit (table_descriptor a) n \<longleftrightarrow> n < 64 \<and> (n < 2 \<or> n = 10 \<or> bit a n)" for n
    unfolding table_descriptor_def validate_as_table_descriptor_def set_output_address_def descriptor_new_def
      bit_or_iff bit_const_simps bit_AF by (auto simp: bit_simps)
  show "is_table_descriptor (table_descriptor a)"
    unfolding is_table_descriptor_def by (rule bit_word_eqI) (unfold bit_and_iff b bit_const_simps, auto)
  show "get_next_level_table_address (table_descriptor a) = a"
    unfolding get_next_level_table_address_def
    by (rule bit_eqI)
      (use desc_addr_bit [OF assms] in \<open>fastforce simp: bit_nat_of_word bit_and_iff b bit_table_mask\<close>)
qed

section \<open>Trees of tables\<close>

abbreviation table_bytes :: "nat \<Rightarrow> nat \<Rightarrow> nat set" where
  "table_bytes n t \<equiv> {t..<t + 8 * n}"

definition has_child :: "table_mem \<Rightarrow> nat \<Rightarrow> nat \<Rightarrow> bool" where
  "has_child m t j \<longleftrightarrow> is_table_descriptor (m (t + 8 * j))"

definition child :: "table_mem \<Rightarrow> nat \<Rightarrow> nat \<Rightarrow> nat" where
  "child m t j = get_next_level_table_address (m (t + 8 * j))"

text \<open>The bytes of a table and of every table below it.\<close>

fun tabs :: "nat \<Rightarrow> table_mem \<Rightarrow> nat \<Rightarrow> nat \<Rightarrow> nat set" where
  "tabs 0 m n t = table_bytes n t"
| "tabs (Suc d) m n t = table_bytes n t \<union> (\<Union>j \<in> {j. j < n \<and> has_child m t j}. tabs d m 512 (child m t j))"

text \<open>The tables below a table do not overlap it or each other.\<close>

fun pt_ok :: "nat \<Rightarrow> table_mem \<Rightarrow> nat \<Rightarrow> nat \<Rightarrow> bool" where
  "pt_ok 0 m n t \<longleftrightarrow> True"
| "pt_ok (Suc d) m n t \<longleftrightarrow>
     (\<forall>j < n. has_child m t j \<longrightarrow> pt_ok d m 512 (child m t j) \<and> table_bytes n t \<inter> tabs d m 512 (child m t j) = {}) \<and>
     (\<forall>i < n. \<forall>j < n. i \<noteq> j \<longrightarrow> has_child m t i \<longrightarrow> has_child m t j \<longrightarrow>
        tabs d m 512 (child m t i) \<inter> tabs d m 512 (child m t j) = {})"

lemma table_bytes_tabs: "table_bytes n t \<subseteq> tabs d m n t"
  by (cases d) auto

lemma cell_in_table: "j < n \<Longrightarrow> t + 8 * j \<in> table_bytes n t"
  by simp

lemma cell_in_tabs: "j < n \<Longrightarrow> t + 8 * j \<in> tabs d m n t"
  using table_bytes_tabs cell_in_table by blast

text \<open>The translation, the shape and the extent of a tree depend only on its own bytes.\<close>

lemma tree_frame:
  assumes "\<forall>a \<in> tabs d m n t. m' a = m a" "0 < n"
  shows "tabs d m' n t = tabs d m n t \<and> pt_ok d m' n t = pt_ok d m n t \<and> walk d m' n t x = walk d m n t x"
  using assms
proof (induction d arbitrary: n t x)
  case 0
  then have "m' (t + 8 * (x div 2 ^ 12 mod n)) = m (t + 8 * (x div 2 ^ 12 mod n))" by simp
  then show ?case by simp
next
  case (Suc d)
  have cell: "m' (t + 8 * j) = m (t + 8 * j)" if "j < n" for j
    using Suc.prems(1) cell_in_tabs [OF that] by blast
  have hc: "has_child m' t j = has_child m t j" "child m' t j = child m t j" if "j < n" for j
    using cell [OF that] by (simp_all add: has_child_def child_def)
  have IH: "tabs d m' 512 (child m t j) = tabs d m 512 (child m t j) \<and>
      pt_ok d m' 512 (child m t j) = pt_ok d m 512 (child m t j) \<and>
      walk d m' 512 (child m t j) x = walk d m 512 (child m t j) x" if "j < n" "has_child m t j" for j x
    using that Suc.prems(1) by (intro Suc.IH) auto
  have "tabs (Suc d) m' n t = tabs (Suc d) m n t" using hc IH by (auto cong: conj_cong)
  moreover have "pt_ok (Suc d) m' n t = pt_ok (Suc d) m n t" using hc IH by (auto cong: conj_cong)
  moreover have "walk (Suc d) m' n t x = walk (Suc d) m n t x"
  proof -
    let ?j = "x div 2 ^ level_shift (Suc d) mod n"
    have j: "?j < n" using Suc.prems(2) by simp
    show ?thesis
    proof (cases "has_child m t ?j")
      case True
      with IH [OF j True, of x] cell [OF j] show ?thesis by (simp add: has_child_def child_def is_table_descriptor_def Let_def)
    next
      case False
      with cell [OF j] show ?thesis by (simp add: has_child_def is_table_descriptor_def Let_def)
    qed
  qed
  ultimately show ?case by blast
qed

lemmas tabs_frame = tree_frame [THEN conjunct1]
lemmas pt_ok_frame = tree_frame [THEN conjunct2, THEN conjunct1]
lemmas walk_frame = tree_frame [THEN conjunct2, THEN conjunct2]

text \<open>A change below or at one entry of a table, everything else in the tree being kept.\<close>

lemma entry_change:
  assumes ok: "pt_ok (Suc d) m n t" and n: "0 < n"
    and cells: "\<forall>i < n. i \<noteq> j \<longrightarrow> m' (t + 8 * i) = m (t + 8 * i)"
    and subs: "\<forall>i < n. i \<noteq> j \<longrightarrow> has_child m t i \<longrightarrow> (\<forall>a \<in> tabs d m 512 (child m t i). m' a = m a)"
    and new: "has_child m' t j \<longrightarrow> pt_ok d m' 512 (child m' t j) \<and> tabs d m' 512 (child m' t j) \<subseteq> T \<and>
      table_bytes n t \<inter> T = {} \<and> (\<forall>i < n. i \<noteq> j \<longrightarrow> has_child m t i \<longrightarrow> tabs d m 512 (child m t i) \<inter> T = {})"
  shows "pt_ok (Suc d) m' n t" "tabs (Suc d) m' n t \<subseteq> tabs (Suc d) m n t \<union> (if has_child m' t j then T else {})"
    "x div 2 ^ level_shift (Suc d) mod n \<noteq> j \<Longrightarrow> walk (Suc d) m' n t x = walk (Suc d) m n t x"
proof -
  have hc: "has_child m' t i = has_child m t i" "child m' t i = child m t i" if "i < n" "i \<noteq> j" for i
    using cells that by (simp_all add: has_child_def child_def)
  have fr: "tabs d m' 512 (child m t i) = tabs d m 512 (child m t i)" "pt_ok d m' 512 (child m t i)"
      "walk d m' 512 (child m t i) y = walk d m 512 (child m t i) y" if "i < n" "i \<noteq> j" "has_child m t i" for i y
    using tree_frame [of d m 512 "child m t i" m' y] subs that ok by auto
  have kept: "table_bytes n t \<inter> tabs d m 512 (child m t i) = {}" if "i < n" "has_child m t i" for i
    using ok that by auto
  have apart: "tabs d m 512 (child m t i) \<inter> tabs d m 512 (child m t k) = {}"
    if "i < n" "k < n" "i \<noteq> k" "has_child m t i" "has_child m t k" for i k
    using ok that by auto
  have sub: "tabs d m' 512 (child m' t i) = tabs d m 512 (child m t i)" if "i < n" "i \<noteq> j" "has_child m' t i" for i
    using fr(1) [of i] hc [of i] that by simp
  show "pt_ok (Suc d) m' n t"
    unfolding pt_ok.simps
  proof (intro conjI allI impI)
    fix i assume i: "i < n" "has_child m' t i"
    show "pt_ok d m' 512 (child m' t i)" using new fr(2) [of i] hc [of i] i by (cases "i = j") auto
    show "table_bytes n t \<inter> tabs d m' 512 (child m' t i) = {}"
      using new sub [of i] kept [of i] hc [of i] i by (cases "i = j") auto
  next
    fix i k assume ik: "i < n" "k < n" "i \<noteq> k" "has_child m' t i" "has_child m' t k"
    show "tabs d m' 512 (child m' t i) \<inter> tabs d m' 512 (child m' t k) = {}"
    proof (cases "i = j \<or> k = j")
      case True
      then show ?thesis
      proof
        assume "i = j"
        then have "tabs d m 512 (child m t k) \<inter> T = {}" "tabs d m' 512 (child m' t i) \<subseteq> T" using new ik hc [of k] by auto
        then show ?thesis using sub [of k] ik \<open>i = j\<close> by auto
      next
        assume "k = j"
        then have "tabs d m 512 (child m t i) \<inter> T = {}" "tabs d m' 512 (child m' t k) \<subseteq> T" using new ik hc [of i] by auto
        then show ?thesis using sub [of i] ik \<open>k = j\<close> by auto
      qed
    next
      case False
      with ik sub [of i] sub [of k] hc apart [of i k] show ?thesis by simp
    qed
  qed
  show "tabs (Suc d) m' n t \<subseteq> tabs (Suc d) m n t \<union> (if has_child m' t j then T else {})"
  proof
    fix a assume "a \<in> tabs (Suc d) m' n t"
    then consider "a \<in> table_bytes n t" | i where "i < n" "has_child m' t i" "a \<in> tabs d m' 512 (child m' t i)" by auto
    then show "a \<in> tabs (Suc d) m n t \<union> (if has_child m' t j then T else {})"
    proof cases
      case (2 i)
      then show ?thesis using sub [of i] hc [of i] new by (cases "i = j") auto
    qed simp
  qed
  let ?j = "x div 2 ^ level_shift (Suc d) mod n"
  assume x: "?j \<noteq> j"
  have j: "?j < n" using n by simp
  show "walk (Suc d) m' n t x = walk (Suc d) m n t x"
  proof (cases "has_child m t ?j")
    case True
    with fr(3) [OF j x True, of x] cells j x show ?thesis
      by (simp add: has_child_def child_def is_table_descriptor_def Let_def)
  next
    case False
    with cells j x show ?thesis by (simp add: has_child_def is_table_descriptor_def Let_def)
  qed
qed

section \<open>Empty tables and periodicity\<close>

lemma init_table_eq:
  "init_table m t is a = (if \<exists>i \<in> set is. a = t + 8 * i then 0 else m a)"
  by (induction "is" arbitrary: m) (auto simp: descriptor_new_def)

lemma zero_table:
  assumes "\<forall>j < n. m (t + 8 * j) = 0" "0 < n"
  shows "tabs d m n t = table_bytes n t" "pt_ok d m n t" "walk d m n t x = None"
proof -
  have z: "\<not> has_child m t j" if "j < n" for j
    using assms(1) that by (simp add: has_child_def is_table_descriptor_def)
  then show "tabs d m n t = table_bytes n t" "pt_ok d m n t" by (cases d; auto)+
  have "m (t + 8 * (k mod n)) = 0" for k using assms by simp
  then show "walk d m n t x = None" by (cases d) (simp_all add: Let_def)
qed

definition region :: "nat \<Rightarrow> nat \<Rightarrow> nat" where
  "region d n = n * 2 ^ level_shift d"

lemma region_pos: "0 < n \<Longrightarrow> 0 < region d n"
  by (simp add: region_def)

lemma region_512: "region d 512 = 2 ^ level_shift (Suc d)"
  by (simp add: region_def level_shift_def power_add)

lemma index_mod: "x div 2 ^ level_shift d mod n = x mod region d n div 2 ^ level_shift d"
proof -
  have "x mod (2 ^ level_shift d * n) div 2 ^ level_shift d = x div 2 ^ level_shift d mod n"
    by (simp add: mod_mult2_eq)
  then show ?thesis by (simp add: region_def mult.commute)
qed

text \<open>The size of a leaf is that of its level.\<close>

lemma walk_shift:
  assumes "walk d m n t x = Some (a, p, sh)"
  shows "12 \<le> sh \<and> sh \<le> level_shift d"
  using assms
proof (induction d arbitrary: n t)
  case 0
  then show ?case by (auto simp: Let_def level_shift_def split: if_splits)
next
  case (Suc d)
  let ?e = "m (t + 8 * (x div 2 ^ level_shift (Suc d) mod n))"
  show ?case
  proof (cases "?e AND 0b11 = 0b11")
    case True
    with Suc.prems have "walk d m 512 (get_next_level_table_address ?e) x = Some (a, p, sh)" by (simp add: Let_def)
    from Suc.IH [OF this] show ?thesis by (simp add: level_shift_def)
  next
    case False
    with Suc.prems have "sh = level_shift (Suc d)" by (simp add: Let_def split: if_splits)
    then show ?thesis by (simp add: level_shift_def)
  qed
qed

lemma walk_mod: "0 < n \<Longrightarrow> walk d m n t (x mod region d n) = walk d m n t x"
proof (induction d arbitrary: n t x)
  case 0
  have "x mod region 0 n mod 2 ^ 12 = x mod 2 ^ 12"
    by (simp add: region_def level_shift_def mod_mod_cancel)
  moreover have "x mod region 0 n div 2 ^ 12 mod n = x div 2 ^ 12 mod n"
    using index_mod [of "x mod region 0 n" 0 n] index_mod [of x 0 n] by (simp add: level_shift_def)
  ultimately show ?case by (simp add: Let_def)
next
  case (Suc d)
  let ?y = "x mod region (Suc d) n"
  have d: "2 ^ level_shift (Suc d) dvd region (Suc d) n" by (simp add: region_def)
  then have "?y mod 2 ^ level_shift (Suc d) = x mod 2 ^ level_shift (Suc d)" by (rule mod_mod_cancel)
  moreover from this have "walk d m 512 u ?y = walk d m 512 u x" for u
    using Suc.IH [of 512 u ?y] Suc.IH [of 512 u x] by (simp add: region_512)
  moreover have "?y div 2 ^ level_shift (Suc d) mod n = x div 2 ^ level_shift (Suc d) mod n"
    using index_mod [of ?y "Suc d" n] index_mod [of x "Suc d" n] by simp
  ultimately show ?case by (simp add: Let_def)
qed

end
