(* ===== verification/Paging_Map.thy ===== *)
theory Paging_Map
  imports Paging_Walk
begin

text \<open>
  Correctness of the mapping loops: a call on a table maps the part of the range that the table
  covers, keeps the tables a tree that is disjoint from the free memory, and changes the
  translation of no address outside the range, except that the rest of a block of which the range
  takes a part faults afterwards.
\<close>

section \<open>Steps on a tree of tables\<close>

text \<open>What a change may do to memory and allocator: new tables come from the free memory and
  nothing outside the tree is written.\<close>

definition tree_step ::
    "nat \<Rightarrow> nat \<Rightarrow> nat \<Rightarrow> table_mem \<Rightarrow> memory_allocator \<Rightarrow> table_mem \<Rightarrow> memory_allocator \<Rightarrow> bool" where
  "tree_step d n t m al m' al' \<longleftrightarrow> ma_inv al' \<and> free_set al' \<subseteq> free_set al \<and> pt_ok d m' n t \<and>
     tabs d m' n t \<subseteq> tabs d m n t \<union> (free_set al - free_set al') \<and>
     (\<forall>a. a \<notin> tabs d m n t \<longrightarrow> a \<notin> free_set al - free_set al' \<longrightarrow> m' a = m a)"

definition tree_ok :: "nat \<Rightarrow> nat \<Rightarrow> nat \<Rightarrow> table_mem \<Rightarrow> memory_allocator \<Rightarrow> bool" where
  "tree_ok d n t m al \<longleftrightarrow> ma_inv al \<and> pt_ok d m n t \<and> tabs d m n t \<inter> free_set al = {} \<and> free_set al \<subseteq> {..<2 ^ 48}"

lemma tree_stepI:
  assumes "ma_inv al'" "free_set al' \<subseteq> free_set al" "pt_ok d m' n t"
    "tabs d m' n t \<subseteq> tabs d m n t \<union> (free_set al - free_set al')"
    "\<And>a. a \<notin> tabs d m n t \<Longrightarrow> a \<notin> free_set al - free_set al' \<Longrightarrow> m' a = m a"
  shows "tree_step d n t m al m' al'"
  using assms unfolding tree_step_def by simp

lemma tree_step_ok: "tree_step d n t m al m' al' \<Longrightarrow> tree_ok d n t m al \<Longrightarrow> tree_ok d n t m' al'"
  unfolding tree_step_def tree_ok_def by blast

lemma tree_step_trans:
  assumes "tree_step d n t m al m1 al1" "tree_step d n t m1 al1 m2 al2"
  shows "tree_step d n t m al m2 al2"
proof -
  have "m2 a = m a" if "a \<notin> tabs d m n t" "a \<notin> free_set al - free_set al2" for a
  proof -
    have "m1 a = m a" using assms that unfolding tree_step_def by blast
    moreover have "m2 a = m1 a" using assms that unfolding tree_step_def by blast
    ultimately show ?thesis by simp
  qed
  moreover have "tabs d m2 n t \<subseteq> tabs d m n t \<union> (free_set al - free_set al2)"
    using assms unfolding tree_step_def by blast
  ultimately show ?thesis using assms unfolding tree_step_def by blast
qed

lemma tree_step_refl: "tree_ok d n t m al \<Longrightarrow> tree_step d n t m al m al"
  by (simp add: tree_step_def tree_ok_def)

section \<open>Effect on the translation\<close>

text \<open>
  \<open>w'\<close> maps \<open>len\<close> addresses from \<open>off\<close> on to \<open>pa\<close> with permissions \<open>p\<close>; every other address is
  translated as by \<open>w\<close>, unless \<open>w\<close> translated it by a block that the range overlaps and that is
  replaced by a table: then it faults. After an error the addresses in the range may be in either
  state.
\<close>

definition mapped_to :: "u64 \<Rightarrow> nat \<Rightarrow> leaf option \<Rightarrow> bool" where
  "mapped_to p a v \<longleftrightarrow> (\<exists>sh. v = Some (a, p, sh))"

definition split_block :: "nat \<Rightarrow> nat \<Rightarrow> nat \<Rightarrow> leaf option \<Rightarrow> bool" where
  "split_block off len x v \<longleftrightarrow>
     (\<exists>a p sh y. v = Some (a, p, sh) \<and> 12 < sh \<and> off \<le> y \<and> y < off + len \<and> y div 2 ^ sh = x div 2 ^ sh)"

definition eff ::
    "bool \<Rightarrow> u64 \<Rightarrow> nat \<Rightarrow> nat \<Rightarrow> nat \<Rightarrow> (nat \<Rightarrow> leaf option) \<Rightarrow> (nat \<Rightarrow> leaf option) \<Rightarrow> nat \<Rightarrow> bool"
  where
  "eff ok p pa off len w w' S \<longleftrightarrow> (\<forall>x < S.
     if off \<le> x \<and> x < off + len
     then mapped_to p (pa + (x - off)) (w' x) \<or> \<not> ok \<and> (w' x = w x \<or> w' x = None)
     else w' x = w x \<or> w' x = None \<and> split_block off len x (w x))"

lemma split_block_mono:
  assumes "split_block off l x v" "off' \<le> off" "off + l \<le> off' + l'"
  shows "split_block off' l' x v"
proof -
  from assms(1) obtain a p sh y where v: "v = Some (a, p, sh)" "12 < sh" "y div 2 ^ sh = x div 2 ^ sh"
    and y: "off \<le> y" "y < off + l" unfolding split_block_def by blast
  have "off' \<le> y" "y < off' + l'" using y assms(2,3) by linarith+
  with v show ?thesis unfolding split_block_def by blast
qed

lemma eff_trans:
  assumes "eff True p pa off l1 w w1 S" "eff ok p (pa + l1) (off + l1) l2 w1 w2 S"
    and "\<And>x. x < off + l1 \<Longrightarrow> w2 x = w1 x"
  shows "eff ok p pa off (l1 + l2) w w2 S"
  unfolding eff_def
proof (intro allI impI)
  fix x assume x: "x < S"
  have 1: "if off \<le> x \<and> x < off + l1 then mapped_to p (pa + (x - off)) (w1 x)
      else w1 x = w x \<or> w1 x = None \<and> split_block off l1 x (w x)"
    using assms(1) x unfolding eff_def by auto
  have 2: "if off + l1 \<le> x \<and> x < off + l1 + l2
      then mapped_to p (pa + l1 + (x - (off + l1))) (w2 x) \<or> \<not> ok \<and> (w2 x = w1 x \<or> w2 x = None)
      else w2 x = w1 x \<or> w2 x = None \<and> split_block (off + l1) l2 x (w1 x)"
    using assms(2) x unfolding eff_def by blast
  have mono: "split_block off l1 x v \<or> split_block (off + l1) l2 x v \<Longrightarrow> split_block off (l1 + l2) x v" for v
    using split_block_mono [of off l1 x v off "l1 + l2"] split_block_mono [of "off + l1" l2 x v off "l1 + l2"] by auto
  consider "off \<le> x \<and> x < off + l1" | "off + l1 \<le> x \<and> x < off + l1 + l2" | "x < off" | "off + l1 + l2 \<le> x" by linarith
  then show "if off \<le> x \<and> x < off + (l1 + l2)
     then mapped_to p (pa + (x - off)) (w2 x) \<or> \<not> ok \<and> (w2 x = w x \<or> w2 x = None)
     else w2 x = w x \<or> w2 x = None \<and> split_block off (l1 + l2) x (w x)"
  proof cases
    case 1
    then show ?thesis using \<open>if off \<le> x \<and> x < off + l1 then _ else _\<close> assms(3) [of x] by simp
  next
    case 2
    then have "pa + l1 + (x - (off + l1)) = pa + (x - off)" by simp
    with 2 \<open>if off + l1 \<le> x \<and> x < off + l1 + l2 then _ else _\<close> 1 show ?thesis by auto
  next
    case 3
    then show ?thesis using 1 2 mono by auto
  next
    case 4
    then show ?thesis using 1 2 mono by auto
  qed
qed

lemma eff_weaken:
  assumes "eff False p pa off l w w' S" "l \<le> L"
  shows "eff False p pa off L w w' S"
  unfolding eff_def
proof (intro allI impI)
  fix x assume "x < S"
  with assms(1) have e: "if off \<le> x \<and> x < off + l
      then mapped_to p (pa + (x - off)) (w' x) \<or> \<not> False \<and> (w' x = w x \<or> w' x = None)
      else w' x = w x \<or> w' x = None \<and> split_block off l x (w x)"
    unfolding eff_def by blast
  have m: "split_block off l x (w x) \<Longrightarrow> split_block off L x (w x)"
    by (erule split_block_mono) (use assms(2) in simp_all)
  show "if off \<le> x \<and> x < off + L then mapped_to p (pa + (x - off)) (w' x) \<or> \<not> False \<and> (w' x = w x \<or> w' x = None)
      else w' x = w x \<or> w' x = None \<and> split_block off L x (w x)"
  proof (cases "off \<le> x \<and> x < off + l")
    case True
    then have "off \<le> x \<and> x < off + L" using assms(2) by linarith
    from e [unfolded if_P [OF True]] show ?thesis unfolding if_P [OF \<open>off \<le> x \<and> x < off + L\<close>] .
  next
    case False
    have e': "w' x = w x \<or> w' x = None \<and> split_block off L x (w x)" using e [unfolded if_not_P [OF False]] m by blast
    then have "w' x = w x \<or> w' x = None" by (elim disjE conjE) simp_all
    then have "mapped_to p (pa + (x - off)) (w' x) \<or> \<not> False \<and> (w' x = w x \<or> w' x = None)" by simp
    with e' show ?thesis unfolding if_bool_eq_conj by (intro conjI impI)
  qed
qed

definition cu_add :: "cursor \<Rightarrow> nat \<Rightarrow> cursor" where
  "cu_add c l = \<lparr>cu_pa = cu_pa c + l, cu_ipa = cu_ipa c + l, cu_rem = cu_rem c - l\<rparr>"

lemma cursor_advance_eq: "cursor_advance c l = Some c' \<Longrightarrow> c' = cu_add c l \<and> l \<le> cu_rem c"
  by (auto simp: cursor_advance_def cu_add_def bind_eq_Some_conv checked_simps)

definition cursor_ok :: "cursor \<Rightarrow> bool" where
  "cursor_ok c \<longleftrightarrow> 2 ^ 12 dvd cu_pa c \<and> 2 ^ 12 dvd cu_ipa c \<and> 2 ^ 12 dvd cu_rem c \<and> 0 < cu_rem c \<and>
     cu_pa c + cu_rem c \<le> 2 ^ 48"

lemma cursor_ok_desc: "cursor_ok c \<Longrightarrow> desc_addr (cu_pa c)"
  by (auto simp: cursor_ok_def desc_addr_def)

lemma cursor_ok_add:
  "cursor_ok c \<Longrightarrow> 2 ^ 12 dvd l \<Longrightarrow> l < cu_rem c \<Longrightarrow> cursor_ok (cu_add c l)"
  by (auto simp: cursor_ok_def cu_add_def intro: dvd_diff_nat)

text \<open>The result of a call on a table, from position \<open>off\<close> of the region that the table covers.\<close>

definition map_post ::
    "bool \<Rightarrow> nat \<Rightarrow> nat \<Rightarrow> nat \<Rightarrow> u64 \<Rightarrow> table_mem \<Rightarrow> memory_allocator \<Rightarrow> cursor \<Rightarrow> nat \<Rightarrow> nat \<Rightarrow>
     table_mem \<Rightarrow> memory_allocator \<Rightarrow> cursor \<Rightarrow> bool" where
  "map_post ok d n t p m al c off lo m' al' c' \<longleftrightarrow> tree_step d n t m al m' al' \<and>
     (ok \<longrightarrow> c' = cu_add c (min (cu_rem c) (region d n - off))) \<and>
     (\<forall>x < lo. walk d m' n t x = walk d m n t x) \<and>
     eff ok p (cu_pa c) off (min (cu_rem c) (region d n - off)) (walk d m n t) (walk d m' n t) (region d n)"

lemma map_post_finish:
  assumes "tree_step d n t m al m' al'" "\<And>x. x < lo \<Longrightarrow> walk d m' n t x = walk d m n t x"
    and "eff True p (cu_pa c) off l (walk d m n t) (walk d m' n t) (region d n)"
    and "l = min (cu_rem c) (region d n - off)" "c' = cu_add c l"
  shows "map_post True d n t p m al c off lo m' al' c'"
  using assms by (simp add: map_post_def)

lemma map_post_continue:
  assumes s: "tree_step d n t m al m1 al1" "\<And>x. x < lo \<Longrightarrow> walk d m1 n t x = walk d m n t x"
    and e: "eff True p (cu_pa c) off l (walk d m n t) (walk d m1 n t) (region d n)"
    and l: "l \<le> cu_rem c" "off + l \<le> lo'" "lo \<le> lo'" "off + l \<le> region d n"
    and q: "map_post ok d n t p m1 al1 (cu_add c l) (off + l) lo' m2 al2 c'"
  shows "map_post ok d n t p m al c off lo m2 al2 c'"
proof -
  let ?l2 = "min (cu_rem c - l) (region d n - (off + l))"
  have len: "min (cu_rem c) (region d n - off) = l + ?l2" using l by linarith
  have q': "tree_step d n t m1 al1 m2 al2" "ok \<longrightarrow> c' = cu_add (cu_add c l) ?l2"
    "\<And>x. x < lo' \<Longrightarrow> walk d m2 n t x = walk d m1 n t x"
    "eff ok p (cu_pa c + l) (off + l) ?l2 (walk d m1 n t) (walk d m2 n t) (region d n)"
    using q by (simp_all add: map_post_def cu_add_def)
  have "eff ok p (cu_pa c) off (l + ?l2) (walk d m n t) (walk d m2 n t) (region d n)"
    by (rule eff_trans [OF e q'(4)]) (use q'(3) l(2) in auto)
  moreover have "cu_add (cu_add c l) ?l2 = cu_add c (l + ?l2)" by (simp add: cu_add_def)
  moreover have "walk d m2 n t x = walk d m n t x" if "x < lo" for x
    using q'(3) [of x] s(2) [OF that] that l(3) by simp
  ultimately show ?thesis
    using q'(2) tree_step_trans [OF s(1) q'(1)] unfolding map_post_def len by simp
qed

section \<open>Pages\<close>

lemma div_eq_range: "0 < (B :: nat) \<Longrightarrow> x div B = j \<longleftrightarrow> j * B \<le> x \<and> x < j * B + B"
  by (metis add.commute div_nat_eqI dividend_less_div_times mult.commute mult_Suc_right times_div_less_eq_dividend)

lemma page_step:
  assumes ok: "tree_ok 0 n t m al" and c: "cursor_ok c" "p < 4" and j: "j < n"
  defines "m1 \<equiv> m(t + 8 * j := page_descriptor (cu_pa c) p)"
  shows "tree_step 0 n t m al m1 al" "\<And>x. x < j * 2 ^ 12 \<Longrightarrow> walk 0 m1 n t x = walk 0 m n t x"
    "eff True p (cu_pa c) (j * 2 ^ 12) (2 ^ 12) (walk 0 m n t) (walk 0 m1 n t) (region 0 n)"
proof -
  note pd = page_descriptor_walk [OF cursor_ok_desc [OF c(1)] c(2)]
  have w: "walk 0 m1 n t x = (if x div 2 ^ 12 mod n = j then Some (cu_pa c + x mod 2 ^ 12, p, 12) else walk 0 m n t x)" for x
    using pd by (simp add: m1_def)
  have i: "x div 2 ^ 12 mod n = x div 2 ^ 12" if "x < region 0 n" for x
    using that by (simp add: region_def level_shift_def less_mult_imp_div_less)
  show "tree_step 0 n t m al m1 al"
    using ok cell_in_table [OF j, of t] by (auto simp: tree_step_def tree_ok_def m1_def)
  show "walk 0 m1 n t x = walk 0 m n t x" if "x < j * 2 ^ 12" for x
  proof -
    have "x div 2 ^ 12 < j" using that by (simp add: less_mult_imp_div_less)
    moreover from this have "x div 2 ^ 12 mod n = x div 2 ^ 12" using j by simp
    ultimately show ?thesis unfolding w by simp
  qed
  show "eff True p (cu_pa c) (j * 2 ^ 12) (2 ^ 12) (walk 0 m n t) (walk 0 m1 n t) (region 0 n)"
    unfolding eff_def w
  proof (intro allI impI)
    fix x assume x: "x < region 0 n"
    have "x div 2 ^ 12 = j \<longleftrightarrow> j * 2 ^ 12 \<le> x \<and> x < j * 2 ^ 12 + 2 ^ 12" by (rule div_eq_range) simp
    moreover have "x mod 2 ^ 12 = x - j * 2 ^ 12" if "x div 2 ^ 12 = j"
      using that by (metis minus_div_mult_eq_mod)
    ultimately show "if j * 2 ^ 12 \<le> x \<and> x < j * 2 ^ 12 + 2 ^ 12
      then mapped_to p (cu_pa c + (x - j * 2 ^ 12)) (if x div 2 ^ 12 mod n = j then Some (cu_pa c + x mod 2 ^ 12, p, 12) else walk 0 m n t x) \<or>
           \<not> True \<and> ((if x div 2 ^ 12 mod n = j then Some (cu_pa c + x mod 2 ^ 12, p, 12) else walk 0 m n t x) = walk 0 m n t x \<or>
             (if x div 2 ^ 12 mod n = j then Some (cu_pa c + x mod 2 ^ 12, p, 12) else walk 0 m n t x) = None)
      else (if x div 2 ^ 12 mod n = j then Some (cu_pa c + x mod 2 ^ 12, p, 12) else walk 0 m n t x) = walk 0 m n t x \<or>
           (if x div 2 ^ 12 mod n = j then Some (cu_pa c + x mod 2 ^ 12, p, 12) else walk 0 m n t x) = None \<and>
           split_block (j * 2 ^ 12) (2 ^ 12) x (walk 0 m n t x)"
      unfolding i [OF x] mapped_to_def by auto
  qed
qed

lemma map_pages_spec:
  assumes "tree_ok 0 n t m al" "cursor_ok c" "p < 4" "j \<le> n" "map_pages p t m c [j..<n] = Some (m', c')"
  shows "map_post True 0 n t p m al c (j * 2 ^ 12) (j * 2 ^ 12) m' al c'"
  using assms
proof (induction "n - j" arbitrary: m c j)
  case 0
  then have "j = n" by simp
  with "0.prems" show ?case
    by (intro map_post_finish [where l = 0])
      (auto simp: tree_step_refl eff_def region_def level_shift_def cu_add_def)
next
  case (Suc k)
  then have j: "j < n" by simp
  let ?m = "m(t + 8 * j := page_descriptor (cu_pa c) p)"
  from Suc.prems(5) j obtain c1 where c1: "cursor_advance c PAGE_SIZE = Some c1"
    and rest: "if cu_rem c1 = 0 then (m', c') = (?m, c1) else map_pages p t ?m c1 [Suc j..<n] = Some (m', c')"
    unfolding upt_conv_Cons [OF j] map_pages.simps Let_def by (elim option_bindE) (auto split: if_splits)
  have ps: "PAGE_SIZE = 2 ^ 12" by (simp add: PAGE_SIZE_def PAGE_SHIFT_def)
  from cursor_advance_eq [OF c1] have c1': "c1 = cu_add c (2 ^ 12)" and r: "2 ^ 12 \<le> cu_rem c" by (simp_all only: ps)
  note st = page_step [OF Suc.prems(1,2,3) j]
  have reg: "region 0 n = n * 2 ^ 12" by (simp add: region_def level_shift_def)
  have jn: "Suc j * 2 ^ 12 \<le> n * 2 ^ 12" using j by (intro mult_le_mono1) simp
  show ?case
  proof (cases "cu_rem c1 = 0")
    case True
    then have "cu_rem c = 2 ^ 12" using r c1' by (simp add: cu_add_def)
    moreover have "2 ^ 12 \<le> n * 2 ^ 12 - j * 2 ^ 12" using jn by simp
    ultimately have "(2 :: nat) ^ 12 = min (cu_rem c) (region 0 n - j * 2 ^ 12)" unfolding reg by linarith
    with rest True c1' st show ?thesis by (intro map_post_finish [where l = "2 ^ 12"]) auto
  next
    case False
    have "cursor_ok c1" unfolding c1'
      by (rule cursor_ok_add [OF Suc.prems(2)]) (use False c1' in \<open>simp_all add: cu_add_def\<close>)
    moreover have "k = n - Suc j" using Suc.hyps(2) by simp
    ultimately have "map_post True 0 n t p ?m al c1 (Suc j * 2 ^ 12) (Suc j * 2 ^ 12) m' al c'"
      using Suc.hyps(1) [of "Suc j" ?m c1] tree_step_ok [OF st(1) Suc.prems(1)] Suc.prems(3) j rest False by simp
    then have "map_post True 0 n t p ?m al (cu_add c (2 ^ 12)) (j * 2 ^ 12 + 2 ^ 12) (Suc j * 2 ^ 12) m' al c'"
      unfolding c1' by (simp add: add.commute)
    from map_post_continue [OF st r _ _ _ this] jn show ?thesis unfolding reg by simp
  qed
qed

section \<open>Entries of the upper levels\<close>

abbreviation blk :: "nat \<Rightarrow> nat" where
  "blk d \<equiv> 2 ^ level_shift (Suc d)"

lemma idx_region: "x < region (Suc d) n \<Longrightarrow> x div blk d mod n = x div blk d"
  by (simp add: region_def less_mult_imp_div_less)

lemma idx_below: "j \<le> n \<Longrightarrow> x < j * blk d \<Longrightarrow> x div blk d mod n \<noteq> j"
proof -
  assume "j \<le> n" "x < j * blk d"
  then have "x div blk d < j" by (simp add: less_mult_imp_div_less)
  moreover from this \<open>j \<le> n\<close> have "x div blk d mod n = x div blk d" by simp
  ultimately show ?thesis by simp
qed

lemma child_cell:
  assumes "pt_ok (Suc d) m n t" "i < n" "has_child m t i" "j < n"
  shows "t + 8 * j \<notin> tabs d m 512 (child m t i)"
proof -
  have "table_bytes n t \<inter> tabs d m 512 (child m t i) = {}" using assms by simp
  with cell_in_table [OF assms(4)] show ?thesis by blast
qed

lemma block_step:
  assumes ok: "tree_ok (Suc d) n t m al" and c: "cursor_ok c" "p < 4" and j: "j < n" and d: "d < 2"
    and al: "blk d dvd cu_pa c"
  defines "m1 \<equiv> m(t + 8 * j := block_descriptor (cu_pa c) p)"
  shows "tree_step (Suc d) n t m al m1 al" "\<And>x. x < j * blk d \<Longrightarrow> walk (Suc d) m1 n t x = walk (Suc d) m n t x"
    "eff True p (cu_pa c) (j * blk d) (blk d) (walk (Suc d) m n t) (walk (Suc d) m1 n t) (region (Suc d) n)"
proof -
  have "12 \<le> level_shift (Suc d)" by (simp add: level_shift_def)
  note bd = block_descriptor_walk [OF cursor_ok_desc [OF c(1)] c(2) al this]
  have n: "0 < n" using j by simp
  have nc: "\<not> has_child m1 t j"
    using bd(1) by (simp add: has_child_def is_table_descriptor_def m1_def)
  have ok': "pt_ok (Suc d) m n t" "tabs (Suc d) m n t \<inter> free_set al = {}" using ok by (simp_all only: tree_ok_def)
  have sub: "m1 a = m a" if "i < n" "i \<noteq> j" "has_child m t i" "a \<in> tabs d m 512 (child m t i)" for i a
    using child_cell [OF ok'(1) that(1,3) j] that(4) by (auto simp: m1_def)
  have cells: "m1 (t + 8 * i) = m (t + 8 * i)" if "i < n" "i \<noteq> j" for i using that by (simp add: m1_def)
  have new: "has_child m1 t j \<longrightarrow> pt_ok d m1 512 (child m1 t j) \<and> tabs d m1 512 (child m1 t j) \<subseteq> {} \<and>
      table_bytes n t \<inter> {} = {} \<and> (\<forall>i < n. i \<noteq> j \<longrightarrow> has_child m t i \<longrightarrow> tabs d m 512 (child m t i) \<inter> {} = {})"
    using nc by (simp only: simp_thms)
  have cs: "\<forall>i < n. i \<noteq> j \<longrightarrow> m1 (t + 8 * i) = m (t + 8 * i)"
    "\<forall>i < n. i \<noteq> j \<longrightarrow> has_child m t i \<longrightarrow> (\<forall>a \<in> tabs d m 512 (child m t i). m1 a = m a)"
    using cells sub by blast+
  note ec = entry_change [OF ok'(1) n cs new]
  have w: "walk (Suc d) m1 n t x = walk (Suc d) m n t x" if "x div blk d mod n \<noteq> j" for x
    using ec(3) that by blast
  have wj: "walk (Suc d) m1 n t x = Some (cu_pa c + x mod blk d, p, level_shift (Suc d))" if "x div blk d mod n = j" for x
    using bd d that by (simp add: m1_def Let_def)
  have "t + 8 * j \<in> tabs (Suc d) m n t" by (rule cell_in_tabs [OF j])
  note cj = this
  show "tree_step (Suc d) n t m al m1 al"
  proof (rule tree_stepI)
    show "ma_inv al" using ok by (simp only: tree_ok_def)
    show "m1 a = m a" if "a \<notin> tabs (Suc d) m n t" for a
    proof -
      have "a \<noteq> t + 8 * j" using that cj by blast
      then show ?thesis by (simp add: m1_def)
    qed
    show "tabs (Suc d) m1 n t \<subseteq> tabs (Suc d) m n t \<union> (free_set al - free_set al)" using ec(2) by simp
  qed (simp_all only: ec(1) order_refl)
  show "walk (Suc d) m1 n t x = walk (Suc d) m n t x" if "x < j * blk d" for x
    using w idx_below [OF _ that] j by simp
  show "eff True p (cu_pa c) (j * blk d) (blk d) (walk (Suc d) m n t) (walk (Suc d) m1 n t) (region (Suc d) n)"
    unfolding eff_def
  proof (intro allI impI)
    fix x assume x: "x < region (Suc d) n"
    have r: "x div blk d = j \<longleftrightarrow> j * blk d \<le> x \<and> x < j * blk d + blk d" by (rule div_eq_range) simp
    have i: "x div blk d mod n = x div blk d" by (rule idx_region [OF x])
    have "x mod blk d = x - j * blk d" if "x div blk d = j"
      using that by (metis minus_div_mult_eq_mod)
    then show "if j * blk d \<le> x \<and> x < j * blk d + blk d
      then mapped_to p (cu_pa c + (x - j * blk d)) (walk (Suc d) m1 n t x) \<or>
        \<not> True \<and> (walk (Suc d) m1 n t x = walk (Suc d) m n t x \<or> walk (Suc d) m1 n t x = None)
      else walk (Suc d) m1 n t x = walk (Suc d) m n t x \<or> walk (Suc d) m1 n t x = None \<and>
        split_block (j * blk d) (blk d) x (walk (Suc d) m n t x)"
      using w [of x] wj [of x] unfolding i r [symmetric] mapped_to_def by auto
  qed
qed

text \<open>The table behind an entry: it exists already, or an empty one replaces the entry.\<close>

lemma new_table_step:
  assumes ok: "tree_ok (Suc d) n t m al" and j: "j < n"
    and al: "ma_inv al1" "2 ^ 12 dvd a" "{a..<a + 2 ^ 12} \<subseteq> free_set al" "free_set al1 = free_set al - {a..<a + 2 ^ 12}"
  defines "m1 \<equiv> (init_table m a [0..<512])(t + 8 * j := table_descriptor a)"
  shows "tree_step (Suc d) n t m al m1 al1" "has_child m1 t j" "child m1 t j = a"
    "x div blk d mod n \<noteq> j \<Longrightarrow> walk (Suc d) m1 n t x = walk (Suc d) m n t x"
    "x div blk d mod n = j \<Longrightarrow> walk (Suc d) m1 n t x = None"
proof -
  let ?A = "{a..<a + 2 ^ 12}"
  have ok': "pt_ok (Suc d) m n t" "tabs (Suc d) m n t \<inter> free_set al = {}" "free_set al \<subseteq> {..<2 ^ 48}"
    using ok by (simp_all only: tree_ok_def)
  have n: "0 < n" using j by simp
  have "a \<in> free_set al" using al(3) by auto
  then have da: "desc_addr a" using ok'(3) al(2) by (auto simp: desc_addr_def)
  note td = table_descriptor_walk [OF da]
  show hc: "has_child m1 t j" and ch: "child m1 t j = a" using td by (simp_all add: has_child_def child_def m1_def)
  have apart: "tabs (Suc d) m n t \<inter> ?A = {}" using ok'(2) al(3) by blast
  have cell: "t + 8 * i \<in> tabs (Suc d) m n t" if "i < n" for i by (rule cell_in_tabs [OF that])
  have out: "m1 b = m b" if "b \<notin> ?A" "b \<noteq> t + 8 * j" for b
    using that by (auto simp: m1_def init_table_eq)
  have zero: "\<forall>i < 512. m1 (a + 8 * i) = 0"
  proof (intro allI impI)
    fix i :: nat assume "i < 512"
    then have "a + 8 * i \<in> ?A" by simp
    then have "a + 8 * i \<noteq> t + 8 * j" using apart cell [OF j] by (metis IntI empty_iff)
    with \<open>i < 512\<close> show "m1 (a + 8 * i) = 0" by (auto simp: m1_def init_table_eq)
  qed
  note z = zero_table [OF zero]
  have cells: "m1 (t + 8 * i) = m (t + 8 * i)" if "i < n" "i \<noteq> j" for i
  proof (rule out)
    show "t + 8 * i \<notin> ?A" using cell [OF that(1)] apart by blast
  qed (use that(2) in simp)
  have in_tabs: "tabs d m 512 (child m t i) \<subseteq> tabs (Suc d) m n t" if "i < n" "has_child m t i" for i using that by auto
  have subs: "m1 b = m b" if i: "i < n" "i \<noteq> j" "has_child m t i" "b \<in> tabs d m 512 (child m t i)" for i b
  proof (rule out)
    show "b \<notin> ?A" using in_tabs i apart by blast
    show "b \<noteq> t + 8 * j" using child_cell [OF ok'(1) i(1,3) j] i(4) by blast
  qed
  have bytes: "table_bytes 512 a = ?A" by simp
  have "table_bytes n t \<inter> ?A = {}" using apart table_bytes_tabs by blast
  moreover have "tabs d m 512 (child m t i) \<inter> ?A = {}" if "i < n" "has_child m t i" for i
    using in_tabs [OF that] apart by blast
  ultimately have new: "has_child m1 t j \<longrightarrow> pt_ok d m1 512 (child m1 t j) \<and> tabs d m1 512 (child m1 t j) \<subseteq> ?A \<and>
      table_bytes n t \<inter> ?A = {} \<and> (\<forall>i < n. i \<noteq> j \<longrightarrow> has_child m t i \<longrightarrow> tabs d m 512 (child m t i) \<inter> ?A = {})"
    using z(1,2) ch bytes by simp
  have "\<forall>i < n. i \<noteq> j \<longrightarrow> m1 (t + 8 * i) = m (t + 8 * i)"
    "\<forall>i < n. i \<noteq> j \<longrightarrow> has_child m t i \<longrightarrow> (\<forall>a \<in> tabs d m 512 (child m t i). m1 a = m a)"
    using cells subs by blast+
  note ec = entry_change [OF ok'(1) n this new]
  show "tree_step (Suc d) n t m al m1 al1"
    unfolding tree_step_def
  proof (intro conjI allI impI)
    have fr: "free_set al - free_set al1 = ?A" using al(3,4) by blast
    show "tabs (Suc d) m1 n t \<subseteq> tabs (Suc d) m n t \<union> (free_set al - free_set al1)" using ec(2) hc unfolding fr by simp
    show "m1 b = m b" if "b \<notin> tabs (Suc d) m n t" "b \<notin> free_set al - free_set al1" for b
      using that out [of b] cell [OF j] unfolding fr by blast
  qed (use al ec(1) in auto)
  show "x div blk d mod n \<noteq> j \<Longrightarrow> walk (Suc d) m1 n t x = walk (Suc d) m n t x" by (rule ec(3))
  show "walk (Suc d) m1 n t x = None" if "x div blk d mod n = j"
    using z(3) [of d x] hc ch that by (simp add: has_child_def child_def is_table_descriptor_def Let_def)
qed

lemma next_table_step:
  assumes ok: "tree_ok (Suc d) n t m al" and j: "j < n" and nt: "next_table (t + 8 * j) m al = Some (m1, al1, r)"
  shows "(case r of
      Err e \<Rightarrow> m1 = m \<and> al1 = al
    | Ok a \<Rightarrow> tree_step (Suc d) n t m al m1 al1 \<and> has_child m1 t j \<and> child m1 t j = a \<and>
        (\<forall>x. walk (Suc d) m1 n t x = walk (Suc d) m n t x \<or>
             x div blk d mod n = j \<and> walk (Suc d) m1 n t x = None \<and> (\<exists>a p. walk (Suc d) m n t x = Some (a, p, level_shift (Suc d)))))"
proof (cases "is_table_descriptor (m (t + 8 * j))")
  case True
  then have "m1 = m" "al1 = al" "r = Ok (get_next_level_table_address (m (t + 8 * j)))"
    using nt by (auto simp: next_table_def)
  with True tree_step_refl [OF ok] show ?thesis by (simp add: has_child_def child_def)
next
  case False
  from nt False obtain q where al: "allocate_pages al 1 12 = Some (al1, q)"
    and r: "case q of Err e \<Rightarrow> m1 = m \<and> r = Err () |
      Ok a \<Rightarrow> m1 = (init_table m a [0..<512])(t + 8 * j := table_descriptor a) \<and> r = Ok a"
    unfolding next_table_def by (auto elim!: option_bindE split: result.splits prod.splits)
  have inv: "ma_inv al" using ok by (simp only: tree_ok_def)
  have al': "allocate al (2 ^ 12) 12 = Some (al1, q)"
    using al by (simp add: allocate_pages_eq pages_to_bytes_def PAGE_SHIFT_def usize_range_def)
  show ?thesis
  proof (cases q)
    case (Err e)
    with ma.alloc_Err [OF inv] al' r show ?thesis by auto
  next
    case (Ok a)
    from ma.alloc_Ok [OF inv al' [unfolded Ok]]
    have "ma_inv al1" "2 ^ 12 dvd a" "{a..<a + 2 ^ 12} \<subseteq> free_set al" "free_set al1 = free_set al - {a..<a + 2 ^ 12}"
      by simp_all
    note st = new_table_step [OF ok j this]
    from r Ok have "m1 = (init_table m a [0..<512])(t + 8 * j := table_descriptor a)" "r = Ok a" by simp_all
    moreover have "walk (Suc d) m n t x = None \<or> (\<exists>a p. walk (Suc d) m n t x = Some (a, p, level_shift (Suc d)))"
      if "x div blk d mod n = j" for x
      using False that by (auto simp: is_table_descriptor_def Let_def)
    ultimately show ?thesis using st(1-3) st(4,5) by (simp only: result.case) metis
  qed
qed

text \<open>A change inside the table behind an entry.\<close>

lemma disj_mono: "A \<subseteq> W \<Longrightarrow> W \<inter> F = {} \<Longrightarrow> A \<inter> (F - G) = {}"
  by blast

lemma sub_step:
  assumes ok: "tree_ok (Suc d) n t m al" and j: "j < n" and hc: "has_child m t j"
    and st: "tree_step d 512 (child m t j) m al m1 al1"
  shows "tree_step (Suc d) n t m al m1 al1"
    "walk (Suc d) m1 n t x = (if x div blk d mod n = j then walk d m1 512 (child m t j) x else walk (Suc d) m n t x)"
proof -
  let ?T = "tabs d m 512 (child m t j)" and ?F = "free_set al - free_set al1"
  have ok': "pt_ok (Suc d) m n t" "tabs (Suc d) m n t \<inter> free_set al = {}" using ok by (simp_all only: tree_ok_def)
  have st': "pt_ok d m1 512 (child m t j)" "tabs d m1 512 (child m t j) \<subseteq> ?T \<union> ?F"
    "\<And>a. a \<notin> ?T \<Longrightarrow> a \<notin> ?F \<Longrightarrow> m1 a = m a"
    using st unfolding tree_step_def by blast+
  have in_tabs: "tabs d m 512 (child m t i) \<subseteq> tabs (Suc d) m n t" if "i < n" "has_child m t i" for i using that by auto
  have n: "0 < n" using j by simp
  have cell: "m1 (t + 8 * i) = m (t + 8 * i)" if "i < n" for i
  proof (rule st'(3))
    show "t + 8 * i \<notin> ?T" by (rule child_cell [OF ok'(1) j hc that])
    show "t + 8 * i \<notin> ?F" using cell_in_tabs [OF that, of t "Suc d" m] ok'(2) by blast
  qed
  then have cells: "\<forall>i < n. i \<noteq> j \<longrightarrow> m1 (t + 8 * i) = m (t + 8 * i)" by blast
  have ch: "has_child m1 t j" "child m1 t j = child m t j"
    using cell [OF j] hc by (simp_all add: has_child_def child_def)
  have apart: "tabs d m 512 (child m t i) \<inter> ?T = {}" if "i < n" "i \<noteq> j" "has_child m t i" for i
    using ok'(1) that j hc by simp
  have nofree: "tabs d m 512 (child m t i) \<inter> ?F = {}" if "i < n" "has_child m t i" for i
    by (rule disj_mono [OF in_tabs [OF that] ok'(2)])
  have subs: "\<forall>i < n. i \<noteq> j \<longrightarrow> has_child m t i \<longrightarrow> (\<forall>a \<in> tabs d m 512 (child m t i). m1 a = m a)"
    using apart nofree st'(3) by blast
  have "table_bytes n t \<inter> ?T = {}" using ok'(1) j hc by simp
  moreover have "table_bytes n t \<inter> ?F = {}" by (rule disj_mono [OF table_bytes_tabs ok'(2)])
  ultimately have new: "has_child m1 t j \<longrightarrow> pt_ok d m1 512 (child m1 t j) \<and> tabs d m1 512 (child m1 t j) \<subseteq> ?T \<union> ?F \<and>
      table_bytes n t \<inter> (?T \<union> ?F) = {} \<and>
      (\<forall>i < n. i \<noteq> j \<longrightarrow> has_child m t i \<longrightarrow> tabs d m 512 (child m t i) \<inter> (?T \<union> ?F) = {})"
    using st'(1,2) apart nofree ch(2) by (simp add: Int_Un_distrib)
  note ec = entry_change [OF ok'(1) n cells subs new]
  have "?T \<subseteq> tabs (Suc d) m n t" by (rule in_tabs [OF j hc])
  then show "tree_step (Suc d) n t m al m1 al1"
  proof (intro tree_stepI)
    assume T: "?T \<subseteq> tabs (Suc d) m n t"
    show "ma_inv al1" "free_set al1 \<subseteq> free_set al" using st by (simp_all only: tree_step_def)
    show "pt_ok (Suc d) m1 n t" by (rule ec(1))
    show "tabs (Suc d) m1 n t \<subseteq> tabs (Suc d) m n t \<union> ?F" using ec(2) ch(1) T by (simp only: if_True) blast
    show "m1 a = m a" if "a \<notin> tabs (Suc d) m n t" "a \<notin> ?F" for a
      using st'(3) [OF _ that(2)] T that(1) by blast
  qed
  show "walk (Suc d) m1 n t x = (if x div blk d mod n = j then walk d m1 512 (child m t j) x else walk (Suc d) m n t x)"
  proof (cases "x div blk d mod n = j")
    case True
    then have "m1 (t + 8 * (x div blk d mod n)) AND 0b11 = 0b11"
      "get_next_level_table_address (m1 (t + 8 * (x div blk d mod n))) = child m t j"
      using ch by (simp_all only: has_child_def child_def is_table_descriptor_def)
    with True show ?thesis by (simp only: walk.simps Let_def if_True refl)
  next
    case False
    from ec(3) [OF this] False show ?thesis by (simp only: if_False)
  qed
qed

section \<open>The loops\<close>

text \<open>What a call on a table guarantees, whatever the level.\<close>

definition level_spec :: "nat \<Rightarrow> u64 \<Rightarrow> nat \<Rightarrow> bool" where
  "level_spec d p n \<longleftrightarrow> (\<forall>m al c t m' al' c' q.
     tree_ok d n t m al \<longrightarrow> cursor_ok c \<longrightarrow> map_level d p n m al c t = Some ((m', al', c'), q) \<longrightarrow>
     map_post (q = Ok ()) d n t p m al c (cu_ipa c mod region d n) 0 m' al' c')"

lemma tree_ok_child:
  assumes "tree_ok (Suc d) n t m al" "j < n" "has_child m t j"
  shows "tree_ok d 512 (child m t j) m al"
proof -
  have "tabs d m 512 (child m t j) \<subseteq> tabs (Suc d) m n t" using assms(2,3) by auto
  moreover have "pt_ok d m 512 (child m t j)" using assms by (simp add: tree_ok_def)
  ultimately show ?thesis using assms(1) unfolding tree_ok_def by blast
qed

text \<open>A block inside the table behind an entry, seen from the table.\<close>

lemma split_child:
  assumes "split_block off l y (walk d m 512 a y')"
  shows "split_block (j * blk d + off) l (j * blk d + y) (walk d m 512 a y')"
proof -
  from assms obtain b p sh z where s: "walk d m 512 a y' = Some (b, p, sh)" "12 < sh" "off \<le> z" "z < off + l" "z div 2 ^ sh = y div 2 ^ sh"
    unfolding split_block_def by blast
  have "sh \<le> level_shift (Suc d)" using walk_shift [OF s(1)] by (simp add: level_shift_def)
  then have "(2 :: nat) ^ sh dvd j * blk d" by (simp add: le_imp_power_dvd)
  then have "(j * blk d + z) div 2 ^ sh = (j * blk d + y) div 2 ^ sh" using s(5) by (simp add: div_plus_div_distrib_dvd_left)
  then show ?thesis using s(1-4) unfolding split_block_def by (intro exI [of _ b] exI [of _ p] exI [of _ sh] exI [of _ "j * blk d + z"]) simp
qed

text \<open>The recursive call behind entry \<open>j\<close>, seen from the table.\<close>

lemma child_step:
  assumes ok: "tree_ok (Suc d) n t m al" and c: "cursor_ok c" and j: "j < n"
    and nt: "next_table (t + 8 * j) m al = Some (m1, al1, Ok a)"
    and spec: "level_spec d p 512" and call: "map_level d p 512 m1 al1 c a = Some ((m2, al2, c2), q)"
    and off: "off div blk d = j" "cu_ipa c mod blk d = off mod blk d"
  defines "l \<equiv> min (cu_rem c) (blk d - off mod blk d)"
  shows "tree_step (Suc d) n t m al m2 al2" "q = Ok () \<longrightarrow> c2 = cu_add c l"
    "\<And>x. x < j * blk d \<Longrightarrow> walk (Suc d) m2 n t x = walk (Suc d) m n t x"
    "eff (q = Ok ()) p (cu_pa c) off l (walk (Suc d) m n t) (walk (Suc d) m2 n t) (region (Suc d) n)"
proof -
  have st: "tree_step (Suc d) n t m al m1 al1" "has_child m1 t j" "child m1 t j = a"
    "\<And>x. walk (Suc d) m1 n t x = walk (Suc d) m n t x \<or> x div blk d mod n = j \<and> walk (Suc d) m1 n t x = None \<and>
       (\<exists>a p. walk (Suc d) m n t x = Some (a, p, level_shift (Suc d)))"
    using next_table_step [OF ok j nt] unfolding result.case by blast+
  note ok1 = tree_step_ok [OF st(1) ok]
  from tree_ok_child [OF ok1 j st(2)] st(3) have oka: "tree_ok d 512 a m1 al1" by simp
  have post: "map_post (q = Ok ()) d 512 a p m1 al1 c (off mod blk d) 0 m2 al2 c2"
    using spec [unfolded level_spec_def, rule_format, OF oka c call] by (simp add: region_512 off(2))
  then have p: "tree_step d 512 a m1 al1 m2 al2" "q = Ok () \<longrightarrow> c2 = cu_add c l"
    "eff (q = Ok ()) p (cu_pa c) (off mod blk d) l (walk d m1 512 a) (walk d m2 512 a) (blk d)"
    by (simp_all add: map_post_def region_512 l_def)
  note ss = sub_step [OF ok1 j st(2), unfolded st(3), OF p(1)]
  show "tree_step (Suc d) n t m al m2 al2" by (rule tree_step_trans [OF st(1) ss(1)])
  show "q = Ok () \<longrightarrow> c2 = cu_add c l" by (rule p(2))
  show "walk (Suc d) m2 n t x = walk (Suc d) m n t x" if "x < j * blk d" for x
  proof -
    have "x div blk d mod n \<noteq> j" using idx_below [OF _ that] j by simp
    with ss(2) [of x] st(4) [of x] show ?thesis by (simp only: if_False) blast
  qed
  have w1: "walk (Suc d) m1 n t x = walk d m1 512 a x" if "x div blk d mod n = j" for x
    using st(2,3) that by (simp add: has_child_def child_def is_table_descriptor_def Let_def)
  show "eff (q = Ok ()) p (cu_pa c) off l (walk (Suc d) m n t) (walk (Suc d) m2 n t) (region (Suc d) n)"
    unfolding eff_def
  proof (intro allI impI)
    fix x assume x: "x < region (Suc d) n"
    let ?y = "x mod blk d" and ?W = "walk (Suc d) m n t x" and ?W2 = "walk (Suc d) m2 n t x"
    note i = idx_region [OF x]
    show "if off \<le> x \<and> x < off + l
      then mapped_to p (cu_pa c + (x - off)) ?W2 \<or> q \<noteq> Ok () \<and> (?W2 = ?W \<or> ?W2 = None)
      else ?W2 = ?W \<or> ?W2 = None \<and> split_block off l x ?W"
    proof (cases "x div blk d = j")
      case True
      have y: "?y < blk d" by simp
      have xy: "x = j * blk d + ?y" "off = j * blk d + off mod blk d"
        using True off(1) by (metis div_mult_mod_eq)+
      then have r: "off mod blk d \<le> ?y \<and> ?y < off mod blk d + l \<longleftrightarrow> off \<le> x \<and> x < off + l"
        "?y - off mod blk d = x - off" by linarith+
      have wy: "walk d m2 512 a ?y = ?W2" "walk d m1 512 a ?y = walk (Suc d) m1 n t x"
        using ss(2) [of x] True i w1 [of x] walk_mod [of 512 d m2 a x] walk_mod [of 512 d m1 a x]
        by (simp_all add: region_512)
      have sb: "split_block off l x ?W" if "split_block (off mod blk d) l ?y (walk d m1 512 a ?y)" "walk (Suc d) m1 n t x = ?W"
        using split_child [OF that(1), of j] that(2) wy(2) xy by simp
      have sn: "split_block off l x ?W" if "\<exists>a p. ?W = Some (a, p, level_shift (Suc d))"
      proof -
        have "0 < l" using c by (simp add: l_def cursor_ok_def)
        with that off(1) True show ?thesis unfolding split_block_def by (fastforce simp: level_shift_def)
      qed
      from p(3) [unfolded eff_def, rule_format, OF y] st(4) [of x] sb sn show ?thesis
        unfolding r wy by (cases "off \<le> x \<and> x < off + l") (simp_all, metis+)
    next
      case False
      then have "?W2 = ?W" using ss(2) [of x] st(4) [of x] i by auto
      moreover have "\<not> (off \<le> x \<and> x < off + l)"
      proof
        assume h: "off \<le> x \<and> x < off + l"
        have "off mod blk d < blk d" by simp
        then have "off + l \<le> off + (blk d - off mod blk d)"
          unfolding l_def by (intro add_left_mono min.cobounded2)
        also have "\<dots> = j * blk d + blk d"
          using off(1) \<open>off mod blk d < blk d\<close> by (metis add.assoc div_mult_mod_eq le_add_diff_inverse less_imp_le)
        finally have "x < j * blk d + blk d" using h by linarith
        moreover have "j * blk d \<le> x" using off(1) h by (metis div_times_less_eq_dividend le_trans)
        ultimately show False using False div_eq_range [of "blk d" x j] by simp
      qed
      ultimately show ?thesis by (simp only: if_False simp_thms)
    qed
  qed
qed

lemma map_post_error:
  assumes "tree_step d n t m al m' al'" "\<And>x. x < lo \<Longrightarrow> walk d m' n t x = walk d m n t x"
    "eff False p (cu_pa c) off l (walk d m n t) (walk d m' n t) (region d n)"
    "l \<le> min (cu_rem c) (region d n - off)"
  shows "map_post False d n t p m al c off lo m' al' c'"
  using assms eff_weaken [OF assms(3,4)] by (simp add: map_post_def)

text \<open>The cursor stands in entry \<open>j\<close> at position \<open>off\<close> of the region, or at its end.\<close>

definition at_entry :: "nat \<Rightarrow> nat \<Rightarrow> nat \<Rightarrow> nat \<Rightarrow> cursor \<Rightarrow> bool" where
  "at_entry d n j off c \<longleftrightarrow> j \<le> n \<and> off div blk d = j \<and> (j = n \<longrightarrow> off = n * blk d) \<and>
     cu_ipa c mod blk d = off mod blk d \<and> 2 ^ 12 dvd off"

lemma dvd_12_blk: "2 ^ 12 dvd blk d"
  by (rule le_imp_power_dvd) (simp add: level_shift_def)

lemma at_entry_next:
  assumes "at_entry d n j off c" "j < n"
  defines "l \<equiv> blk d - off mod blk d"
  shows "off + l = Suc j * blk d" "2 ^ 12 dvd l" "at_entry d n (Suc j) (off + l) (cu_add c l)"
proof -
  have o: "off = j * blk d + off mod blk d" "off mod blk d < blk d"
    using assms(1) by (metis at_entry_def div_mult_mod_eq, simp)
  then show e: "off + l = Suc j * blk d" unfolding l_def mult_Suc by linarith
  have "2 ^ 12 dvd off + l" unfolding e by (rule dvd_mult [OF dvd_12_blk])
  then show d: "2 ^ 12 dvd l" using assms(1) by (simp add: at_entry_def dvd_add_right_iff)
  have "(cu_ipa c + l) mod blk d = (off mod blk d + l) mod blk d"
    using assms(1) by (metis at_entry_def mod_add_left_eq)
  also have "\<dots> = 0" using o(2) by (simp add: l_def)
  finally have "cu_ipa (cu_add c l) mod blk d = (off + l) mod blk d" unfolding e by (simp add: cu_add_def)
  then show "at_entry d n (Suc j) (off + l) (cu_add c l)"
    unfolding at_entry_def e using assms(2) \<open>2 ^ 12 dvd off + l\<close> [unfolded e] by simp
qed

lemma map_entries_spec:
  assumes spec: "level_spec d p 512" and p: "p < 4" and d: "d < 3"
    and "tree_ok (Suc d) n t m al" "cursor_ok c" "at_entry d n j off c"
    and "map_entries (map_level d p 512) (3 - Suc d) (level_shift (Suc d)) p t m al c [j..<n] = Some ((m', al', c'), q)"
  shows "map_post (q = Ok ()) (Suc d) n t p m al c off (j * blk d) m' al' c'"
  using assms(4-)
proof (induction "n - j" arbitrary: m al c j off)
  case 0
  then have "j = n" by (simp add: at_entry_def)
  with "0.prems"(3) have "off = region (Suc d) n" by (simp add: at_entry_def region_def)
  moreover have "m' = m" "al' = al" "c' = c" "q = Ok ()" using "0.prems"(4) \<open>j = n\<close> by simp_all
  ultimately show ?case
    by (simp add: map_post_def tree_step_refl [OF "0.prems"(1)] eff_def cu_add_def)
next
  case (Suc k)
  then have j: "j < n" by simp
  let ?B = "blk d" and ?R = "region (Suc d) n"
  define l where "l = ?B - off mod ?B"
  note nx = at_entry_next [OF Suc.prems(3) j, folded l_def]
  have R: "off + l \<le> ?R" unfolding nx(1) region_def using j by (intro mult_le_mono1) simp
  have k: "k = n - Suc j" using Suc.hyps(2) by simp
  have lo: "j * ?B \<le> Suc j * ?B" by simp
  have oj: "off div ?B = j" "cu_ipa c mod ?B = off mod ?B" using Suc.prems(3) by (simp_all add: at_entry_def)
  have lr: "l \<le> ?R - off" using R by linarith
  have IH: "map_post (q = Ok ()) (Suc d) n t p m1 al1 (cu_add c l) (off + l) (Suc j * ?B) m' al' c'"
    if "tree_step (Suc d) n t m al m1 al1" "l < cu_rem c"
      "map_entries (map_level d p 512) (3 - Suc d) (level_shift (Suc d)) p t m1 al1 (cu_add c l) [Suc j..<n] =
         Some ((m', al', c'), q)" for m1 al1
    using Suc.hyps(1) [OF k tree_step_ok [OF that(1) Suc.prems(1)] cursor_ok_add [OF Suc.prems(2) nx(2) that(2)] nx(3) that(3)] .
  let ?block = "1 \<le> 3 - Suc d \<and> ?B \<le> cu_rem c \<and> cu_pa c mod ?B = 0 \<and> cu_ipa c mod ?B = 0"
  note call = Suc.prems(4) [unfolded upt_conv_Cons [OF j] map_entries.simps Let_def]
  show ?case
  proof (cases ?block)
    case True
    then have d2: "d < 2" and a: "?B dvd cu_pa c" and o0: "off mod ?B = 0" using oj(2) by auto
    have lB: "l = ?B" using o0 by (simp add: l_def)
    have off: "off = j * ?B" using oj(1) o0 by (metis add.right_neutral div_mult_mod_eq)
    let ?m = "m(t + 8 * j := block_descriptor (cu_pa c) p)"
    note st = block_step [OF Suc.prems(1,2) p j d2 a, folded off lB]
    from call True obtain c1 where c1: "cursor_advance c ?B = Some c1"
      and rest: "(if cu_rem c1 = 0 then Some ((?m, al, c1), Ok ())
        else map_entries (map_level d p 512) (3 - Suc d) (level_shift (Suc d)) p t ?m al c1 [Suc j..<n]) =
        Some ((m', al', c'), q)"
      by (simp only: if_True simp_thms) (erule option_bindE, blast)
    from cursor_advance_eq [OF c1] have c1': "c1 = cu_add c l" and r: "l \<le> cu_rem c" by (simp_all add: lB)
    show ?thesis
    proof (cases "cu_rem c1 = 0")
      case True
      then have "cu_rem c = l" using r c1' by (simp add: cu_add_def)
      then have "l = min (cu_rem c) (?R - off)" using lr by linarith
      moreover have "m' = ?m" "al' = al" "c' = c1" "q = Ok ()" using rest True by simp_all
      ultimately show ?thesis using st c1' off map_post_finish [of "Suc d" n t m al ?m al off p c off l c1] by simp
    next
      case False
      then have lt: "l < cu_rem c" using c1' by (simp add: cu_add_def)
      from map_post_continue [OF st r _ _ R IH [OF st(1) lt]] rest False c1' nx(1) off lo show ?thesis
        by (simp only: if_False)
    qed
  next
    case False
    from call False obtain m1 al1 r where nt: "next_table (t + 8 * j) m al = Some (m1, al1, r)"
      and rest: "(case r of
           Err e \<Rightarrow> Some ((m1, al1, c), Err ())
         | Ok a \<Rightarrow> do {
             ((m, al, c), q) \<leftarrow> map_level d p 512 m1 al1 c a;
             (case q of
                Err e \<Rightarrow> Some ((m, al, c), Err ())
              | Ok u \<Rightarrow>
                  if cu_rem c = 0 then Some ((m, al, c), Ok ())
                  else map_entries (map_level d p 512) (3 - Suc d) (level_shift (Suc d)) p t m al c [Suc j..<n]) }) =
          Some ((m', al', c'), q)"
      by (simp only: if_False) (erule option_bindE, auto)
    show ?thesis
    proof (cases r)
      case (Err e)
      with next_table_step [OF Suc.prems(1) j nt] rest have "m' = m" "al' = al" "q = Err ()" by auto
      then show ?thesis
        using map_post_error [of "Suc d" n t m al m al _ p c off 0] tree_step_refl [OF Suc.prems(1)]
        by (simp add: eff_def)
    next
      case (Ok a)
      with rest obtain m2 al2 c2 q2 where cl: "map_level d p 512 m1 al1 c a = Some ((m2, al2, c2), q2)"
        and rest2: "(case q2 of
                Err e \<Rightarrow> Some ((m2, al2, c2), Err ())
              | Ok u \<Rightarrow>
                  if cu_rem c2 = 0 then Some ((m2, al2, c2), Ok ())
                  else map_entries (map_level d p 512) (3 - Suc d) (level_shift (Suc d)) p t m2 al2 c2 [Suc j..<n]) =
          Some ((m', al', c'), q)"
        by (simp only: result.case) (erule option_bindE, auto)
      define l' where "l' = min (cu_rem c) l"
      note cs = child_step [OF Suc.prems(1,2) j nt [unfolded Ok] spec cl oj, folded l_def, folded l'_def]
      show ?thesis
      proof (cases q2)
        case (Err e)
        with rest2 have "m' = m2" "al' = al2" "q = Err ()" by auto
        moreover have "l' \<le> min (cu_rem c) (?R - off)" using lr by (simp add: l'_def)
        ultimately show ?thesis using cs(1,3,4) Err map_post_error by simp
      next
        case q2: (Ok u)
        then have c2: "c2 = cu_add c l'" and e: "eff True p (cu_pa c) off l' (walk (Suc d) m n t) (walk (Suc d) m2 n t) ?R"
          using cs(2,4) by simp_all
        show ?thesis
        proof (cases "cu_rem c2 = 0")
          case True
          then have "cu_rem c \<le> l" using c2 by (simp add: cu_add_def l'_def min_def split: if_splits)
          then have "l' = min (cu_rem c) (?R - off)" using lr by (simp add: l'_def)
          moreover have "m' = m2" "al' = al2" "c' = c2" "q = Ok ()" using rest2 q2 True by simp_all
          ultimately show ?thesis using map_post_finish [OF cs(1,3) e _ c2] by simp
        next
          case False
          then have lt: "l < cu_rem c" using c2 by (simp add: cu_add_def l'_def min_def split: if_splits)
          then have l': "l' = l" by (simp add: l'_def)
          from rest2 q2 False have "map_entries (map_level d p 512) (3 - Suc d) (level_shift (Suc d)) p t m2 al2
            (cu_add c l) [Suc j..<n] = Some ((m', al', c'), q)" by (simp only: result.case if_False c2 l')
          note post = IH [OF cs(1) lt this]
          show ?thesis
            by (rule map_post_continue [OF cs(1,3) e [unfolded l'] _ _ lo R post]) (use lt nx(1) in simp_all)
        qed
      qed
    qed
  qed
qed

text \<open>Every level, by induction on the number of levels below.\<close>

lemma and_power_mask: "x AND (2 ^ k - 1) = x mod (2 ^ k :: nat)"
  unfolding mask_eq_exp_minus_1 [symmetric] take_bit_eq_mask [symmetric] take_bit_eq_mod ..

lemma first_index_eq:
  assumes "n = 2 ^ k" shows "first_index d c n = cu_ipa c mod region d n div 2 ^ level_shift d"
  unfolding first_index_def assms and_power_mask using index_mod [of "cu_ipa c" d "2 ^ k"] by simp

lemma level_spec_holds:
  assumes "p < 4" "d \<le> 3"
  shows "level_spec d p (2 ^ k)"
  using assms(2)
proof (induction d arbitrary: k)
  case 0
  show ?case
    unfolding level_spec_def
  proof (intro allI impI)
    fix m al t m' al' q and c c' :: cursor
    let ?n = "2 ^ k :: nat"
    assume ok: "tree_ok 0 ?n t m al" and c: "cursor_ok c" and call: "map_level 0 p ?n m al c t = Some ((m', al', c'), q)"
    define j where "j = cu_ipa c mod region 0 ?n div 2 ^ 12"
    have f: "first_index 0 c ?n = j" using first_index_eq [of ?n k 0 c] by (simp add: j_def level_shift_def)
    have r: "map_pages p t m c [j..<?n] = Some (m', c')" "al' = al" "q = Ok ()"
      using call unfolding map_level.simps f by (auto elim!: option_bindE)
    have reg: "region 0 ?n = ?n * 2 ^ 12" by (simp add: region_def level_shift_def)
    have "cu_ipa c mod region 0 ?n < ?n * 2 ^ 12" unfolding reg by simp
    then have "j < ?n" unfolding j_def by (simp add: less_mult_imp_div_less)
    have "2 ^ 12 dvd cu_ipa c mod region 0 ?n"
      using c unfolding reg cursor_ok_def by (simp add: dvd_mod)
    then have o: "j * 2 ^ 12 = cu_ipa c mod region 0 ?n" unfolding j_def by simp
    from map_pages_spec [OF ok c assms(1) _ r(1)] \<open>j < ?n\<close>
    have "map_post True 0 ?n t p m al c (j * 2 ^ 12) (j * 2 ^ 12) m' al c'" by simp
    then show "map_post (q = Ok ()) 0 ?n t p m al c (cu_ipa c mod region 0 ?n) 0 m' al' c'"
      unfolding o r by (simp add: map_post_def)
  qed
next
  case (Suc d)
  have s: "level_spec d p 512" using Suc.IH [of 9] Suc.prems by simp
  show ?case
    unfolding level_spec_def
  proof (intro allI impI)
    fix m al t m' al' q and c c' :: cursor
    let ?n = "2 ^ k :: nat" and ?off = "cu_ipa c mod region (Suc d) (2 ^ k)"
    assume ok: "tree_ok (Suc d) ?n t m al" and c: "cursor_ok c"
      and call: "map_level (Suc d) p ?n m al c t = Some ((m', al', c'), q)"
    define j where "j = ?off div blk d"
    have f: "first_index (Suc d) c ?n = j" using first_index_eq [of ?n k "Suc d" c] by (simp add: j_def)
    have "?off < ?n * blk d" by (simp add: region_def)
    then have j: "j < ?n" unfolding j_def by (simp add: less_mult_imp_div_less)
    have "cu_ipa c mod blk d = ?off mod blk d" by (simp add: region_def mod_mod_cancel)
    moreover have "2 ^ 12 dvd ?off"
      using c dvd_mult [OF dvd_12_blk, of ?n d] unfolding region_def cursor_ok_def by (simp only: dvd_mod)
    ultimately have "at_entry d ?n j ?off c" using j by (simp add: at_entry_def j_def)
    from map_entries_spec [OF s assms(1) _ ok c this call [unfolded map_level.simps f]] Suc.prems
    show "map_post (q = Ok ()) (Suc d) ?n t p m al c ?off 0 m' al' c'" by (simp add: map_post_def)
  qed
qed

end
