(* ===== verification/Paging_Spec.thy ===== *)
theory Paging_Spec
  imports Paging_Map Allocator_Spec
begin

text \<open>
  The properties of stage 2 paging, in terms of the translation that the hardware makes with
  the tables and registers the code has set up.
\<close>

section \<open>Register fields\<close>

definition s2_t0sz :: "stage2 \<Rightarrow> nat" where
  "s2_t0sz s = unat (drop_bit VTCR_EL2_T0SZ_BITS_OFFSET (vtcr_el2 s AND VTCR_EL2_T0SZ))"

definition s2_sl0 :: "stage2 \<Rightarrow> nat" where
  "s2_sl0 s = unat (drop_bit VTCR_EL2_SL0_BITS_OFFSET (vtcr_el2 s AND VTCR_EL2_SL0))"

definition s2_root :: "stage2 \<Rightarrow> nat" where
  "s2_root s = unat (vttbr_el2 s AND VTTBR_BADDR)"

text \<open>Registers, tables and allocator fit together for a first lookup at \<open>level\<close>.\<close>

definition stage2_ok :: "stage2 \<Rightarrow> nat \<Rightarrow> bool" where
  "stage2_ok s level \<longleftrightarrow> initial_level (s2_sl0 s) = Some level \<and> s2_t0sz s \<le> 43 \<and>
     tree_ok (3 - level) (number_of_concatenated_page_tables (s2_t0sz s) level * 512) (s2_root s) (st_mem s) (st_alloc s)"

lemma initial_level_le: "initial_level k = Some level \<Longrightarrow> level \<le> 3"
  by (auto simp: initial_level_def split: if_splits)

lemma number_power: "\<exists>k. number_of_concatenated_page_tables t l * 512 = 2 ^ k"
proof (cases "t > 43 - (3 - l) * 9")
  case True
  then show ?thesis by (intro exI [of _ 9]) (simp add: number_of_concatenated_page_tables_def)
next
  case False
  then have "number_of_concatenated_page_tables t l * 512 = 2 ^ (43 - (3 - l) * 9 - t) * 2 ^ 9"
    by (simp add: number_of_concatenated_page_tables_def)
  then show ?thesis unfolding power_add [symmetric] by blast
qed

lemma input_size_le_region:
  assumes "l \<le> 3"
  shows "2 ^ (64 - t) \<le> region (3 - l) (number_of_concatenated_page_tables t l * 512)"
proof -
  have s: "(43 - (3 - l) * 9) + 9 + level_shift (3 - l) = 64" using assms by (auto simp: level_shift_def)
  show ?thesis
  proof (cases "t > 43 - (3 - l) * 9")
    case True
    then have "64 - t \<le> 9 + level_shift (3 - l)" using s by linarith
    then have "(2 :: nat) ^ (64 - t) \<le> 2 ^ (9 + level_shift (3 - l))" by (rule power_increasing) simp
    then show ?thesis using True by (simp add: region_def number_of_concatenated_page_tables_def power_add)
  next
    case False
    then have "64 - t = (43 - (3 - l) * 9 - t) + 9 + level_shift (3 - l)" using s by linarith
    then have "(2 :: nat) ^ (64 - t) = 2 ^ (43 - (3 - l) * 9 - t) * 512 * 2 ^ level_shift (3 - l)"
      by (simp only: power_add) simp
    then show ?thesis using False by (simp add: region_def number_of_concatenated_page_tables_def)
  qed
qed

lemma leaf_eq:
  assumes "initial_level (s2_sl0 s) = Some level"
  shows "translation_leaf s x = (if 2 ^ (64 - s2_t0sz s) \<le> x then None
    else walk (3 - level) (st_mem s) (number_of_concatenated_page_tables (s2_t0sz s) level * 512) (s2_root s) x)"
  using assms by (simp add: translation_leaf_def s2_t0sz_def s2_sl0_def s2_root_def Let_def)

lemma translate_cong: "translation_leaf s' x = translation_leaf s x \<Longrightarrow> translate s' x = translate s x"
  by (simp add: translate_def)

lemma translate_None: "translation_leaf s x = None \<Longrightarrow> translate s x = None"
  by (simp add: translate_def)

lemma translate_mapped: "mapped_to p a (translation_leaf s x) \<Longrightarrow> translate s x = Some (a, p)"
  by (auto simp: translate_def mapped_to_def)

section \<open>Mapping\<close>

definition access_permission :: "bool \<Rightarrow> bool \<Rightarrow> u64" where
  "access_permission readable writable = push_bit 1 (of_bool writable) OR of_bool readable"

lemma access_permission_less: "access_permission r w < 4"
  by (cases r; cases w) (simp_all add: access_permission_def)

lemma map_address_eq:
  assumes "sz mod 2 ^ 12 = 0" "initial_level (s2_sl0 s) = Some level"
  shows "map_address_stage2 s pa ipa sz r w = do {
    ((m, al, c), q) \<leftarrow> map_level (3 - level) (access_permission r w)
      (number_of_concatenated_page_tables (s2_t0sz s) level * 512) (st_mem s) (st_alloc s)
      \<lparr>cu_pa = pa, cu_ipa = ipa, cu_rem = sz\<rparr> (s2_root s);
    ret (s\<lparr>st_mem := m, st_alloc := al\<rparr>, q) }"
  using assms
  by (simp add: map_address_stage2_def s2_sl0_def s2_t0sz_def s2_root_def access_permission_def PAGE_SHIFT_def)

lemma map_stage2_eff:
  assumes ok: "stage2_ok s level" and al: "2 ^ 12 dvd pa" "2 ^ 12 dvd ipa" "0 < sz" "pa + sz \<le> 2 ^ 48"
    and range: "ipa + sz \<le> 2 ^ (64 - s2_t0sz s)"
    and call: "map_address_stage2 s pa ipa sz r w = Some (s', q)" "2 ^ 12 dvd sz"
  shows "stage2_ok s' level \<and> vtcr_el2 s' = vtcr_el2 s \<and> vttbr_el2 s' = vttbr_el2 s \<and>
    eff (q = Ok ()) (access_permission r w) pa ipa sz (translation_leaf s) (translation_leaf s') (2 ^ (64 - s2_t0sz s))"
proof -
  let ?n = "number_of_concatenated_page_tables (s2_t0sz s) level * 512" and ?d = "3 - level"
  let ?c = "\<lparr>cu_pa = pa, cu_ipa = ipa, cu_rem = sz\<rparr>" and ?p = "access_permission r w"
  have lev: "initial_level (s2_sl0 s) = Some level" and t: "s2_t0sz s \<le> 43"
    and tree: "tree_ok ?d ?n (s2_root s) (st_mem s) (st_alloc s)" using ok by (simp_all only: stage2_ok_def)
  have "sz mod 2 ^ 12 = 0" using call(2) by simp
  from call(1) [unfolded map_address_eq [OF this lev]] obtain m al c where
    ml: "map_level ?d ?p ?n (st_mem s) (st_alloc s) ?c (s2_root s) = Some ((m, al, c), q)"
    and s': "s' = s\<lparr>st_mem := m, st_alloc := al\<rparr>"
    by (elim option_bindE) auto
  obtain k where k: "?n = 2 ^ k" using number_power by blast
  have "level_spec ?d ?p ?n" unfolding k by (rule level_spec_holds [OF access_permission_less]) simp
  moreover have "cursor_ok ?c" using al call(2) by (simp add: cursor_ok_def)
  ultimately have post: "map_post (q = Ok ()) ?d ?n (s2_root s) ?p (st_mem s) (st_alloc s) ?c (ipa mod region ?d ?n) 0 m al c"
    using tree ml unfolding level_spec_def by (metis cursor.select_convs(2))
  have reg: "2 ^ (64 - s2_t0sz s) \<le> region ?d ?n" by (rule input_size_le_region [OF initial_level_le [OF lev]])
  then have o: "ipa mod region ?d ?n = ipa" using range al(3) by simp
  have len: "min sz (region ?d ?n - ipa) = sz" using range reg by simp
  have regs: "s2_t0sz s' = s2_t0sz s" "s2_sl0 s' = s2_sl0 s" "s2_root s' = s2_root s" "vtcr_el2 s' = vtcr_el2 s"
    "vttbr_el2 s' = vttbr_el2 s" "st_mem s' = m" "st_alloc s' = al"
    by (simp_all add: s' s2_t0sz_def s2_sl0_def s2_root_def)
  have "stage2_ok s' level"
    using lev t tree_step_ok [OF _ tree] post unfolding stage2_ok_def regs map_post_def by blast
  moreover have "eff (q = Ok ()) ?p pa ipa sz (translation_leaf s) (translation_leaf s') (2 ^ (64 - s2_t0sz s))"
    unfolding eff_def
  proof (intro allI impI)
    fix x :: nat assume x: "x < 2 ^ (64 - s2_t0sz s)"
    have tr: "translation_leaf s x = walk ?d (st_mem s) ?n (s2_root s) x" "translation_leaf s' x = walk ?d m ?n (s2_root s) x"
      using x leaf_eq [of s level x] leaf_eq [of s' level x] lev unfolding regs by simp_all
    have "eff (q = Ok ()) ?p pa ipa sz (walk ?d (st_mem s) ?n (s2_root s)) (walk ?d m ?n (s2_root s)) (region ?d ?n)"
      using post unfolding map_post_def o by (simp add: len)
    from this [unfolded eff_def, rule_format, OF less_le_trans [OF x reg]]
    show "if ipa \<le> x \<and> x < ipa + sz
      then mapped_to ?p (pa + (x - ipa)) (translation_leaf s' x) \<or>
        q \<noteq> Ok () \<and> (translation_leaf s' x = translation_leaf s x \<or> translation_leaf s' x = None)
      else translation_leaf s' x = translation_leaf s x \<or>
        translation_leaf s' x = None \<and> split_block ipa sz x (translation_leaf s x)"
      unfolding tr .
  qed
  ultimately show ?thesis using regs by blast
qed

section \<open>Set-up\<close>

lemma parange_cases:
  obtains k where "k < 16" "mmfr0 AND ID_AA64MMFR0_EL1_PARANGE = word_of_nat k"
proof -
  have "mmfr0 AND ID_AA64MMFR0_EL1_PARANGE = take_bit 4 mmfr0"
    by (simp add: ID_AA64MMFR0_EL1_PARANGE_def take_bit_eq_mask mask_eq_exp_minus_1)
  moreover have "unat (take_bit 4 mmfr0) < 16" using take_bit_nat_less_exp [of 4 "unat mmfr0"] by (simp add: unsigned_take_bit_eq)
  ultimately show ?thesis using that [of "unat (take_bit 4 mmfr0)"] by (simp del: unsigned_take_bit_eq)
qed

text \<open>The control register that the code builds for a physical address range.\<close>

definition vtcr_value :: "u64 \<Rightarrow> u64" where
  "vtcr_value ps = (let (t0sz, level) = t0sz_and_level ps; sl0 = (if level = 1 then 0b01 else 0b10) in
     VTCR_EL2_RES1 OR push_bit VTCR_EL2_PS_BITS_OFFSET ps OR push_bit VTCR_EL2_TG0_BITS_OFFSET 0 OR
     push_bit VTCR_EL2_SH0_BITS_OFFSET 0b11 OR push_bit VTCR_EL2_ORGN0_BITS_OFFSET 0b11 OR
     push_bit VTCR_EL2_IRGN0_BITS_OFFSET 0b11 OR push_bit VTCR_EL2_SL0_BITS_OFFSET sl0 OR
     push_bit VTCR_EL2_T0SZ_BITS_OFFSET (word_of_nat t0sz))"

lemma vtcr_fields:
  assumes "k < 16" "vtcr_el2 s = vtcr_value (word_of_nat k)"
  shows "s2_t0sz s = fst (t0sz_and_level (word_of_nat k)) \<and>
    initial_level (s2_sl0 s) = Some (snd (t0sz_and_level (word_of_nat k))) \<and>
    fst (t0sz_and_level (word_of_nat k)) \<le> 32 \<and> 16 \<le> fst (t0sz_and_level (word_of_nat k))"
proof -
  have "k \<in> {0, 1, 2, 3, 4, 5, 6, 7, 8, 9, 10, 11, 12, 13, 14, 15}"
    using assms(1) by (auto simp: numeral_eq_Suc less_Suc_eq)
  then show ?thesis
    using assms(2)
    by (elim insertE emptyE; simp add: s2_t0sz_def s2_sl0_def vtcr_value_def t0sz_and_level_def vtcr_offsets
        VTCR_EL2_RES1_def VTCR_EL2_SL0_def VTCR_EL2_T0SZ_def initial_level_def)
qed

lemma vttbr_root:
  assumes "2 ^ 12 dvd a" "a < 2 ^ 47"
  shows "unat (word_of_nat a AND VTTBR_BADDR) = a"
proof (rule bit_eqI)
  fix n
  have m: "VTTBR_BADDR = mask 47 AND NOT 1" by (simp add: VTTBR_BADDR_def mask_eq_exp_minus_1)
  have "n < 47 \<and> 12 \<le> n" if "bit a n"
  proof -
    have "a = take_bit 47 a" using assms(2) by (simp add: take_bit_nat_eq_self)
    with that aligned_bit [OF assms(1)] show ?thesis by (metis bit_take_bit_iff)
  qed
  then show "bit (unat (word_of_nat a AND VTTBR_BADDR)) n = bit a n"
    unfolding m bit_nat_of_word by (auto simp: bit_simps)
qed

lemma alloc_unwrapE:
  assumes "do { (al, r) \<leftarrow> m; t \<leftarrow> (case r of Ok a \<Rightarrow> Some a | Err e \<Rightarrow> None); Some (f al t) } = Some y"
  obtains al a where "m = Some (al, Ok a)" "y = f al a"
  using assms by (cases m) (auto split: result.splits)

lemma init_stage2_ok:
  assumes inv: "ma_inv (st_alloc s)" and below: "free_set (st_alloc s) \<subseteq> {..<2 ^ 47}"
    and init: "init_stage2_translation_table s mmfr0 = Some s'"
  shows "\<exists>level. stage2_ok s' level \<and> 32 \<le> 64 - s2_t0sz s' \<and> (\<forall>x. translation_leaf s' x = None)"
proof -
  obtain k where k: "k < 16" "mmfr0 AND ID_AA64MMFR0_EL1_PARANGE = word_of_nat k" by (rule parange_cases)
  obtain t0 level where tl: "t0sz_and_level (word_of_nat k) = (t0, level)" by (cases "t0sz_and_level (word_of_nat k :: u64)")
  let ?N = "number_of_concatenated_page_tables t0 level"
  from init obtain al a where alloc: "allocate_pages (st_alloc s) ?N (12 + ?N - 1) = Some (al, Ok a)"
    and s': "s' = \<lparr>st_mem = init_table (st_mem s) a [0..<?N * 512], st_alloc = al,
      vtcr_el2 = vtcr_value (word_of_nat k), vttbr_el2 = word_of_nat a\<rparr>"
    unfolding init_stage2_translation_table_def k(2) Let_def vtcr_value_def
    by (simp only: tl prod.case) (erule alloc_unwrapE, blast)
  have f: "s2_t0sz s' = t0" "initial_level (s2_sl0 s') = Some level" "t0 \<le> 32" "16 \<le> t0"
    using vtcr_fields [OF k(1), of s'] tl by (simp_all add: s')
  have N: "0 < ?N" "?N \<le> 2 ^ 27"
  proof -
    show "0 < ?N" by (simp add: number_of_concatenated_page_tables_def)
    have "(2 :: nat) ^ (43 - (3 - level) * 9 - t0) \<le> 2 ^ 27" using f(4) by (intro power_increasing) auto
    then show "?N \<le> 2 ^ 27" by (simp add: number_of_concatenated_page_tables_def)
  qed
  have bytes: "pages_to_bytes ?N = ?N * 2 ^ 12"
    using N(2) by (simp add: pages_to_bytes_def PAGE_SHIFT_def usize_range_def)
  from ma.alloc_Ok [OF inv alloc [unfolded allocate_pages_eq bytes]]
  have al: "ma_inv al" "2 ^ (12 + ?N - 1) dvd a" "{a..<a + ?N * 2 ^ 12} \<subseteq> free_set (st_alloc s)"
    "free_set al = free_set (st_alloc s) - {a..<a + ?N * 2 ^ 12}" by simp_all
  have "a \<in> free_set (st_alloc s)" using al(3) N(1) by auto
  then have a: "a < 2 ^ 47" using below by auto
  have "12 \<le> 12 + ?N - 1" using N(1) by linarith
  then have "2 ^ 12 dvd a" using al(2) by (meson dvd_trans le_imp_power_dvd)
  then have root: "s2_root s' = a" using vttbr_root a by (simp add: s2_root_def s')
  have zero: "\<forall>j < ?N * 512. st_mem s' (a + 8 * j) = 0" by (auto simp: s' init_table_eq)
  note z = zero_table [OF zero]
  have tb: "table_bytes (?N * 512) a = {a..<a + ?N * 2 ^ 12}" by (simp add: mult.commute)
  have "tree_ok (3 - level) (?N * 512) a (st_mem s') al"
    unfolding tree_ok_def using al(1,4) z(1,2) N(1) below tb by (auto simp: subset_iff)
  then have "stage2_ok s' level" unfolding stage2_ok_def f(1) root using f by (simp add: s')
  moreover have "translation_leaf s' x = None" for x
    using z(3) N(1) by (simp add: leaf_eq [OF f(2)] f(1) root)
  moreover have "32 \<le> 64 - s2_t0sz s'" using f(1,3) by simp
  ultimately show ?thesis by blast
qed

section \<open>Properties\<close>

text \<open>What a mapping call leaves of the translation of one address, without the size of the leaf.\<close>

lemma eff_translate:
  assumes "eff ok p pa ipa sz (translation_leaf s) (translation_leaf s') S" "x < S"
  shows "if ipa \<le> x \<and> x < ipa + sz
    then translate s' x = Some (pa + (x - ipa), p) \<or> \<not> ok \<and> (translate s' x = translate s x \<or> translate s' x = None)
    else translate s' x = translate s x \<or> translate s' x = None \<and> split_block ipa sz x (translation_leaf s x)"
proof (cases "ipa \<le> x \<and> x < ipa + sz")
  case True
  then have "mapped_to p (pa + (x - ipa)) (translation_leaf s' x) \<or>
      \<not> ok \<and> (translation_leaf s' x = translation_leaf s x \<or> translation_leaf s' x = None)"
    using assms unfolding eff_def by (metis (no_types, lifting))
  then show ?thesis unfolding if_P [OF True]
    using translate_mapped [of p "pa + (x - ipa)" s' x] translate_cong [of s' x s] translate_None [of s' x] by metis
next
  case False
  then have "translation_leaf s' x = translation_leaf s x \<or>
      translation_leaf s' x = None \<and> split_block ipa sz x (translation_leaf s x)"
    using assms unfolding eff_def by (metis (no_types, lifting))
  then show ?thesis unfolding if_not_P [OF False]
    using translate_cong [of s' x s] translate_None [of s' x] by metis
qed

lemma translate_outside:
  assumes "stage2_ok s level" "2 ^ (64 - s2_t0sz s) \<le> x"
  shows "translate s x = None"
  using assms leaf_eq [of s level x] by (simp add: stage2_ok_def translate_None)

text \<open>C10: a call of \<open>map_address_stage2\<close> that returns success makes the hardware translate every
  address of the requested range to the corresponding physical address with exactly the
  requested permissions, keeps the tables a tree apart from the free memory, and leaves every other
  address translated as before, with one exception: an address that was translated by a block of
  more than a page which the range overlaps (\<open>split_block\<close>) may fault, because the code replaces
  such a block by an empty table.\<close>

theorem map_stage2_correct:
  assumes "stage2_ok s level" "2 ^ 12 dvd pa" "2 ^ 12 dvd ipa" "2 ^ 12 dvd sz" "0 < sz" "pa + sz \<le> 2 ^ 48"
    and "ipa + sz \<le> 2 ^ (64 - s2_t0sz s)"
    and "map_address_stage2 s pa ipa sz r w = Some (s', Ok ())"
  shows "stage2_ok s' level \<and> (\<forall>x.
    if ipa \<le> x \<and> x < ipa + sz then translate s' x = Some (pa + (x - ipa), access_permission r w)
    else translate s' x = translate s x \<or> translate s' x = None \<and> split_block ipa sz x (translation_leaf s x))"
proof -
  from map_stage2_eff [OF assms(1-3,5-8,4)] have ok: "stage2_ok s' level" "vtcr_el2 s' = vtcr_el2 s"
    and e: "eff True (access_permission r w) pa ipa sz (translation_leaf s) (translation_leaf s') (2 ^ (64 - s2_t0sz s))"
    by simp_all
  have "if ipa \<le> x \<and> x < ipa + sz then translate s' x = Some (pa + (x - ipa), access_permission r w)
    else translate s' x = translate s x \<or> translate s' x = None \<and> split_block ipa sz x (translation_leaf s x)" for x
  proof (cases "x < 2 ^ (64 - s2_t0sz s)")
    case True
    from eff_translate [OF e this] show ?thesis by (simp only: simp_thms)
  next
    case False
    then have "translate s x = None" "translate s' x = None"
      using translate_outside [OF assms(1)] translate_outside [OF ok(1)] ok(2) by (simp_all add: s2_t0sz_def)
    with False assms(7) show ?thesis by simp
  qed
  with ok(1) show ?thesis by blast
qed

text \<open>C11: a mapping call that fails for lack of memory does not open anything else to the guest:
  outside the range no address becomes accessible, inside it an address is translated as
  requested, as before, or not at all.\<close>

theorem map_stage2_failure_safe:
  assumes "stage2_ok s level" "2 ^ 12 dvd pa" "2 ^ 12 dvd ipa" "2 ^ 12 dvd sz" "0 < sz" "pa + sz \<le> 2 ^ 48"
    and "ipa + sz \<le> 2 ^ (64 - s2_t0sz s)"
    and "map_address_stage2 s pa ipa sz r w = Some (s', Err ())" "x < 2 ^ (64 - s2_t0sz s)"
  shows "stage2_ok s' level \<and> (translate s' x = translate s x \<or> translate s' x = None \<or>
    ipa \<le> x \<and> x < ipa + sz \<and> translate s' x = Some (pa + (x - ipa), access_permission r w))"
proof -
  from map_stage2_eff [OF assms(1-3,5-8,4)] have "stage2_ok s' level"
    and e: "eff False (access_permission r w) pa ipa sz (translation_leaf s) (translation_leaf s') (2 ^ (64 - s2_t0sz s))"
    by simp_all
  moreover from eff_translate [OF e assms(9)] have "translate s' x = translate s x \<or> translate s' x = None \<or>
    ipa \<le> x \<and> x < ipa + sz \<and> translate s' x = Some (pa + (x - ipa), access_permission r w)"
    by (cases "ipa \<le> x \<and> x < ipa + sz") auto
  ultimately show ?thesis by blast
qed

lemma address_space_exact:
  assumes "ma_inv (st_alloc s)" "free_set (st_alloc s) \<subseteq> {..<2 ^ 47}"
    and "init_stage2_translation_table s mmfr0 = Some s1"
    and "2 ^ 12 dvd pa" "2 ^ 12 dvd ipa" "2 ^ 12 dvd sz" "0 < sz" "pa + sz \<le> 2 ^ 48" "ipa + sz \<le> 2 ^ 32"
    and "map_address_stage2 s1 pa ipa sz r w = Some (s', Ok ())"
  shows "translate s' x =
    (if ipa \<le> x \<and> x < ipa + sz then Some (pa + (x - ipa), access_permission r w) else None)"
proof -
  from init_stage2_ok [OF assms(1-3)] obtain level where s1: "stage2_ok s1 level" "32 \<le> 64 - s2_t0sz s1"
    "\<And>x. translation_leaf s1 x = None" by blast
  have "(2 :: nat) ^ 32 \<le> 2 ^ (64 - s2_t0sz s1)" by (rule power_increasing [OF s1(2)]) simp
  with assms(9) have "ipa + sz \<le> 2 ^ (64 - s2_t0sz s1)" by (rule le_trans)
  with map_stage2_eff [OF s1(1) assms(4,5,7,8) _ assms(10,6)] have
    e: "eff True (access_permission r w) pa ipa sz (translation_leaf s1) (translation_leaf s') (2 ^ (64 - s2_t0sz s1))"
    and ok: "stage2_ok s' level" "vtcr_el2 s' = vtcr_el2 s1" by simp_all
  show ?thesis
  proof (cases "x < 2 ^ (64 - s2_t0sz s1)")
    case True
    from eff_translate [OF e True] translate_None [OF s1(3)] show ?thesis
      by (cases "ipa \<le> x \<and> x < ipa + sz") auto
  next
    case False
    then have "translate s' x = None"
      using translate_outside [OF ok(1)] ok(2) by (simp add: s2_t0sz_def)
    with False \<open>ipa + sz \<le> 2 ^ (64 - s2_t0sz s1)\<close> show ?thesis by simp
  qed
qed

text \<open>C12: the address space of a new virtual machine is exactly its memory: after the tables are set
  up and the memory is mapped, the guest's addresses in the mapped range go to its physical
  memory and every other guest address faults.\<close>

theorem vm_address_space_exact:
  assumes "ma_inv (st_alloc s)" "free_set (st_alloc s) \<subseteq> {..<2 ^ 47}"
    and "init_stage2_translation_table s mmfr0 = Some s1"
    and "2 ^ 12 dvd pa" "2 ^ 12 dvd ipa" "2 ^ 12 dvd sz" "0 < sz" "pa + sz \<le> 2 ^ 48" "ipa + sz \<le> 2 ^ 32"
    and "map_address_stage2 s1 pa ipa sz r w = Some (s', Ok ())"
  shows "translate s' x =
    (if ipa \<le> x \<and> x < ipa + sz then Some (pa + (x - ipa), access_permission r w) else None)"
  using assms by (rule address_space_exact)

section \<open>Witnesses\<close>

text \<open>A CPU with 40-bit physical addresses, 256 MiB of memory for tables and one gigabyte to map.\<close>

definition boot_stage2 :: stage2 where
  "boot_stage2 = \<lparr>st_mem = (\<lambda>a. 0), st_alloc = ram_allocator, vtcr_el2 = 0, vttbr_el2 = 0\<rparr>"

lemma ram_tables: "map_option snd (allocate ram_allocator 0x2000 13) = Some (Ok 0x40000000)"
  by code_simp

lemma boot_init:
  obtains s where "init_stage2_translation_table boot_stage2 2 = Some s" "s2_t0sz s = 24"
    "initial_level (s2_sl0 s) = Some 1" "s2_root s = 0x40000000" "stage2_ok s 1"
    "allocate_pages ram_allocator 2 13 = Some (st_alloc s, Ok 0x40000000)"
proof -
  obtain al where al: "allocate ram_allocator 0x2000 13 = Some (al, Ok 0x40000000)" using ram_tables by auto
  have alp: "allocate_pages ram_allocator 2 13 = Some (al, Ok 0x40000000)"
    using al by (simp add: allocate_pages_eq pages_to_bytes_def PAGE_SHIFT_def usize_range_def)
  then obtain s where i: "init_stage2_translation_table boot_stage2 2 = Some s"
    and s: "vtcr_el2 s = vtcr_value 2" "vttbr_el2 s = 0x40000000" "st_alloc s = al"
    by (simp add: init_stage2_translation_table_def boot_stage2_def ID_AA64MMFR0_EL1_PARANGE_def t0sz_and_level_def
        number_of_concatenated_page_tables_def vtcr_value_def)
  have f: "s2_t0sz s = 24" "initial_level (s2_sl0 s) = Some 1"
    using vtcr_fields [of 2 s] s(1) by (simp_all add: t0sz_and_level_def)
  moreover have "s2_root s = 0x40000000" using vttbr_root [of "0x40000000"] by (simp add: s2_root_def s(2))
  moreover have "ma_inv (st_alloc boot_stage2)" "free_set (st_alloc boot_stage2) \<subseteq> {..<2 ^ 47}"
    using ram by (auto simp: boot_stage2_def)
  with init_stage2_ok [OF _ _ i] f(2) have "stage2_ok s 1" by (auto simp: stage2_ok_def)
  ultimately show ?thesis using that i alp s(3) by blast
qed

text \<open>One gigabyte at an aligned address is mapped by a single block.\<close>

lemma boot_map:
  assumes "s2_t0sz s = 24" "initial_level (s2_sl0 s) = Some 1" "s2_root s = 0x40000000"
  obtains s' where "map_address_stage2 s 0x80000000 0x40000000 0x40000000 True True = Some (s', Ok ())"
proof -
  let ?c = "\<lparr>cu_pa = 0x80000000, cu_ipa = 0x40000000, cu_rem = 0x40000000\<rparr>" and ?p = "access_permission True True"
  have sz: "0x40000000 mod 2 ^ 12 = (0::nat)" by simp
  have three: "(3::nat) - 1 = Suc 1" by simp
  have n: "number_of_concatenated_page_tables 24 1 * 512 = 1024" by (simp add: number_of_concatenated_page_tables_def)
  have i: "first_index (Suc 1) ?c 1024 = 1"
    using first_index_eq [of 1024 10 "Suc 1" ?c] by (simp add: level_shift_def region_def)
  obtain ys where u: "[1..<1024] = 1 # ys" using upt_conv_Cons [of 1 1024] by auto
  have "\<exists>m' c'. map_level (Suc 1) ?p 1024 (st_mem s) (st_alloc s) ?c 0x40000000 = Some ((m', st_alloc s, c'), Ok ())"
    unfolding map_level.simps i u
    by (simp add: level_shift_def cursor_advance_def uadd_def usub_def usize_range_def)
  then obtain m' c' where l: "map_level (3 - 1) ?p 1024 (st_mem s) (st_alloc s) ?c 0x40000000 =
    Some ((m', st_alloc s, c'), Ok ())"
    unfolding three by blast
  have "map_address_stage2 s 0x80000000 0x40000000 0x40000000 True True =
    Some (s\<lparr>st_mem := m', st_alloc := st_alloc s\<rparr>, Ok ())"
    unfolding map_address_eq [OF sz assms(2)] assms(1,3) n l by simp
  then show ?thesis by (rule that)
qed

theorem map_stage2_correct_witness:
  "\<exists>s s'. map_address_stage2 s 0x80000000 0x40000000 0x40000000 True True = Some (s', Ok ()) \<and>
     translate s' 0x40123456 = Some (0x80123456, 3)"
proof -
  obtain s where s: "s2_t0sz s = 24" "initial_level (s2_sl0 s) = Some 1" "s2_root s = 0x40000000" "stage2_ok s 1"
    by (rule boot_init)
  obtain s' where m: "map_address_stage2 s 0x80000000 0x40000000 0x40000000 True True = Some (s', Ok ())"
    by (rule boot_map [OF s(1-3)])
  have "translate s' 0x40123456 = Some (0x80123456, access_permission True True)"
    using map_stage2_correct [OF s(4) _ _ _ _ _ _ m, THEN conjunct2, THEN spec, of "0x40123456"] by (simp add: s(1))
  with m show ?thesis by (auto simp: access_permission_def)
qed

theorem vm_address_space_exact_witness:
  "\<exists>s1 s'. init_stage2_translation_table boot_stage2 2 = Some s1 \<and>
     map_address_stage2 s1 0x80000000 0x40000000 0x40000000 True True = Some (s', Ok ()) \<and>
     translate s' 0x7FFFFFFF = Some (0xBFFFFFFF, 3) \<and> translate s' 0x80000000 = None \<and> translate s' 0x3FFFFFFF = None"
proof -
  obtain s where i: "init_stage2_translation_table boot_stage2 2 = Some s"
    and s: "s2_t0sz s = 24" "initial_level (s2_sl0 s) = Some 1" "s2_root s = 0x40000000" by (rule boot_init)
  obtain s' where m: "map_address_stage2 s 0x80000000 0x40000000 0x40000000 True True = Some (s', Ok ())"
    by (rule boot_map [OF s])
  have "ma_inv (st_alloc boot_stage2)" "free_set (st_alloc boot_stage2) \<subseteq> {..<2 ^ 47}"
    using ram by (auto simp: boot_stage2_def)
  note t = vm_address_space_exact [OF this i _ _ _ _ _ _ m]
  show ?thesis
    using i m t [of "0x7FFFFFFF"] t [of "0x80000000"] t [of "0x3FFFFFFF"] by (auto simp: access_permission_def)
qed

text \<open>An allocator without memory: the first table below the root cannot be made.\<close>

definition empty_stage2 :: stage2 where
  "empty_stage2 = \<lparr>st_mem = (\<lambda>a. 0), st_alloc = memory_allocator_new, vtcr_el2 = vtcr_value 2, vttbr_el2 = 0x40000000\<rparr>"

lemma no_memory: "map_option snd (allocate memory_allocator_new 0x1000 12) = Some (Err NoMemory)"
  by code_simp

lemma empty_fields:
  "s2_t0sz empty_stage2 = 24" "initial_level (s2_sl0 empty_stage2) = Some 1" "s2_root empty_stage2 = 0x40000000"
  using vtcr_fields [of 2 empty_stage2] vttbr_root [of "0x40000000"]
  by (simp_all add: empty_stage2_def t0sz_and_level_def s2_root_def)

lemma empty_stage2_ok: "stage2_ok empty_stage2 1"
proof -
  have n: "number_of_concatenated_page_tables 24 1 * 512 = 1024" by (simp add: number_of_concatenated_page_tables_def)
  have "\<forall>j < (1024 :: nat). st_mem empty_stage2 (0x40000000 + 8 * j) = 0" by (simp add: empty_stage2_def)
  note z = zero_table [OF this]
  have "ma_inv (st_alloc empty_stage2)" "free_set (st_alloc empty_stage2) = {}"
    using ma_inv_new by (simp_all add: empty_stage2_def)
  then have "tree_ok (3 - 1) 1024 0x40000000 (st_mem empty_stage2) (st_alloc empty_stage2)"
    unfolding tree_ok_def using z(2) by simp
  then show ?thesis unfolding stage2_ok_def empty_fields n by (simp add: empty_fields)
qed

lemma empty_map:
  "\<exists>s'. map_address_stage2 empty_stage2 0x40000000 0 0x1000 True True = Some (s', Err ())"
proof -
  let ?c = "\<lparr>cu_pa = 0x40000000, cu_ipa = 0, cu_rem = 0x1000\<rparr>" and ?p = "access_permission True True"
  let ?s = empty_stage2
  have sz: "0x1000 mod 2 ^ 12 = (0::nat)" by simp
  have n: "number_of_concatenated_page_tables 24 1 * 512 = 1024" by (simp add: number_of_concatenated_page_tables_def)
  have i: "first_index (Suc 1) ?c 1024 = 0" by (simp add: first_index_def)
  obtain ys where u: "[0..<1024] = 0 # ys" using upt_conv_Cons [of 0 1024] by auto
  obtain al where a: "allocate memory_allocator_new 0x1000 12 = Some (al, Err NoMemory)" using no_memory by auto
  then have "allocate_pages memory_allocator_new 1 12 = Some (al, Err NoMemory)"
    by (simp add: allocate_pages_eq pages_to_bytes_def PAGE_SHIFT_def usize_range_def)
  then have nt: "next_table (0x40000000 + 8 * 0) (st_mem ?s) (st_alloc ?s) = Some (st_mem ?s, al, Err ())"
    by (simp add: next_table_def empty_stage2_def is_table_descriptor_def)
  have "map_level (Suc 1) ?p 1024 (st_mem ?s) (st_alloc ?s) ?c 0x40000000 = Some ((st_mem ?s, al, ?c), Err ())"
    unfolding map_level.simps i u map_entries.simps Let_def nt by (simp add: level_shift_def)
  moreover have "Suc 1 = 3 - 1" by simp
  ultimately have "map_level (3 - 1) ?p 1024 (st_mem ?s) (st_alloc ?s) ?c 0x40000000 = Some ((st_mem ?s, al, ?c), Err ())"
    by (simp only:)
  then have "map_address_stage2 ?s 0x40000000 0 0x1000 True True = Some (?s\<lparr>st_mem := st_mem ?s, st_alloc := al\<rparr>, Err ())"
    unfolding map_address_eq [OF sz empty_fields(2)] empty_fields(1,3) n by simp
  then show ?thesis by blast
qed

theorem map_stage2_failure_safe_witness:
  "\<exists>s'. map_address_stage2 empty_stage2 0x40000000 0 0x1000 True True = Some (s', Err ()) \<and> translate s' 0x2000 = None"
proof -
  obtain s' where m: "map_address_stage2 empty_stage2 0x40000000 0 0x1000 True True = Some (s', Err ())"
    using empty_map by blast
  have "translate empty_stage2 0x2000 = None"
    unfolding translate_def leaf_eq [OF empty_fields(2)] empty_fields(1,3)
    by (simp add: zero_table(3) empty_stage2_def number_of_concatenated_page_tables_def del: walk.simps)
  with m map_stage2_failure_safe [OF empty_stage2_ok _ _ _ _ _ _ m, of "0x2000"] show ?thesis
    by (auto simp: empty_fields)
qed

end
