(* ===== verification/Byte_Mem.thy ===== *)
theory Byte_Mem
  imports Prelude
begin

text \<open>
  Memory as bytes, for the components that read and write structures through raw pointers:
  little-endian loads and stores of a given number of bytes, and copies of ranges. An address is
  a natural number. The checks that debug assertions add to the alignment of raw pointers
  are not modelled: an unaligned access behaves as the processor's does.
\<close>

type_synonym byte_mem = "usize \<Rightarrow> u8"

primrec load_le :: "byte_mem \<Rightarrow> usize \<Rightarrow> nat \<Rightarrow> nat" where
  "load_le m a 0 = 0"
| "load_le m a (Suc n) = unat (m a) + 256 * load_le m (Suc a) n"

primrec store_le :: "byte_mem \<Rightarrow> usize \<Rightarrow> nat \<Rightarrow> nat \<Rightarrow> byte_mem" where
  "store_le m a 0 v = m"
| "store_le m a (Suc n) v = store_le (m(a := word_of_nat v)) (Suc a) n (v div 256)"

definition load16 :: "byte_mem \<Rightarrow> usize \<Rightarrow> u16" where
  "load16 m a = word_of_nat (load_le m a 2)"

definition load32 :: "byte_mem \<Rightarrow> usize \<Rightarrow> u32" where
  "load32 m a = word_of_nat (load_le m a 4)"

definition load64 :: "byte_mem \<Rightarrow> usize \<Rightarrow> u64" where
  "load64 m a = word_of_nat (load_le m a 8)"

definition store16 :: "byte_mem \<Rightarrow> usize \<Rightarrow> u16 \<Rightarrow> byte_mem" where
  "store16 m a v = store_le m a 2 (unat v)"

definition store32 :: "byte_mem \<Rightarrow> usize \<Rightarrow> u32 \<Rightarrow> byte_mem" where
  "store32 m a v = store_le m a 4 (unat v)"

definition store64 :: "byte_mem \<Rightarrow> usize \<Rightarrow> u64 \<Rightarrow> byte_mem" where
  "store64 m a v = store_le m a 8 (unat v)"

text \<open>\<open>core::ptr::copy_nonoverlapping\<close> and \<open>core::ptr::write_bytes\<close>.\<close>

definition copy_bytes :: "byte_mem \<Rightarrow> usize \<Rightarrow> usize \<Rightarrow> nat \<Rightarrow> byte_mem" where
  "copy_bytes m from to n = (\<lambda>a. if to \<le> a \<and> a < to + n then m (from + (a - to)) else m a)"

definition fill_bytes :: "byte_mem \<Rightarrow> usize \<Rightarrow> u8 \<Rightarrow> nat \<Rightarrow> byte_mem" where
  "fill_bytes m to v n = (\<lambda>a. if to \<le> a \<and> a < to + n then v else m a)"

definition load_bytes :: "byte_mem \<Rightarrow> usize \<Rightarrow> nat \<Rightarrow> u8 list" where
  "load_bytes m a n = map m [a..<a + n]"

section \<open>Loads after stores\<close>

lemma store_le_frame: "b < a \<or> a + n \<le> b \<Longrightarrow> store_le m a n v b = m b"
  by (induction n arbitrary: m a v) auto

lemma load_le_cong: "(\<And>i. i < n \<Longrightarrow> m (a + i) = m' (a + i)) \<Longrightarrow> load_le m a n = load_le m' a n"
proof (induction n arbitrary: a)
  case (Suc n)
  have "m (Suc a + i) = m' (Suc a + i)" if "i < n" for i using Suc.prems [of "Suc i"] that by simp
  then have "load_le m (Suc a) n = load_le m' (Suc a) n" by (rule Suc.IH)
  moreover have "m a = m' a" using Suc.prems [of 0] by simp
  ultimately show ?case by simp
qed simp

lemma load_le_less: "load_le m a n < 256 ^ n"
proof (induction n arbitrary: a)
  case (Suc n)
  have "unat (m a) < 256" using unsigned_less [where ?'a = nat and w = "m a"] by simp
  with Suc.IH [of "Suc a"] show ?case by simp
qed simp

lemma load_store_same: "load_le (store_le m a n v) a n = v mod 256 ^ n"
proof (induction n arbitrary: m a v)
  case (Suc n)
  have "store_le m a (Suc n) v a = word_of_nat v" by (simp add: store_le_frame)
  then have "unat (store_le m a (Suc n) v a) = v mod 256" by (simp add: unsigned_of_nat take_bit_eq_mod)
  moreover have "load_le (store_le m a (Suc n) v) (Suc a) n = v div 256 mod 256 ^ n" using Suc.IH by simp
  ultimately show ?case by (simp only: load_le.simps power_Suc mod_mult2_eq)
qed (simp add: mod_eq_0_iff_dvd)

lemma load_store_other:
  assumes "a + n \<le> b \<or> b + k \<le> a"
  shows "load_le (store_le m b k v) a n = load_le m a n"
  using assms by (intro load_le_cong store_le_frame) auto

named_theorems mem_simps \<open>loads after stores\<close>

lemma unat_mod_words [simp]:
  "unat (v :: u16) mod 256 ^ 2 = unat v" "unat (w :: u32) mod 256 ^ 4 = unat w" "unat (x :: u64) mod 256 ^ 8 = unat x"
  using unsigned_less [where ?'a = nat and w = v] unsigned_less [where ?'a = nat and w = w] unsigned_less [where ?'a = nat and w = x] by simp_all

lemma load_store_words [mem_simps]:
  "load16 (store16 m a v) a = v" "load32 (store32 m a w) a = w" "load64 (store64 m a x) a = x"
  by (simp_all only: load16_def store16_def load32_def store32_def load64_def store64_def load_store_same
      unat_mod_words of_nat_unat ucast_id)

lemma store_frame:
  "b < a \<or> a + 2 \<le> b \<Longrightarrow> store16 m a v b = m b"
  "b < a \<or> a + 4 \<le> b \<Longrightarrow> store32 m a w b = m b"
  "b < a \<or> a + 8 \<le> b \<Longrightarrow> store64 m a x b = m b"
  by (simp_all only: store16_def store32_def store64_def store_le_frame)

lemma load_cong:
  "(\<And>i. i < 2 \<Longrightarrow> m (a + i) = m' (a + i)) \<Longrightarrow> load16 m a = load16 m' a"
  "(\<And>i. i < 4 \<Longrightarrow> m (a + i) = m' (a + i)) \<Longrightarrow> load32 m a = load32 m' a"
  "(\<And>i. i < 8 \<Longrightarrow> m (a + i) = m' (a + i)) \<Longrightarrow> load64 m a = load64 m' a"
  unfolding load16_def load32_def load64_def by (rule arg_cong [OF load_le_cong], simp)+

end
