(* ===== verification/Machine.thy ===== *)
theory Machine
  imports Byte_Mem Page_Alloc
begin

text \<open>
  The surroundings of the drivers: physical memory, the page allocator, the state of the
  hardware devices, and the block device driver's own state. Hardware is a parameter \<open>hw\<close>:
  what a register read returns and does, what a register write does to the device and, by DMA,
  to memory, what the device does on its own while the code polls, and what the firmware
  does on an \<open>smc\<close> instruction. Registers are
  accessed with \<open>read_volatile\<close> and \<open>write_volatile\<close> at an address with a width in bytes. \<open>hw\<close>
  also holds the addresses that the compiler chooses for the two locals of
  \<open>operation_sync\<close> that a device accesses.
\<close>

record 'h hw =
  hw_read :: "'h \<Rightarrow> nat \<Rightarrow> usize \<Rightarrow> 'h \<times> u64"
  hw_write :: "'h \<Rightarrow> byte_mem \<Rightarrow> nat \<Rightarrow> usize \<Rightarrow> u64 \<Rightarrow> 'h \<times> byte_mem"
  hw_step :: "'h \<times> byte_mem \<Rightarrow> 'h \<times> byte_mem"
  hw_smc :: "'h \<Rightarrow> u64 \<Rightarrow> u64 \<Rightarrow> u64 \<Rightarrow> u64 \<Rightarrow> 'h \<times> u64"
  req_address :: usize
  status_address :: usize

record virtio_blk =
  blk_base_address :: usize
  blk_descriptors :: usize
  blk_avail :: usize
  blk_used :: usize
  free_bitmap :: "u8 list"

record 'h machine =
  mc_mem :: byte_mem
  mc_dev :: 'h
  mc_alloc :: memory_allocator
  mc_blk :: virtio_blk

text \<open>A volatile access to a device register at \<open>base + offset\<close>; the address is a checked addition.\<close>

definition volatile_read :: "'h hw \<Rightarrow> 'h machine \<Rightarrow> nat \<Rightarrow> usize \<Rightarrow> usize \<Rightarrow> ('h machine \<times> u64) option" where
  "volatile_read hw mc width base off = do {
     a \<leftarrow> uadd base off;
     let (h, v) = hw_read hw (mc_dev mc) width a;
     ret (mc\<lparr>mc_dev := h\<rparr>, v) }"

definition volatile_write :: "'h hw \<Rightarrow> 'h machine \<Rightarrow> nat \<Rightarrow> usize \<Rightarrow> usize \<Rightarrow> u64 \<Rightarrow> 'h machine option" where
  "volatile_write hw mc width base off v = do {
     a \<leftarrow> uadd base off;
     let (h, m) = hw_write hw (mc_dev mc) (mc_mem mc) width a v;
     ret (mc\<lparr>mc_dev := h, mc_mem := m\<rparr>) }"

end
