(* ===== verification/Virtio_Driver.thy ===== *)
theory Virtio_Driver
  imports Machine
begin

text \<open>
  The driver of the physical block device (\<open>src/src/drivers/virtio_blk.rs\<close>) with the structures
  of \<open>src/src/drivers/virtio.rs\<close>. The device itself is hardware, the parameter \<open>hw\<close>.
\<close>

section \<open>Registers and structures\<close>

definition VIRTIO_MMIO_MAGIC :: usize where "VIRTIO_MMIO_MAGIC = 0x000"
definition VIRTIO_MMIO_MAGIC_VALUE :: u32 where "VIRTIO_MMIO_MAGIC_VALUE = 0x74726976"
definition VIRTIO_MMIO_VERSION :: usize where "VIRTIO_MMIO_VERSION = 0x04"
definition VIRTIO_MMIO_DEVICE_ID :: usize where "VIRTIO_MMIO_DEVICE_ID = 0x008"
definition VIRTIO_MMIO_VENDOR_ID :: usize where "VIRTIO_MMIO_VENDOR_ID = 0x00c"
definition VIRTIO_MMIO_DEVICE_FEATURES :: usize where "VIRTIO_MMIO_DEVICE_FEATURES = 0x010"
definition VIRTIO_MMIO_DRIVER_FEATURES :: usize where "VIRTIO_MMIO_DRIVER_FEATURES = 0x020"
definition VIRTIO_MMIO_GUEST_PAGE_SIZE :: usize where "VIRTIO_MMIO_GUEST_PAGE_SIZE = 0x028"
definition VIRTIO_MMIO_QUEUE_SEL :: usize where "VIRTIO_MMIO_QUEUE_SEL = 0x030"
definition VIRTIO_MMIO_QUEUE_NUM_MAX :: usize where "VIRTIO_MMIO_QUEUE_NUM_MAX = 0x034"
definition VIRTIO_MMIO_QUEUE_NUM :: usize where "VIRTIO_MMIO_QUEUE_NUM = 0x038"
definition VIRTIO_MMIO_QUEUE_PFN :: usize where "VIRTIO_MMIO_QUEUE_PFN = 0x040"
definition VIRTIO_MMIO_QUEUE_READY :: usize where "VIRTIO_MMIO_QUEUE_READY = 0x044"
definition VIRTIO_MMIO_QUEUE_NOTIFY :: usize where "VIRTIO_MMIO_QUEUE_NOTIFY = 0x050"
definition VIRTIO_MMIO_INTERRUPT_STATUS :: usize where "VIRTIO_MMIO_INTERRUPT_STATUS = 0x060"
definition VIRTIO_MMIO_INTERRUPT_ACK :: usize where "VIRTIO_MMIO_INTERRUPT_ACK = 0x064"
definition VIRTIO_MMIO_STATUS :: usize where "VIRTIO_MMIO_STATUS = 0x070"
definition VIRTIO_CONFIG_OFFSET :: usize where "VIRTIO_CONFIG_OFFSET = 0x100"
definition VIRTIO_DEVICE_STATUS_ACKNOWLEDGE :: u32 where "VIRTIO_DEVICE_STATUS_ACKNOWLEDGE = 1"
definition VIRTIO_DEVICE_STATUS_DRIVER :: u32 where "VIRTIO_DEVICE_STATUS_DRIVER = 2"
definition VIRTIO_DEVICE_STATUS_DRIVER_OK :: u32 where "VIRTIO_DEVICE_STATUS_DRIVER_OK = 4"
definition VIRTIO_DEVICE_STATUS_FEATURES_OK :: u32 where "VIRTIO_DEVICE_STATUS_FEATURES_OK = 8"
definition VIRT_QUEUE_DESC_FLAGS_NEXT :: u16 where "VIRT_QUEUE_DESC_FLAGS_NEXT = 1"
definition VIRT_QUEUE_DESC_FLAGS_WRITE :: u16 where "VIRT_QUEUE_DESC_FLAGS_WRITE = push_bit 1 1"
definition NUMBER_OF_DESCRIPTORS :: usize where "NUMBER_OF_DESCRIPTORS = 64"
definition VIRTIO_PAGE_SHIFT :: usize where "VIRTIO_PAGE_SHIFT = 12"
definition VIRTIO_PAGE_SIZE :: usize where "VIRTIO_PAGE_SIZE = 2 ^ VIRTIO_PAGE_SHIFT"
definition VIRTIO_BLK_TYPE_IN :: u32 where "VIRTIO_BLK_TYPE_IN = 0"
definition VIRTIO_BLK_TYPE_OUT :: u32 where "VIRTIO_BLK_TYPE_OUT = 1"
definition VIRTIO_BLK_S_OK :: u8 where "VIRTIO_BLK_S_OK = 0"
definition VIRTIO_BLK_S_IOERR :: u8 where "VIRTIO_BLK_S_IOERR = 1"
definition VIRTIO_BLK_F_RO :: u32 where "VIRTIO_BLK_F_RO = push_bit 5 1"

text \<open>
  The \<open>repr(C)\<close> structures: a descriptor of 16 bytes, the available ring (flags, index,
  64 entries of two bytes, an event field) and the used ring (flags, index, 64
  elements of eight bytes, an event field, padded to four bytes).
\<close>

record virt_queue_desc =
  desc_address :: u64
  desc_length :: u32
  desc_flags :: u16
  desc_next :: u16

definition load_desc :: "byte_mem \<Rightarrow> usize \<Rightarrow> virt_queue_desc" where
  "load_desc m a = \<lparr>desc_address = load64 m a, desc_length = load32 m (a + 8), desc_flags = load16 m (a + 12),
     desc_next = load16 m (a + 14)\<rparr>"

record virtio_blk_req =
  req_type :: u32
  req_sector :: u64

definition load_blk_req :: "byte_mem \<Rightarrow> usize \<Rightarrow> virtio_blk_req" where
  "load_blk_req m a = \<lparr>req_type = load32 m a, req_sector = load64 m (a + 8)\<rparr>"

definition size_of_desc :: usize where "size_of_desc = 16"
definition size_of_avail :: usize where "size_of_avail = 2 + 2 + 2 * NUMBER_OF_DESCRIPTORS + 2"
definition size_of_used :: usize where "size_of_used = 2 + 2 + 8 * NUMBER_OF_DESCRIPTORS + 4"
definition size_of_blk_req :: usize where "size_of_blk_req = 16"

definition NUMBER_OF_PAGES_QUEUE :: usize where
  "NUMBER_OF_PAGES_QUEUE =
     ((size_of_desc * NUMBER_OF_DESCRIPTORS + size_of_avail) div 2 ^ VIRTIO_PAGE_SHIFT + 1) +
     (size_of_used div 2 ^ VIRTIO_PAGE_SHIFT + 1)"

section \<open>The driver and its surroundings\<close>

definition virtio_blk_invalid :: virtio_blk where
  "virtio_blk_invalid = \<lparr>blk_base_address = 0, blk_descriptors = 0, blk_avail = 0, blk_used = 0,
     free_bitmap = replicate (NUMBER_OF_DESCRIPTORS div 8) 0\<rparr>"

definition read_register :: "'h hw \<Rightarrow> 'h machine \<Rightarrow> usize \<Rightarrow> usize \<Rightarrow> ('h machine \<times> u32) option" where
  "read_register hw mc base off = do { (mc, v) \<leftarrow> volatile_read hw mc 4 base off; ret (mc, ucast v) }"

definition write_register :: "'h hw \<Rightarrow> 'h machine \<Rightarrow> usize \<Rightarrow> usize \<Rightarrow> u32 \<Rightarrow> 'h machine option" where
  "write_register hw mc base off data = volatile_write hw mc 4 base off (ucast data)"

text \<open>\<open>write_register(STATUS, read_register(STATUS) | bit)\<close>.\<close>

definition add_status :: "'h hw \<Rightarrow> 'h machine \<Rightarrow> usize \<Rightarrow> u32 \<Rightarrow> 'h machine option" where
  "add_status hw mc base b = do {
     (mc, s) \<leftarrow> read_register hw mc base VIRTIO_MMIO_STATUS;
     write_register hw mc base VIRTIO_MMIO_STATUS (s OR b) }"

definition setup_queue :: "'h hw \<Rightarrow> 'h machine \<Rightarrow> usize \<Rightarrow> ('h machine \<times> (virtio_blk, unit) result) option" where
  "setup_queue hw mc base_address = do {
     mc \<leftarrow> write_register hw mc base_address VIRTIO_MMIO_GUEST_PAGE_SIZE (word_of_nat VIRTIO_PAGE_SIZE);
     mc \<leftarrow> write_register hw mc base_address VIRTIO_MMIO_QUEUE_SEL 0;
     (mc, queue_max) \<leftarrow> read_register hw mc base_address VIRTIO_MMIO_QUEUE_NUM_MAX;
     if unat queue_max < NUMBER_OF_DESCRIPTORS then ret (mc, Err ())
     else do {
       mc \<leftarrow> write_register hw mc base_address VIRTIO_MMIO_QUEUE_NUM (word_of_nat NUMBER_OF_DESCRIPTORS);
       (al, r) \<leftarrow> allocate_pages (mc_alloc mc) NUMBER_OF_PAGES_QUEUE VIRTIO_PAGE_SHIFT;
       queue \<leftarrow> (case r of Ok a \<Rightarrow> ret a | Err e \<Rightarrow> panic);
       let mc = mc\<lparr>mc_alloc := al,
         mc_mem := fill_bytes (mc_mem mc) queue 0 (NUMBER_OF_PAGES_QUEUE * 2 ^ VIRTIO_PAGE_SHIFT)\<rparr>;
       mc \<leftarrow> write_register hw mc base_address VIRTIO_MMIO_QUEUE_PFN (word_of_nat (queue div 2 ^ VIRTIO_PAGE_SHIFT));
       mc \<leftarrow> add_status hw mc base_address VIRTIO_DEVICE_STATUS_DRIVER_OK;
       available_ring \<leftarrow> uadd queue (size_of_desc * NUMBER_OF_DESCRIPTORS);
       t \<leftarrow> uadd available_ring size_of_avail;
       t \<leftarrow> usub t 1;
       used_ring \<leftarrow> uadd (uand_not t VIRTIO_PAGE_SIZE) VIRTIO_PAGE_SIZE;
       ret (mc, Ok \<lparr>blk_base_address = base_address, blk_descriptors = queue, blk_avail = available_ring,
         blk_used = used_ring, free_bitmap = replicate (NUMBER_OF_DESCRIPTORS div 8) (- 1)\<rparr>) } }"

definition virtio_blk_new :: "'h hw \<Rightarrow> 'h machine \<Rightarrow> usize \<Rightarrow> ('h machine \<times> (virtio_blk, unit) result) option" where
  "virtio_blk_new hw mc base_address = do {
     (mc, magic) \<leftarrow> read_register hw mc base_address VIRTIO_MMIO_MAGIC;
     if magic \<noteq> VIRTIO_MMIO_MAGIC_VALUE then ret (mc, Err ())
     else do {
       (mc, version) \<leftarrow> read_register hw mc base_address VIRTIO_MMIO_VERSION;
       if version \<noteq> 1 then ret (mc, Err ())
       else do {
         (mc, device) \<leftarrow> read_register hw mc base_address VIRTIO_MMIO_DEVICE_ID;
         (mc, bad) \<leftarrow> (if device \<noteq> 2 then ret (mc, True) else do {
           (mc, vendor) \<leftarrow> read_register hw mc base_address VIRTIO_MMIO_VENDOR_ID;
           ret (mc, vendor \<noteq> 0x554d4551) });
         if bad then ret (mc, Err ())
         else do {
           mc \<leftarrow> write_register hw mc base_address VIRTIO_MMIO_STATUS 0;
           mc \<leftarrow> add_status hw mc base_address VIRTIO_DEVICE_STATUS_ACKNOWLEDGE;
           mc \<leftarrow> add_status hw mc base_address VIRTIO_DEVICE_STATUS_DRIVER;
           (mc, features) \<leftarrow> read_register hw mc base_address VIRTIO_MMIO_DEVICE_FEATURES;
           if features AND VIRTIO_BLK_F_RO \<noteq> 0 then ret (mc, Err ())
           else do {
             mc \<leftarrow> write_register hw mc base_address VIRTIO_MMIO_DRIVER_FEATURES 0;
             mc \<leftarrow> add_status hw mc base_address VIRTIO_DEVICE_STATUS_FEATURES_OK;
             setup_queue hw mc base_address } } } } }"

section \<open>Descriptors\<close>

text \<open>The two loops of \<open>allocate_descriptor\<close>: over the bits of a byte, over the bytes of the bitmap.\<close>

fun find_free_bit :: "u8 \<Rightarrow> nat list \<Rightarrow> nat option" where
  "find_free_bit c [] = None"
| "find_free_bit c (b # bs) = (if c AND push_bit b 1 \<noteq> 0 then Some b else find_free_bit c bs)"

fun allocate_descriptor_loop :: "u8 list \<Rightarrow> nat \<Rightarrow> (u8 list \<times> nat) option" where
  "allocate_descriptor_loop [] byte = None"
| "allocate_descriptor_loop (c # cs) byte =
     (case find_free_bit c [0..<8] of
        Some b \<Rightarrow> Some ((c AND NOT (push_bit b 1)) # cs, byte * 8 + b)
      | None \<Rightarrow> (case allocate_descriptor_loop cs (Suc byte) of
                   Some (cs', i) \<Rightarrow> Some (c # cs', i)
                 | None \<Rightarrow> None))"

text \<open>The descriptor number with the address of the descriptor, \<open>None\<close> when all are in use.\<close>

definition allocate_descriptor :: "virtio_blk \<Rightarrow> virtio_blk \<times> (u16 \<times> usize) option" where
  "allocate_descriptor blk =
     (case allocate_descriptor_loop (free_bitmap blk) 0 of
        Some (bm, i) \<Rightarrow> (blk\<lparr>free_bitmap := bm\<rparr>, Some (word_of_nat i, blk_descriptors blk + size_of_desc * i))
      | None \<Rightarrow> (blk, None))"

definition free_descriptor :: "virtio_blk \<Rightarrow> u16 \<Rightarrow> virtio_blk option" where
  "free_descriptor blk index = do {
     _ \<leftarrow> rust_assert (unat index < NUMBER_OF_DESCRIPTORS);
     c \<leftarrow> arr_get (free_bitmap blk) (unat index div 8);
     bm \<leftarrow> arr_set (free_bitmap blk) (unat index div 8) (c OR push_bit (unat (index AND 7)) 1);
     ret (blk\<lparr>free_bitmap := bm\<rparr>) }"

section \<open>A request\<close>

text \<open>The loop that polls the status byte; the device works while the driver waits.\<close>

partial_function (option) spin_wait :: "'h hw \<Rightarrow> 'h machine \<Rightarrow> ('h machine \<times> (unit, unit) result) option" where
  "spin_wait hw mc =
     (let s = mc_mem mc (status_address hw) in
      if s \<noteq> 0xFF then ret (mc, if s = VIRTIO_BLK_S_OK then Ok () else Err ())
      else let (d, m) = hw_step hw (mc_dev mc, mc_mem mc) in spin_wait hw (mc\<lparr>mc_dev := d, mc_mem := m\<rparr>))"

text \<open>The three descriptors of a request: header, buffer and status.\<close>

definition write_header_desc :: "'h hw \<Rightarrow> byte_mem \<Rightarrow> usize \<Rightarrow> byte_mem" where
  "write_header_desc hw m d =
     store16 (store32 (store64 m d (word_of_nat (req_address hw))) (d + 8) (word_of_nat size_of_blk_req))
       (d + 12) VIRT_QUEUE_DESC_FLAGS_NEXT"

definition write_buffer_desc :: "byte_mem \<Rightarrow> usize \<Rightarrow> usize \<Rightarrow> u64 \<Rightarrow> bool \<Rightarrow> byte_mem" where
  "write_buffer_desc m d buffer_address len is_write =
     store16 (store32 (store64 m d (word_of_nat buffer_address)) (d + 8) (ucast len)) (d + 12)
       (if is_write then VIRT_QUEUE_DESC_FLAGS_NEXT
        else VIRT_QUEUE_DESC_FLAGS_NEXT OR VIRT_QUEUE_DESC_FLAGS_WRITE)"

definition write_status_desc :: "'h hw \<Rightarrow> byte_mem \<Rightarrow> usize \<Rightarrow> byte_mem" where
  "write_status_desc hw m d =
     store16 (store32 (store64 m d (word_of_nat (status_address hw))) (d + 8) 1) (d + 12) VIRT_QUEUE_DESC_FLAGS_WRITE"

definition write_request :: "'h hw \<Rightarrow> byte_mem \<Rightarrow> u64 \<Rightarrow> bool \<Rightarrow> byte_mem" where
  "write_request hw m block_address is_write =
     store64 (store32 (store32 m (req_address hw) (if is_write then VIRTIO_BLK_TYPE_OUT else VIRTIO_BLK_TYPE_IN))
       (req_address hw + 4) 0) (req_address hw + 8) (drop_bit 9 block_address)"

text \<open>Adding a chain to the available ring; the ring index is a checked 16-bit addition.\<close>

definition push_avail :: "byte_mem \<Rightarrow> usize \<Rightarrow> u16 \<Rightarrow> byte_mem option" where
  "push_avail m avail first_idx = do {
     let idx = load16 m (avail + 2);
     let m = store16 m (avail + 4 + 2 * (unat idx mod NUMBER_OF_DESCRIPTORS)) first_idx;
     let idx = load16 m (avail + 2);
     if idx = 0xFFFF then panic else ret (store16 m (avail + 2) (idx + 1)) }"

definition operation_sync ::
    "'h hw \<Rightarrow> 'h machine \<Rightarrow> usize \<Rightarrow> u64 \<Rightarrow> u64 \<Rightarrow> bool \<Rightarrow> ('h machine \<times> (unit, unit) result) option" where
  "operation_sync hw mc buffer_address block_address len is_write =
     (if block_address AND (push_bit 9 1 - 1) \<noteq> 0 \<or> len AND (push_bit 9 1 - 1) \<noteq> 0 then ret (mc, Err ())
      else do {
        let m = write_request hw (mc_mem mc) block_address is_write;
        let (blk, r1) = allocate_descriptor (mc_blk mc);
        case r1 of None \<Rightarrow> ret (mc\<lparr>mc_mem := m, mc_blk := blk\<rparr>, Err ()) | Some (first_idx, first_descriptor) \<Rightarrow> do {
          let m = write_header_desc hw m first_descriptor;
          let (blk, r2) = allocate_descriptor blk;
          case r2 of None \<Rightarrow> ret (mc\<lparr>mc_mem := m, mc_blk := blk\<rparr>, Err ()) | Some (second_idx, second_descriptor) \<Rightarrow> do {
            let m = write_buffer_desc m second_descriptor buffer_address len is_write;
            let m = store16 m (first_descriptor + 14) second_idx;
            let m = m(status_address hw := 0xFF);
            let (blk, r3) = allocate_descriptor blk;
            case r3 of None \<Rightarrow> ret (mc\<lparr>mc_mem := m, mc_blk := blk\<rparr>, Err ()) | Some (third_idx, third_descriptor) \<Rightarrow> do {
              let m = write_status_desc hw m third_descriptor;
              let m = store16 m (second_descriptor + 14) third_idx;
              m \<leftarrow> push_avail m (blk_avail blk) first_idx;
              mc \<leftarrow> write_register hw (mc\<lparr>mc_mem := m, mc_blk := blk\<rparr>) (blk_base_address blk) VIRTIO_MMIO_QUEUE_NOTIFY 0;
              (mc, result) \<leftarrow> spin_wait hw mc;
              blk \<leftarrow> free_descriptor blk first_idx;
              blk \<leftarrow> free_descriptor blk second_idx;
              blk \<leftarrow> free_descriptor blk third_idx;
              ret (mc\<lparr>mc_blk := blk\<rparr>, result) } } } })"

definition blk_read :: "'h hw \<Rightarrow> 'h machine \<Rightarrow> usize \<Rightarrow> u64 \<Rightarrow> u64 \<Rightarrow> ('h machine \<times> (unit, unit) result) option" where
  "blk_read hw mc buffer_address block_address len = operation_sync hw mc buffer_address block_address len False"

definition blk_write :: "'h hw \<Rightarrow> 'h machine \<Rightarrow> usize \<Rightarrow> u64 \<Rightarrow> u64 \<Rightarrow> ('h machine \<times> (unit, unit) result) option" where
  "blk_write hw mc buffer_address block_address len = operation_sync hw mc buffer_address block_address len True"

end
