(* ===== verification/Blk_Device.thy ===== *)
theory Blk_Device
  imports Virtio_Driver
begin

text \<open>
  The driver against a device that follows the virtio specification. The contract of the
  hardware is the locale \<open>blk_device\<close>; under it a request of the driver returns and moves
  exactly the requested bytes between the disk and memory.
\<close>

section \<open>Sequences of writes to disjoint places\<close>

type_synonym mem_write = "usize \<times> nat \<times> nat"

definition apart :: "mem_write \<Rightarrow> mem_write \<Rightarrow> bool" where
  "apart v w = (case v of (a, n, _) \<Rightarrow> case w of (b, k, _) \<Rightarrow> a + n \<le> b \<or> b + k \<le> a)"

definition store_all :: "byte_mem \<Rightarrow> mem_write list \<Rightarrow> byte_mem" where
  "store_all m ws = foldl (\<lambda>m (a, n, v). store_le m a n v) m ws"

definition touched :: "mem_write list \<Rightarrow> usize set" where
  "touched ws = (\<Union>(a, n, v) \<in> set ws. {a..<a + n})"

lemma store_all_Cons: "store_all m ((a, n, v) # ws) = store_all (store_le m a n v) ws"
  by (simp add: store_all_def)

lemma store_all_frame: "b \<notin> touched ws \<Longrightarrow> store_all m ws b = m b"
proof (induction ws arbitrary: m)
  case (Cons w ws)
  obtain a n v where w: "w = (a, n, v)" by (cases w)
  with Cons.prems have "b < a \<or> a + n \<le> b" "b \<notin> touched ws" by (auto simp: touched_def)
  then show ?case by (simp add: w store_all_Cons Cons.IH store_le_frame)
qed (simp add: store_all_def)

lemma store_all_skip:
  assumes "list_all (apart (a, n, x)) ws"
  shows "load_le (store_all m ws) a n = load_le m a n"
  using assms
proof (induction ws arbitrary: m)
  case (Cons w ws)
  obtain b k v where w: "w = (b, k, v)" by (cases w)
  with Cons show ?case by (simp add: store_all_Cons apart_def load_store_other)
qed (simp add: store_all_def)

lemma store_all_load:
  assumes "sorted_wrt apart ws" "(a, n, v) \<in> set ws"
  shows "load_le (store_all m ws) a n = v mod 256 ^ n"
  using assms
proof (induction ws arbitrary: m)
  case (Cons w ws)
  show ?case
  proof (cases "w = (a, n, v)")
    case True
    with Cons.prems(1) have "list_all (apart (a, n, v)) ws" by (simp add: list_all_iff)
    then show ?thesis by (simp add: True store_all_Cons store_all_skip load_store_same)
  next
    case False
    obtain b k x where w: "w = (b, k, x)" by (cases w)
    from False Cons show ?thesis by (auto simp: w store_all_Cons)
  qed
qed simp

section \<open>What the device sees\<close>

text \<open>
  A request is queued at index \<open>i\<close> of the available ring of the queue at \<open>q\<close>: a chain of three
  descriptors for the header, the buffer and the status byte.
\<close>

definition avail_at :: "usize \<Rightarrow> usize" where
  "avail_at q = q + 16 * 64"

definition queued ::
    "'h hw \<Rightarrow> byte_mem \<Rightarrow> usize \<Rightarrow> nat \<Rightarrow> bool \<Rightarrow> u64 \<Rightarrow> usize \<Rightarrow> nat \<Rightarrow> bool" where
  "queued hw m q i is_write sector buffer len \<longleftrightarrow>
     (\<exists>h b s. h < 64 \<and> b < 64 \<and> s < 64 \<and>
        load16 m (avail_at q + 2) = word_of_nat (i + 1) \<and>
        load16 m (avail_at q + 4 + 2 * (i mod 64)) = word_of_nat h \<and>
        load_desc m (q + 16 * h) = \<lparr>desc_address = word_of_nat (req_address hw), desc_length = 16,
          desc_flags = VIRT_QUEUE_DESC_FLAGS_NEXT, desc_next = word_of_nat b\<rparr> \<and>
        load_desc m (q + 16 * b) = \<lparr>desc_address = word_of_nat buffer, desc_length = word_of_nat len,
          desc_flags = (if is_write then VIRT_QUEUE_DESC_FLAGS_NEXT
            else VIRT_QUEUE_DESC_FLAGS_NEXT OR VIRT_QUEUE_DESC_FLAGS_WRITE), desc_next = word_of_nat s\<rparr> \<and>
        load64 m (q + 16 * s) = word_of_nat (status_address hw) \<and> load32 m (q + 16 * s + 8) = 1 \<and>
        load16 m (q + 16 * s + 12) = VIRT_QUEUE_DESC_FLAGS_WRITE \<and>
        load_blk_req m (req_address hw) =
          \<lparr>req_type = (if is_write then VIRTIO_BLK_TYPE_OUT else VIRTIO_BLK_TYPE_IN), req_sector = sector\<rparr> \<and>
        m (status_address hw) = 0xFF)"

text \<open>The used ring, which the device writes.\<close>

definition used_area :: "usize \<Rightarrow> usize set" where
  "used_area q = {q + 4096..<q + 8192}"

text \<open>A part of the disk in memory, and a part of memory on the disk.\<close>

definition from_disk :: "(nat \<Rightarrow> u8) \<Rightarrow> byte_mem \<Rightarrow> usize \<Rightarrow> nat \<Rightarrow> nat \<Rightarrow> byte_mem" where
  "from_disk d m buffer pos len = (\<lambda>a. if buffer \<le> a \<and> a < buffer + len then d (pos + (a - buffer)) else m a)"

definition to_disk :: "byte_mem \<Rightarrow> (nat \<Rightarrow> u8) \<Rightarrow> usize \<Rightarrow> nat \<Rightarrow> nat \<Rightarrow> (nat \<Rightarrow> u8)" where
  "to_disk m d buffer pos len = (\<lambda>p. if pos \<le> p \<and> p < pos + len then m (buffer + (p - pos)) else d p)"

section \<open>The state of the driver between requests\<close>

definition own_area :: "'h hw \<Rightarrow> usize \<Rightarrow> usize set" where
  "own_area hw q = {q..<q + 8192} \<union> {req_address hw..<req_address hw + 16} \<union> {status_address hw}"

definition frame_ok :: "'h hw \<Rightarrow> usize \<Rightarrow> bool" where
  "frame_ok hw q \<longleftrightarrow> q + 8192 \<le> 2 ^ 64 \<and> req_address hw + 16 \<le> 2 ^ 64 \<and> status_address hw < 2 ^ 64 \<and>
     (req_address hw + 16 \<le> q \<or> q + 8192 \<le> req_address hw) \<and>
     (status_address hw < q \<or> q + 8192 \<le> status_address hw) \<and>
     (status_address hw < req_address hw \<or> req_address hw + 16 \<le> status_address hw)"

definition blk_ready :: "'h hw \<Rightarrow> ('h \<Rightarrow> usize \<Rightarrow> usize \<Rightarrow> nat \<Rightarrow> bool) \<Rightarrow> 'h machine \<Rightarrow> nat \<Rightarrow> bool" where
  "blk_ready hw ready mc i \<longleftrightarrow>
     (let b = mc_blk mc; q = blk_descriptors b in
      free_bitmap b = replicate 8 (- 1) \<and> blk_avail b = avail_at q \<and> blk_base_address b + 0x50 < 2 ^ 64 \<and>
      ready (mc_dev mc) (blk_base_address b) q i \<and> load16 (mc_mem mc) (avail_at q + 2) = word_of_nat i \<and>
      frame_ok hw q)"

section \<open>The writes of a request\<close>

definition request_writes :: "'h hw \<Rightarrow> usize \<Rightarrow> nat \<Rightarrow> usize \<Rightarrow> u64 \<Rightarrow> u64 \<Rightarrow> bool \<Rightarrow> mem_write list" where
  "request_writes hw q i buffer pos len is_write =
     [(req_address hw, 4, of_bool is_write), (req_address hw + 4, 4, 0), (req_address hw + 8, 8, unat (drop_bit 9 pos)),
      (q, 8, req_address hw mod 2 ^ 64), (q + 8, 4, 16), (q + 12, 2, 1),
      (q + 16, 8, buffer mod 2 ^ 64), (q + 24, 4, unat (ucast len :: u32)), (q + 28, 2, if is_write then 1 else 3),
      (q + 14, 2, 1), (status_address hw, 1, 255),
      (q + 32, 8, status_address hw mod 2 ^ 64), (q + 40, 4, 1), (q + 44, 2, 2), (q + 30, 2, 2),
      (avail_at q + 4 + 2 * (i mod 64), 2, 0), (avail_at q + 2, 2, (i + 1) mod 2 ^ 16)]"

lemma request_writes_apart:
  assumes "frame_ok hw q"
  shows "sorted_wrt apart (request_writes hw q i buffer pos len is_write)"
proof -
  obtain j where j: "j = i mod 64" "j \<le> 63" using mod_less_divisor [of 64 i] by fastforce
  from assms show ?thesis
    unfolding frame_ok_def request_writes_def avail_at_def sorted_wrt.simps list.set ball_simps apart_def prod.case j(1) [symmetric]
    by (elim conjE disjE) (use j(2) in simp_all)
qed

lemma word_of_nat_mod:
  "(word_of_nat (n mod 256 ^ 2) :: u16) = word_of_nat n" "(word_of_nat (n mod 2 ^ 16) :: u16) = word_of_nat n"
  "(word_of_nat (n mod 256 ^ 4) :: u32) = word_of_nat n" "(word_of_nat (n mod 256 ^ 8) :: u64) = word_of_nat n"
  "(word_of_nat (n mod 2 ^ 64) :: u64) = word_of_nat n"
  by (simp_all add: word_of_nat_eq_iff take_bit_eq_mod)

lemma request_queued:
  assumes "frame_ok hw q"
  shows "queued hw (store_all m (request_writes hw q i buffer pos len is_write)) q i is_write (drop_bit 9 pos) buffer (unat len)"
proof -
  let ?ws = "request_writes hw q i buffer pos len is_write"
  let ?m = "store_all m ?ws"
  note L = store_all_load [OF request_writes_apart [OF assms], of _ _ _ i buffer pos len is_write m]
  have a: "load_le ?m (avail_at q + 2) 2 = (i + 1) mod 2 ^ 16 mod 256 ^ 2"
    "load_le ?m (avail_at q + 4 + 2 * (i mod 64)) 2 = 0 mod 256 ^ 2"
    by (rule L; simp add: request_writes_def)+
  have d0: "load_le ?m q 8 = req_address hw mod 2 ^ 64 mod 256 ^ 8" "load_le ?m (q + 8) 4 = 16 mod 256 ^ 4"
    "load_le ?m (q + 12) 2 = 1 mod 256 ^ 2" "load_le ?m (q + 14) 2 = 1 mod 256 ^ 2"
    by (rule L; simp add: request_writes_def)+
  have d1: "load_le ?m (q + 16) 8 = buffer mod 2 ^ 64 mod 256 ^ 8"
    "load_le ?m (q + 24) 4 = unat (ucast len :: u32) mod 256 ^ 4"
    "load_le ?m (q + 28) 2 = (if is_write then 1 else 3) mod 256 ^ 2" "load_le ?m (q + 30) 2 = 2 mod 256 ^ 2"
    by (rule L; simp add: request_writes_def)+
  have d2: "load_le ?m (q + 32) 8 = status_address hw mod 2 ^ 64 mod 256 ^ 8" "load_le ?m (q + 40) 4 = 1 mod 256 ^ 4"
    "load_le ?m (q + 44) 2 = 2 mod 256 ^ 2"
    by (rule L; simp add: request_writes_def)+
  have r: "load_le ?m (req_address hw) 4 = of_bool is_write mod 256 ^ 4"
    "load_le ?m (req_address hw + 8) 8 = unat (drop_bit 9 pos) mod 256 ^ 8"
    "load_le ?m (status_address hw) 1 = 255 mod 256 ^ 1"
    by (rule L; simp add: request_writes_def)+
  note loads = a d0 d1 d2 r
  have "unat (?m (status_address hw)) = 255" using r(3) by simp
  then have st: "?m (status_address hw) = 0xFF" by (metis of_nat_unat ucast_id of_nat_numeral)
  have w: "load16 ?m (avail_at q + 2) = word_of_nat (i + 1)" "load16 ?m (avail_at q + 4 + 2 * (i mod 64)) = word_of_nat 0"
    unfolding load16_def loads word_of_nat_mod by (rule refl)+
  have D0: "load_desc ?m (q + 16 * 0) = \<lparr>desc_address = word_of_nat (req_address hw), desc_length = 16,
    desc_flags = VIRT_QUEUE_DESC_FLAGS_NEXT, desc_next = word_of_nat 1\<rparr>"
    unfolding load_desc_def load16_def load32_def load64_def mult_0_right add_0_right loads word_of_nat_mod
    by (simp add: VIRT_QUEUE_DESC_FLAGS_NEXT_def)
  have q1: "q + 16 * 1 = q + 16" "q + 16 + 8 = q + 24" "q + 16 + 12 = q + 28" "q + 16 + 14 = q + 30"
    "q + 16 * 2 = q + 32" "q + 32 + 8 = q + 40" "q + 32 + 12 = q + 44" by simp_all
  have D1: "load_desc ?m (q + 16 * 1) = \<lparr>desc_address = word_of_nat buffer, desc_length = word_of_nat (unat len),
    desc_flags = (if is_write then VIRT_QUEUE_DESC_FLAGS_NEXT
      else VIRT_QUEUE_DESC_FLAGS_NEXT OR VIRT_QUEUE_DESC_FLAGS_WRITE), desc_next = word_of_nat 2\<rparr>"
    unfolding load_desc_def load16_def load32_def load64_def q1 loads word_of_nat_mod
    by (simp add: VIRT_QUEUE_DESC_FLAGS_NEXT_def VIRT_QUEUE_DESC_FLAGS_WRITE_def)
  have D2: "load64 ?m (q + 16 * 2) = word_of_nat (status_address hw)" "load32 ?m (q + 16 * 2 + 8) = 1"
    "load16 ?m (q + 16 * 2 + 12) = VIRT_QUEUE_DESC_FLAGS_WRITE"
    unfolding load16_def load32_def load64_def q1 loads word_of_nat_mod by (simp_all add: VIRT_QUEUE_DESC_FLAGS_WRITE_def)
  have R: "load_blk_req ?m (req_address hw) =
    \<lparr>req_type = (if is_write then VIRTIO_BLK_TYPE_OUT else VIRTIO_BLK_TYPE_IN), req_sector = drop_bit 9 pos\<rparr>"
    unfolding load_blk_req_def load32_def load64_def loads word_of_nat_mod
    by (simp add: VIRTIO_BLK_TYPE_OUT_def VIRTIO_BLK_TYPE_IN_def)
  have "0 < (64 :: nat)" "1 < (64 :: nat)" "2 < (64 :: nat)" by simp_all
  then show ?thesis unfolding queued_def using w D0 D1 D2 R st by blast
qed

section \<open>Descriptors\<close>

definition bitmap :: "u8 \<Rightarrow> u8 list" where
  "bitmap c = c # replicate 7 (- 1)"

lemma bits8: "[0..<8] = [0, 1, 2, 3, 4, 5, 6, 7]"
  by code_simp

lemma allocate_first:
  assumes "find_free_bit c [0..<8] = Some k"
  shows "free_bitmap b = bitmap c \<Longrightarrow> allocate_descriptor b =
    (b\<lparr>free_bitmap := bitmap (c AND NOT (push_bit k 1))\<rparr>, Some (word_of_nat k, blk_descriptors b + 16 * k))"
  using assms by (simp add: allocate_descriptor_def bitmap_def size_of_desc_def)

lemma free_bits:
  "find_free_bit 0xFF [0..<8] = Some 0" "find_free_bit 0xFE [0..<8] = Some 1" "find_free_bit 0xFC [0..<8] = Some 2"
  unfolding bits8 by simp_all

lemma free_first:
  assumes "free_bitmap b = bitmap c" "k \<in> {0, 1, 2}"
  shows "free_descriptor b k = Some (b\<lparr>free_bitmap := bitmap (c OR push_bit (unat k) 1)\<rparr>)"
  using assms
  by (auto simp: free_descriptor_def bitmap_def NUMBER_OF_DESCRIPTORS_def arr_get_def arr_set_def rust_assert_def)

lemma spin_wait_steps:
  assumes "(hw_step hw ^^ k) (h, m) = (h', m')" "\<forall>j < k. snd ((hw_step hw ^^ j) (h, m)) (status_address hw) = 0xFF"
    and "m' (status_address hw) = 0" "mc_dev mc = h" "mc_mem mc = m"
  shows "spin_wait hw mc = Some (mc\<lparr>mc_dev := h', mc_mem := m'\<rparr>, Ok ())"
  using assms
proof (induction k arbitrary: h m mc)
  case 0
  then show ?case by (simp add: spin_wait.simps VIRTIO_BLK_S_OK_def)
next
  case (Suc k)
  obtain h1 m1 where s: "hw_step hw (h, m) = (h1, m1)" by (cases "hw_step hw (h, m)")
  have "m (status_address hw) = 0xFF" using Suc.prems(2) by (metis funpow_0 snd_conv zero_less_Suc)
  then have "spin_wait hw mc = spin_wait hw (mc\<lparr>mc_dev := h1, mc_mem := m1\<rparr>)"
    using s Suc.prems(4,5) by (simp add: spin_wait.simps [of hw mc])
  moreover have "(hw_step hw ^^ k) (h1, m1) = (h', m')" using Suc.prems(1) s by (simp only: funpow_Suc_right comp_apply)
  moreover have "\<forall>j < k. snd ((hw_step hw ^^ j) (h1, m1)) (status_address hw) = 0xFF"
  proof (intro allI impI)
    fix j assume "j < k"
    with Suc.prems(2) have "snd ((hw_step hw ^^ Suc j) (h, m)) (status_address hw) = 0xFF" by blast
    then show "snd ((hw_step hw ^^ j) (h1, m1)) (status_address hw) = 0xFF" by (simp only: funpow_Suc_right comp_apply s)
  qed
  ultimately show ?case using Suc.IH [of h1 m1 "mc\<lparr>mc_dev := h1, mc_mem := m1\<rparr>"] Suc.prems(3) by simp
qed

section \<open>A request\<close>

lemma store_as_le:
  "store16 m a v = store_le m a 2 (unat v)" "store32 m a w = store_le m a 4 (unat w)" "store64 m a x = store_le m a 8 (unat x)"
  "m(a := 0xFF) = store_le m a 1 255"
  by (simp_all add: store16_def store32_def store64_def)

lemma push_avail_eq:
  assumes "load16 m (a + 2) = word_of_nat i" "i < 65535"
  shows "push_avail m a j = Some (store16 (store16 m (a + 4 + 2 * (i mod 64)) j) (a + 2) (word_of_nat (i + 1)))"
proof -
  have "unat (word_of_nat i :: u16) = i" using assms(2) by (simp add: unat_of_nat)
  moreover have "load16 (store16 m (a + 4 + 2 * (i mod 64)) j) (a + 2) = word_of_nat i"
    using assms(1) unfolding load16_def store16_def by (subst load_store_other) simp_all
  moreover have "(word_of_nat i :: u16) \<noteq> 0xFFFF"
  proof
    assume "(word_of_nat i :: u16) = 0xFFFF"
    then have "unat (word_of_nat i :: u16) = unat (0xFFFF :: u16)" by (rule arg_cong)
    with assms(2) show False by (simp add: unat_of_nat)
  qed
  ultimately show ?thesis using assms(1) by (simp add: push_avail_def NUMBER_OF_DESCRIPTORS_def add.commute)
qed

definition busy_blk :: "virtio_blk \<Rightarrow> virtio_blk" where
  "busy_blk b = b\<lparr>free_bitmap := bitmap 0xF8\<rparr>"

lemma apart_sym: "apart v w \<longleftrightarrow> apart w v"
  by (auto simp: apart_def split: prod.splits)

lemma request_mem:
  assumes "load16 m (avail_at q + 2) = word_of_nat i" "i < 65535" "frame_ok hw q"
  shows "push_avail (store16 (write_status_desc hw ((store16 (write_buffer_desc (write_header_desc hw
      (write_request hw m pos is_write) q) (q + 16) buffer len is_write) (q + 14) 1)(status_address hw := 0xFF))
      (q + 32)) (q + 30) 2) (avail_at q) 0 = Some (store_all m (request_writes hw q i buffer pos len is_write))"
    (is "push_avail ?m15 _ _ = _")
proof -
  let ?ws = "request_writes hw q i buffer pos len is_write"
  let ?ws15 = "take 15 ?ws"
  let ?last = "[(avail_at q + 4 + 2 * (i mod 64), 2, 0), (avail_at q + 2, 2, (i + 1) mod 2 ^ 16)]"
  have split: "?ws = ?ws15 @ ?last" by (simp add: request_writes_def)
  have m15: "?m15 = store_all m ?ws15"
    by (simp add: request_writes_def store_all_Cons write_request_def write_header_desc_def write_buffer_desc_def
        write_status_desc_def store_as_le size_of_blk_req_def VIRTIO_BLK_TYPE_OUT_def VIRTIO_BLK_TYPE_IN_def
        VIRT_QUEUE_DESC_FLAGS_NEXT_def VIRT_QUEUE_DESC_FLAGS_WRITE_def unat_of_nat del: One_nat_def)
      (simp add: store_all_def add.commute [of 24 q] add.commute [of 28 q] add.commute [of 40 q] add.commute [of 44 q])
  have "sorted_wrt apart (?ws15 @ ?last)" using request_writes_apart [OF assms(3)] split by metis
  then have "list_all (apart (avail_at q + 2, 2, (i + 1) mod 2 ^ 16)) ?ws15"
    by (auto simp: sorted_wrt_append list_all_iff apart_sym)
  then have "load16 ?m15 (avail_at q + 2) = word_of_nat i"
    unfolding m15 load16_def using assms(1) by (simp only: store_all_skip load16_def)
  note p = push_avail_eq [OF this assms(2), of 0]
  have "store_all m (?ws15 @ ?last) = store16 (store16 ?m15 (avail_at q + 4 + 2 * (i mod 64)) 0) (avail_at q + 2) (word_of_nat (i + 1))"
    unfolding m15 unfolding store_as_le by (simp add: store_all_def unat_of_nat del: of_nat_add of_nat_Suc)
  with p split show ?thesis by metis
qed

lemma operation_sync_eq:
  assumes "free_bitmap (mc_blk mc) = replicate 8 (- 1)" "blk_avail (mc_blk mc) = avail_at q" "blk_descriptors (mc_blk mc) = q"
    and "load16 (mc_mem mc) (avail_at q + 2) = word_of_nat i" "i < 65535" "frame_ok hw q"
    and "take_bit 9 pos = 0" "take_bit 9 len = 0"
  shows "operation_sync hw mc buffer pos len is_write = do {
    mc' \<leftarrow> write_register hw
      (mc\<lparr>mc_mem := store_all (mc_mem mc) (request_writes hw q i buffer pos len is_write), mc_blk := busy_blk (mc_blk mc)\<rparr>)
      (blk_base_address (mc_blk mc)) VIRTIO_MMIO_QUEUE_NOTIFY 0;
    (mc', result) \<leftarrow> spin_wait hw mc';
    ret (mc'\<lparr>mc_blk := mc_blk mc\<rparr>, result) }"
proof -
  let ?b = "mc_blk mc"
  have "(0xFF :: u8) = - 1" by code_simp
  then have full: "free_bitmap ?b = bitmap 0xFF" using assms(1) by (simp add: bitmap_def numeral_eq_Suc)
  note al = allocate_first [OF free_bits(1)] allocate_first [OF free_bits(2)] allocate_first [OF free_bits(3)]
  have a1: "allocate_descriptor ?b = (?b\<lparr>free_bitmap := bitmap 0xFE\<rparr>, Some (0, q))"
    using al(1) [OF full] assms(3) by simp
  have a2: "allocate_descriptor (?b\<lparr>free_bitmap := bitmap 0xFE\<rparr>) = (?b\<lparr>free_bitmap := bitmap 0xFC\<rparr>, Some (1, q + 16))"
    using al(2) [of "?b\<lparr>free_bitmap := bitmap 0xFE\<rparr>"] assms(3) by simp
  have a3: "allocate_descriptor (?b\<lparr>free_bitmap := bitmap 0xFC\<rparr>) = (busy_blk ?b, Some (2, q + 32))"
    using al(3) [of "?b\<lparr>free_bitmap := bitmap 0xFC\<rparr>"] assms(3) by (simp add: busy_blk_def)
  have f1: "free_descriptor (busy_blk ?b) 0 = Some (?b\<lparr>free_bitmap := bitmap 0xF9\<rparr>)"
    by (simp add: busy_blk_def free_first)
  have f2: "free_descriptor (?b\<lparr>free_bitmap := bitmap 0xF9\<rparr>) 1 = Some (?b\<lparr>free_bitmap := bitmap 0xFB\<rparr>)"
    by (simp add: free_first)
  have f3: "free_descriptor (?b\<lparr>free_bitmap := bitmap 0xFB\<rparr>) 2 = Some ?b"
    using full by (simp add: free_first)
  have b: "blk_avail (busy_blk ?b) = avail_at q" "blk_base_address (busy_blk ?b) = blk_base_address ?b" "q + 16 + 14 = q + 30"
    using assms(2) by (simp_all add: busy_blk_def)
  have mem: "push_avail (store16 (write_status_desc hw ((store16 (write_buffer_desc (write_header_desc hw
      (write_request hw (mc_mem mc) pos is_write) q) (q + 16) buffer len is_write) (q + 14) 1)(status_address hw := 0xFF))
      (q + 32)) (q + 30) 2) (avail_at q) 0 =
    Some (store_all (mc_mem mc) (request_writes hw q i buffer pos len is_write))"
    by (rule request_mem [OF assms(4-6)])
  have g: "\<not> (pos AND (push_bit 9 1 - 1) \<noteq> 0 \<or> len AND (push_bit 9 1 - 1) \<noteq> 0)"
    using assms(7,8) by (simp add: take_bit_eq_mask mask_eq_exp_minus_1)
  show ?thesis
    unfolding operation_sync_def if_not_P [OF g] Let_def a1 prod.case option.case a2 a3 b mem Option.bind.simps f1 f2 f3
    by (rule refl)
qed

lemma unat_sector:
  "unat (take_bit 9 (w :: u64)) = unat w mod 512" "unat (drop_bit 9 (w :: u64)) = unat w div 512"
proof -
  show "unat (take_bit 9 w) = unat w mod 512" unfolding unsigned_take_bit_eq by (simp add: take_bit_eq_mod)
  show "unat (drop_bit 9 w) = unat w div 512" unfolding unat_drop_bit_eq by (simp add: drop_bit_eq_div)
qed

lemma request_touched:
  "touched (request_writes hw q i buffer pos len is_write) \<subseteq> own_area hw q"
proof -
  obtain j where j: "j = i mod 64" "j \<le> 63" using mod_less_divisor [of 64 i] by fastforce
  show ?thesis
    unfolding touched_def request_writes_def avail_at_def list.set UN_insert UN_empty prod.case j(1) [symmetric]
    by (intro Un_least) (use j(2) in \<open>auto simp: own_area_def\<close>)
qed

lemma own_area_used: "used_area q \<subseteq> own_area hw q" "status_address hw \<in> own_area hw q"
  by (auto simp: used_area_def own_area_def)

text \<open>What a request of \<open>len\<close> bytes at \<open>pos\<close> on the disk has done.\<close>

definition transferred ::
    "'h hw \<Rightarrow> ('h \<Rightarrow> nat \<Rightarrow> u8) \<Rightarrow> bool \<Rightarrow> usize \<Rightarrow> nat \<Rightarrow> nat \<Rightarrow> 'h machine \<Rightarrow> 'h machine \<Rightarrow> bool" where
  "transferred hw disk is_write buffer pos len mc mc' \<longleftrightarrow> mc_alloc mc' = mc_alloc mc \<and> mc_blk mc' = mc_blk mc \<and>
     disk (mc_dev mc') = (if is_write then to_disk (mc_mem mc) (disk (mc_dev mc)) buffer pos len else disk (mc_dev mc)) \<and>
     (\<forall>a. a \<notin> own_area hw (blk_descriptors (mc_blk mc)) \<longrightarrow>
        mc_mem mc' a = (if is_write then mc_mem mc else from_disk (disk (mc_dev mc)) (mc_mem mc) buffer pos len) a)"

section \<open>The device\<close>

text \<open>
  The contract of the device. \<open>ready h base q i\<close>: the device at \<open>base\<close> is set up with the queue
  at \<open>q\<close> and has served \<open>i\<close> requests; \<open>capacity\<close> is the size of the disk in bytes. After a
  notification it completes a queued request within the disk, sets the status byte to 0 when the
  data has been moved, and writes nothing else but its used ring.
\<close>

locale blk_device =
  fixes hw :: "'h hw" and disk :: "'h \<Rightarrow> nat \<Rightarrow> u8" and capacity :: nat
    and ready :: "'h \<Rightarrow> usize \<Rightarrow> usize \<Rightarrow> nat \<Rightarrow> bool"
  assumes completes:
    "\<lbrakk>ready h base q i; queued hw m q i is_write sector buffer len; 512 * unat sector + len \<le> capacity;
       buffer + len \<le> 2 ^ 64; len < 2 ^ 32\<rbrakk> \<Longrightarrow>
     \<exists>k h' m'. (hw_step hw ^^ k) (hw_write hw h m 4 (base + 0x50) 0) = (h', m') \<and>
       (\<forall>j < k. snd ((hw_step hw ^^ j) (hw_write hw h m 4 (base + 0x50) 0)) (status_address hw) = 0xFF) \<and>
       m' (status_address hw) = 0 \<and> ready h' base q (i + 1) \<and>
       disk h' = (if is_write then to_disk m (disk h) buffer (512 * unat sector) len else disk h) \<and>
       (\<forall>a. a \<noteq> status_address hw \<longrightarrow> a \<notin> used_area q \<longrightarrow>
          m' a = (if is_write then m else from_disk (disk h) m buffer (512 * unat sector) len) a)"
begin

lemma request_ok:
  assumes ready: "blk_ready hw ready mc i" "i < 65535"
    and range: "512 dvd pos" "512 dvd len" "len < 2 ^ 32" "pos < 2 ^ 64" "pos + len \<le> capacity"
    and buffer: "{buffer..<buffer + len} \<inter> own_area hw (blk_descriptors (mc_blk mc)) = {}" "buffer + len \<le> 2 ^ 64"
  shows "\<exists>mc'. operation_sync hw mc buffer (word_of_nat pos) (word_of_nat len) is_write = Some (mc', Ok ()) \<and>
    blk_ready hw ready mc' (i + 1) \<and> transferred hw disk is_write buffer pos len mc mc'"
proof -
  let ?b = "mc_blk mc" and ?q = "blk_descriptors (mc_blk mc)" and ?base = "blk_base_address (mc_blk mc)"
  let ?pos = "word_of_nat pos :: u64" and ?len = "word_of_nat len :: u64"
  let ?m = "store_all (mc_mem mc) (request_writes hw ?q i buffer ?pos ?len is_write)"
  from ready(1) have b: "free_bitmap ?b = replicate 8 (- 1)" "blk_avail ?b = avail_at ?q" "?base + 0x50 < 2 ^ 64"
    "ready (mc_dev mc) ?base ?q i" "load16 (mc_mem mc) (avail_at ?q + 2) = word_of_nat i" and fr: "frame_ok hw ?q"
    by (simp_all add: blk_ready_def Let_def)
  have un: "unat ?pos = pos" "unat ?len = len" using range(3,4) by (simp_all add: unat_of_nat)
  have tb: "take_bit 9 ?pos = 0" "take_bit 9 ?len = 0"
    using range(1,2) un unat_sector(1) [of ?pos] unat_sector(1) [of ?len] by (simp_all add: unat_eq_zero)
  have sec: "512 * unat (drop_bit 9 ?pos) = pos" using range(1) un(1) unat_sector(2) [of ?pos] by simp
  have eq: "operation_sync hw mc buffer ?pos ?len is_write = do {
    mc' \<leftarrow> write_register hw (mc\<lparr>mc_mem := ?m, mc_blk := busy_blk ?b\<rparr>) ?base VIRTIO_MMIO_QUEUE_NOTIFY 0;
    (mc', result) \<leftarrow> spin_wait hw mc';
    ret (mc'\<lparr>mc_blk := ?b\<rparr>, result) }"
    by (rule operation_sync_eq [OF b(1,2) refl b(5) ready(2) fr tb])
  have q1: "queued hw ?m ?q i is_write (drop_bit 9 ?pos) buffer len"
    using request_queued [OF fr, of "mc_mem mc" i buffer ?pos ?len is_write] un(2) by simp
  from completes [OF b(4) q1] sec range(3,5) buffer(2) obtain k h' m' where
    run: "(hw_step hw ^^ k) (hw_write hw (mc_dev mc) ?m 4 (?base + 0x50) 0) = (h', m')"
      "\<forall>j < k. snd ((hw_step hw ^^ j) (hw_write hw (mc_dev mc) ?m 4 (?base + 0x50) 0)) (status_address hw) = 0xFF"
      "m' (status_address hw) = 0"
    and post: "ready h' ?base ?q (i + 1)"
      "disk h' = (if is_write then to_disk ?m (disk (mc_dev mc)) buffer pos len else disk (mc_dev mc))"
      "\<And>a. a \<noteq> status_address hw \<Longrightarrow> a \<notin> used_area ?q \<Longrightarrow>
        m' a = (if is_write then ?m else from_disk (disk (mc_dev mc)) ?m buffer pos len) a"
    by metis
  obtain h0 m0 where w: "hw_write hw (mc_dev mc) ?m 4 (?base + 0x50) 0 = (h0, m0)" by fastforce
  have same: "?m a = mc_mem mc a" if "a \<notin> own_area hw ?q" for a
    using that request_touched by (intro store_all_frame) blast
  let ?mc0 = "mc\<lparr>mc_mem := m0, mc_dev := h0, mc_blk := busy_blk ?b\<rparr>"
  have "write_register hw (mc\<lparr>mc_mem := ?m, mc_blk := busy_blk ?b\<rparr>) ?base VIRTIO_MMIO_QUEUE_NOTIFY 0 = Some ?mc0"
    using w b(3) by (simp add: write_register_def volatile_write_def uadd_def usize_range_def VIRTIO_MMIO_QUEUE_NOTIFY_def)
  moreover have "spin_wait hw ?mc0 = Some (?mc0\<lparr>mc_dev := h', mc_mem := m'\<rparr>, Ok ())"
    by (rule spin_wait_steps [OF run [unfolded w]]) simp_all
  ultimately have op: "operation_sync hw mc buffer ?pos ?len is_write = Some (mc\<lparr>mc_dev := h', mc_mem := m'\<rparr>, Ok ())"
    unfolding eq by simp
  have mem: "m' a = (if is_write then ?m else from_disk (disk (mc_dev mc)) ?m buffer pos len) a"
    if "a \<notin> used_area ?q" "a \<noteq> status_address hw" for a
    using post(3) that by blast
  have out: "m' a = (if is_write then mc_mem mc else from_disk (disk (mc_dev mc)) (mc_mem mc) buffer pos len) a"
    if "a \<notin> own_area hw ?q" for a
  proof -
    have "a \<notin> used_area ?q" "a \<noteq> status_address hw" using that own_area_used(1) [of ?q hw] own_area_used(2) [of hw ?q] by blast+
    from mem [OF this] show ?thesis using same [OF that] by (cases is_write) (simp_all add: from_disk_def)
  qed
  have idx: "load16 m' (avail_at ?q + 2) = word_of_nat (i + 1)"
  proof -
    have "m' (avail_at ?q + 2 + n) = ?m (avail_at ?q + 2 + n)" if "n < 2" for n
    proof -
      have "avail_at ?q + 2 + n \<in> own_area hw ?q" using that by (simp add: own_area_def avail_at_def)
      moreover have "avail_at ?q + 2 + n \<notin> used_area ?q" "avail_at ?q + 2 + n \<noteq> status_address hw"
        using that fr by (auto simp: used_area_def avail_at_def frame_ok_def)
      ultimately show ?thesis using mem [of "avail_at ?q + 2 + n"] buffer(1) by (auto simp: from_disk_def)
    qed
    then have "load16 m' (avail_at ?q + 2) = load16 ?m (avail_at ?q + 2)" by (rule load_cong(1))
    also have "\<dots> = word_of_nat (i + 1)" using q1 unfolding queued_def by blast
    finally show ?thesis .
  qed
  have "disk h' = (if is_write then to_disk (mc_mem mc) (disk (mc_dev mc)) buffer pos len else disk (mc_dev mc))"
  proof -
    have "?m (buffer + (p - pos)) = mc_mem mc (buffer + (p - pos))" if "pos \<le> p" "p < pos + len" for p
    proof (rule same)
      have "buffer + (p - pos) \<in> {buffer..<buffer + len}" unfolding atLeastLessThan_iff using that by linarith
      with buffer(1) show "buffer + (p - pos) \<notin> own_area hw ?q" by blast
    qed
    then have "to_disk ?m (disk (mc_dev mc)) buffer pos len = to_disk (mc_mem mc) (disk (mc_dev mc)) buffer pos len"
      by (auto simp: to_disk_def fun_eq_iff)
    with post(2) show ?thesis by presburger
  qed
  then show ?thesis using op out idx post(1) b fr by (auto simp: blk_ready_def transferred_def Let_def)
qed

end

section \<open>A device that keeps the contract\<close>

text \<open>
  The reference device serves a request at once when it is notified: it takes the next entry of
  the available ring, follows the chain of three descriptors, moves the data, records the
  request in the used ring and writes the status.
\<close>

record ref_dev =
  dv_disk :: "nat \<Rightarrow> u8"
  dv_base :: usize
  dv_queue :: usize
  dv_count :: nat

definition serve :: "ref_dev \<Rightarrow> byte_mem \<Rightarrow> ref_dev \<times> byte_mem" where
  "serve h m =
     (let q = dv_queue h; head = unat (load16 m (avail_at q + 4 + 2 * (dv_count h mod 64)));
          header = load_desc m (q + 16 * head); data = load_desc m (q + 16 * unat (desc_next header));
          status = unat (load64 m (q + 16 * unat (desc_next data))); r = load_blk_req m (unat (desc_address header));
          pos = 512 * unat (req_sector r); buffer = unat (desc_address data); len = unat (desc_length data);
          is_write = (req_type r = VIRTIO_BLK_TYPE_OUT);
          d = (if is_write then to_disk m (dv_disk h) buffer pos len else dv_disk h);
          m = (if is_write then m else from_disk (dv_disk h) m buffer pos len);
          m = store16 m (q + 4096 + 2) (word_of_nat (dv_count h + 1))
      in (h\<lparr>dv_disk := d, dv_count := dv_count h + 1\<rparr>, m(status := 0)))"

definition ref_hw :: "ref_dev hw" where
  "ref_hw = \<lparr>hw_read = (\<lambda>h n a. (h, 0)),
     hw_write = (\<lambda>h m n a v. if a = dv_base h + 0x50 then serve h m else (h, m)),
     hw_step = (\<lambda>s. s), hw_smc = (\<lambda>h a b c d. (h, 0)), req_address = 0x1000, status_address = 0x1010\<rparr>"

definition ref_ready :: "ref_dev \<Rightarrow> usize \<Rightarrow> usize \<Rightarrow> nat \<Rightarrow> bool" where
  "ref_ready h base q i \<longleftrightarrow> dv_base h = base \<and> dv_queue h = q \<and> dv_count h = i"

lemma unat_small: "n < 64 \<Longrightarrow> unat (word_of_nat n :: u16) = n"
  by (simp add: unat_of_nat)

lemma disk_cong:
  assumes "b + len \<le> 2 ^ 64"
  shows "from_disk d m (unat (word_of_nat b :: u64)) pos len = from_disk d m b pos len"
    "to_disk m d (unat (word_of_nat b :: u64)) pos len = to_disk m d b pos len"
proof -
  have "len = 0 \<or> unat (word_of_nat b :: u64) = b" using assms by (cases "len = 0") (simp_all add: unat_of_nat)
  then show "from_disk d m (unat (word_of_nat b :: u64)) pos len = from_disk d m b pos len"
    "to_disk m d (unat (word_of_nat b :: u64)) pos len = to_disk m d b pos len"
    by (auto simp: from_disk_def to_disk_def fun_eq_iff)
qed

lemma serve_queued:
  assumes "queued ref_hw m q (dv_count h) is_write sector buffer len" "dv_queue h = q" "buffer + len \<le> 2 ^ 64" "len < 2 ^ 32"
  shows "serve h m = (h\<lparr>dv_disk := if is_write then to_disk m (dv_disk h) buffer (512 * unat sector) len else dv_disk h,
      dv_count := dv_count h + 1\<rparr>,
    (store16 (if is_write then m else from_disk (dv_disk h) m buffer (512 * unat sector) len) (q + 4096 + 2)
      (word_of_nat (dv_count h + 1)))(0x1010 := 0))"
proof -
  from assms(1) obtain a b s where lt: "a < 64" "b < 64" "s < 64"
    and idx: "load16 m (avail_at q + 4 + 2 * (dv_count h mod 64)) = word_of_nat a"
    and d: "load_desc m (q + 16 * a) = \<lparr>desc_address = word_of_nat (req_address ref_hw), desc_length = 16,
          desc_flags = VIRT_QUEUE_DESC_FLAGS_NEXT, desc_next = word_of_nat b\<rparr>"
      "load_desc m (q + 16 * b) = \<lparr>desc_address = word_of_nat buffer, desc_length = word_of_nat len,
          desc_flags = (if is_write then VIRT_QUEUE_DESC_FLAGS_NEXT
            else VIRT_QUEUE_DESC_FLAGS_NEXT OR VIRT_QUEUE_DESC_FLAGS_WRITE), desc_next = word_of_nat s\<rparr>"
      "load64 m (q + 16 * s) = word_of_nat (status_address ref_hw)"
    and r: "load_blk_req m (req_address ref_hw) =
          \<lparr>req_type = (if is_write then VIRTIO_BLK_TYPE_OUT else VIRTIO_BLK_TYPE_IN), req_sector = sector\<rparr>"
    unfolding queued_def by blast
  have u: "unat (word_of_nat (req_address ref_hw) :: u64) = req_address ref_hw" "req_address ref_hw = 0x1000"
    "unat (word_of_nat (status_address ref_hw) :: u64) = 0x1010"
    by (simp_all add: ref_hw_def unat_of_nat)
  have l: "unat (word_of_nat len :: u32) = len" using assms(4) by (simp add: unat_of_nat)
  have t: "((if is_write then VIRTIO_BLK_TYPE_OUT else VIRTIO_BLK_TYPE_IN) = VIRTIO_BLK_TYPE_OUT) = is_write"
    by (simp add: VIRTIO_BLK_TYPE_OUT_def VIRTIO_BLK_TYPE_IN_def)
  show ?thesis
    unfolding serve_def Let_def assms(2) idx unat_small [OF lt(1)] d(1,2) virt_queue_desc.simps unat_small [OF lt(2)]
      unat_small [OF lt(3)] d(3) u(1,3) r virtio_blk_req.simps l t disk_cong [OF assms(3)] by (rule refl)
qed

interpretation ref: blk_device ref_hw dv_disk capacity ref_ready
proof
  fix h base q i m is_write sector buffer len
  assume a: "ref_ready h base q i" "queued ref_hw m q i is_write sector buffer len" "buffer + len \<le> 2 ^ 64" "len < 2 ^ 32"
  then have "queued ref_hw m q (dv_count h) is_write sector buffer len" "dv_queue h = q" by (simp_all add: ref_ready_def)
  note s = serve_queued [OF this a(3,4)]
  have w: "hw_write ref_hw h m 4 (base + 0x50) 0 = serve h m" using a(1) by (simp add: ref_hw_def ref_ready_def)
  have frame: "store16 m' (4098 + q) v x = m' x" if "x \<notin> used_area q" for m' v x
    using that by (auto simp: store16_def used_area_def intro!: store_le_frame)
  show "\<exists>k h' m'. (hw_step ref_hw ^^ k) (hw_write ref_hw h m 4 (base + 80) 0) = (h', m') \<and>
     (\<forall>j < k. snd ((hw_step ref_hw ^^ j) (hw_write ref_hw h m 4 (base + 80) 0)) (status_address ref_hw) = 255) \<and>
     m' (status_address ref_hw) = 0 \<and> ref_ready h' base q (i + 1) \<and>
     dv_disk h' = (if is_write then to_disk m (dv_disk h) buffer (512 * unat sector) len else dv_disk h) \<and>
     (\<forall>a. a \<noteq> status_address ref_hw \<longrightarrow> a \<notin> used_area q \<longrightarrow>
        m' a = (if is_write then m else from_disk (dv_disk h) m buffer (512 * unat sector) len) a)"
    unfolding w s
    by (rule exI [of _ 0], simp only: funpow_0, rule exI, rule exI, rule conjI, rule refl)
      (use a(1) in \<open>simp add: ref_hw_def ref_ready_def frame\<close>)
qed

end
