(* ===== verification/Fat32.thy ===== *)
theory Fat32
  imports Virtio_Driver
begin

text \<open>
  The FAT32 file system of \<open>src/src/fat32.rs\<close>: reading the BIOS parameter block, the file
  allocation table and the root directory at boot, searching a file by its name, and reading and
  writing file contents through the block device driver. Numbers of type \<open>u32\<close> in local
  variables are natural numbers with checked operations; a \<open>return Err(())\<close> inside a loop is
  a value of the loop's result type.
\<close>

section \<open>Checked 32-bit arithmetic\<close>

definition add32 :: "nat \<Rightarrow> nat \<Rightarrow> nat option" where
  "add32 a b = (if a + b < 2 ^ 32 then ret (a + b) else panic)"

definition sub32 :: "nat \<Rightarrow> nat \<Rightarrow> nat option" where
  "sub32 a b = (if b \<le> a then ret (a - b) else panic)"

definition mul32 :: "nat \<Rightarrow> nat \<Rightarrow> nat option" where
  "mul32 a b = (if a * b < 2 ^ 32 then ret (a * b) else panic)"

lemma add32_Some_iff [checked_simps]: "add32 a b = Some c \<longleftrightarrow> a + b < 2 ^ 32 \<and> c = a + b"
  by (auto simp: add32_def)

lemma sub32_Some_iff [checked_simps]: "sub32 a b = Some c \<longleftrightarrow> b \<le> a \<and> c = a - b"
  by (auto simp: sub32_def)

lemma mul32_Some_iff [checked_simps]: "mul32 a b = Some c \<longleftrightarrow> a * b < 2 ^ 32 \<and> c = a * b"
  by (auto simp: mul32_def)

text \<open>Integer division, which panics on a zero divisor.\<close>

definition udiv :: "usize \<Rightarrow> usize \<Rightarrow> usize option" where
  "udiv a b = (if b = 0 then panic else ret (a div b))"

lemma udiv_Some_iff [checked_simps]: "udiv a b = Some c \<longleftrightarrow> b \<noteq> 0 \<and> c = a div b"
  by (auto simp: udiv_def)

section \<open>Constants and structures\<close>

definition FAT32_SIGNATURE :: "u8 list" where
  "FAT32_SIGNATURE = [0x46, 0x41, 0x54, 0x33, 0x32, 0x20, 0x20, 0x20]"

definition BYTES_PER_SECTOR_OFFSET :: usize where "BYTES_PER_SECTOR_OFFSET = 11"
definition SECTORS_PER_CLUSTER_OFFSET :: usize where "SECTORS_PER_CLUSTER_OFFSET = 13"
definition NUM_OF_RESERVED_CLUSTER_OFFSET :: usize where "NUM_OF_RESERVED_CLUSTER_OFFSET = 14"
definition NUM_OF_FATS_OFFSET :: usize where "NUM_OF_FATS_OFFSET = 16"
definition FAT_SIZE_OFFSET :: usize where "FAT_SIZE_OFFSET = 36"
definition ROOT_CLUSTER_OFFSET :: usize where "ROOT_CLUSTER_OFFSET = 44"
definition FAT32_SIGNATURE_OFFSET :: usize where "FAT32_SIGNATURE_OFFSET = 82"
definition FAT32_ATTRIBUTE_DIRECTORY :: u8 where "FAT32_ATTRIBUTE_DIRECTORY = 0x10"
definition FAT32_ATTRIBUTE_LONG_FILE_NAME :: u8 where "FAT32_ATTRIBUTE_LONG_FILE_NAME = 0x0F"

record fat32 =
  base_lba :: usize
  lba_size :: usize
  bytes_per_sector :: u16
  sectors_per_cluster :: u8
  reserved_sectors :: u16
  fat_sectors :: u32
  number_of_fats :: u16
  fat :: usize
  root_directory_list :: usize

record file_info =
  entry_cluster :: u32
  file_size :: u32

record directory_entry =
  de_name :: "u8 list"
  de_name_extension :: "u8 list"
  de_attribute :: u8
  de_cluster_high :: u16
  de_cluster :: u16
  de_file_length :: u32

definition size_of_directory_entry :: usize where "size_of_directory_entry = 32"

definition load_directory_entry :: "byte_mem \<Rightarrow> usize \<Rightarrow> directory_entry" where
  "load_directory_entry m a = \<lparr>de_name = load_bytes m a 8, de_name_extension = load_bytes m (a + 8) 3,
     de_attribute = m (a + 11), de_cluster_high = load16 m (a + 20), de_cluster = load16 m (a + 26),
     de_file_length = load32 m (a + 28)\<rparr>"

definition get_file_size :: "file_info \<Rightarrow> usize" where
  "get_file_size f = unat (file_size f)"

section \<open>Clusters and sectors\<close>

definition cluster_to_sector :: "fat32 \<Rightarrow> nat \<Rightarrow> nat option" where
  "cluster_to_sector fs cluster = do {
     a \<leftarrow> mul32 (unat (number_of_fats fs)) (unat (fat_sectors fs));
     b \<leftarrow> add32 (unat (reserved_sectors fs)) a;
     c \<leftarrow> sub32 cluster 2;
     d \<leftarrow> mul32 c (unat (sectors_per_cluster fs));
     add32 b d }"

text \<open>The successor of a cluster in the FAT in memory, if it has one.\<close>

definition get_next_cluster :: "fat32 \<Rightarrow> byte_mem \<Rightarrow> nat \<Rightarrow> nat option" where
  "get_next_cluster fs m cluster =
     (if cluster < unat (fat_sectors fs) * unat (bytes_per_sector fs) div 4 then
        (let n = unat (load32 m (fat fs + 4 * cluster)) in
         if 2 \<le> n \<and> n < 0x0FFFFFF8 then Some n else None)
      else None)"

definition sector_address :: "fat32 \<Rightarrow> nat \<Rightarrow> u64 option" where
  "sector_address fs base_sector = do {
     a \<leftarrow> umul (base_lba fs) (lba_size fs);
     b \<leftarrow> umul base_sector (unat (bytes_per_sector fs));
     c \<leftarrow> uadd a b;
     ret (word_of_nat c) }"

definition read_sectors ::
    "'h hw \<Rightarrow> fat32 \<Rightarrow> 'h machine \<Rightarrow> usize \<Rightarrow> nat \<Rightarrow> nat \<Rightarrow> ('h machine \<times> (unit, unit) result) option" where
  "read_sectors hw fs mc buffer base_sector sectors = do {
     a \<leftarrow> sector_address fs base_sector;
     blk_read hw mc buffer a (word_of_nat sectors * ucast (bytes_per_sector fs)) }"

definition write_sectors ::
    "'h hw \<Rightarrow> fat32 \<Rightarrow> 'h machine \<Rightarrow> usize \<Rightarrow> nat \<Rightarrow> nat \<Rightarrow> ('h machine \<times> (unit, unit) result) option" where
  "write_sectors hw fs mc buffer base_sector sectors = do {
     a \<leftarrow> sector_address fs base_sector;
     blk_write hw mc buffer a (word_of_nat sectors * ucast (bytes_per_sector fs)) }"

section \<open>Mounting\<close>

definition fat32_allocate :: "'h machine \<Rightarrow> usize \<Rightarrow> usize \<Rightarrow> ('h machine \<times> usize) option" where
  "fat32_allocate mc pages align = do {
     (al, r) \<leftarrow> allocate_pages (mc_alloc mc) pages align;
     (case r of Ok a \<Rightarrow> ret (mc\<lparr>mc_alloc := al\<rparr>, a) | Err e \<Rightarrow> panic) }"

definition fat32_free :: "'h machine \<Rightarrow> usize \<Rightarrow> usize \<Rightarrow> 'h machine option" where
  "fat32_free mc address pages = do { al \<leftarrow> free_pages (mc_alloc mc) address pages; ret (mc\<lparr>mc_alloc := al\<rparr>) }"

text \<open>\<open>usize::ilog2\<close>, which panics on zero.\<close>

fun log2_floor :: "nat \<Rightarrow> nat" where
  "log2_floor n = (if n < 2 then 0 else Suc (log2_floor (n div 2)))"

definition uilog2 :: "usize \<Rightarrow> nat option" where
  "uilog2 n = (if n = 0 then panic else ret (log2_floor n))"

text \<open>\<open>bpb_address\<close> is the address of the local array \<open>bpb_buffer\<close>, which is zeroed first.\<close>

definition fat32_new ::
    "'h hw \<Rightarrow> 'h machine \<Rightarrow> usize \<Rightarrow> usize \<Rightarrow> usize \<Rightarrow> ('h machine \<times> (fat32, unit) result) option" where
  "fat32_new hw mc bpb_address lba size_of_lba = do {
     let mc = mc\<lparr>mc_mem := fill_bytes (mc_mem mc) bpb_address 0 512\<rparr>;
     base \<leftarrow> umul lba size_of_lba;
     (mc, r) \<leftarrow> blk_read hw mc bpb_address (word_of_nat base) 512;
     case r of Err e \<Rightarrow> ret (mc, Err ()) | Ok u \<Rightarrow> do {
       let m = mc_mem mc;
       if load_bytes m (bpb_address + FAT32_SIGNATURE_OFFSET) 8 \<noteq> FAT32_SIGNATURE then ret (mc, Err ())
       else do {
         let bps = load16 m (bpb_address + BYTES_PER_SECTOR_OFFSET);
         let spc = m (bpb_address + SECTORS_PER_CLUSTER_OFFSET);
         let reserved = load16 m (bpb_address + NUM_OF_RESERVED_CLUSTER_OFFSET);
         let fats = load16 m (bpb_address + NUM_OF_FATS_OFFSET);
         let sectors = load32 m (bpb_address + FAT_SIZE_OFFSET);
         let root_cluster = load32 m (bpb_address + ROOT_CLUSTER_OFFSET);
         t \<leftarrow> usub (unat sectors * unat bps) 1;
         _ \<leftarrow> usub size_of_lba 1;
         lba_aligned_fat_size \<leftarrow> uadd (uand_not t size_of_lba) size_of_lba;
         let fat_pages = lba_aligned_fat_size div 2 ^ PAGE_SHIFT + 1;
         align \<leftarrow> uilog2 size_of_lba;
         (mc, fat_buffer) \<leftarrow> fat32_allocate mc fat_pages align;
         fat_address \<leftarrow> uadd base (unat reserved * unat bps);
         (mc, r) \<leftarrow> blk_read hw mc fat_buffer (word_of_nat fat_address) (word_of_nat lba_aligned_fat_size);
         case r of Err e \<Rightarrow> do { mc \<leftarrow> fat32_free mc fat_buffer fat_pages; ret (mc, Err ()) } | Ok u \<Rightarrow> do {
           let root_directory_pages = unat spc * unat bps div 2 ^ PAGE_SHIFT + 1;
           (mc, root) \<leftarrow> fat32_allocate mc root_directory_pages align;
           let fs = \<lparr>base_lba = lba, lba_size = size_of_lba, bytes_per_sector = bps, sectors_per_cluster = spc,
             reserved_sectors = reserved, fat_sectors = sectors, number_of_fats = fats, fat = fat_buffer,
             root_directory_list = root\<rparr>;
           root_sector \<leftarrow> cluster_to_sector fs (unat root_cluster);
           (mc, r) \<leftarrow> read_sectors hw fs mc root root_sector (unat spc);
           case r of
             Err e \<Rightarrow> do {
               mc \<leftarrow> fat32_free mc root root_directory_pages;
               mc \<leftarrow> fat32_free mc fat_buffer fat_pages;
               ret (mc, Err ()) }
           | Ok u \<Rightarrow> ret (mc, Ok fs) } } } }"

section \<open>Names\<close>

text \<open>The library's check of UTF-8.\<close>

definition continuation_byte :: "u8 \<Rightarrow> bool" where
  "continuation_byte b \<longleftrightarrow> 0x80 \<le> b \<and> b \<le> 0xBF"

fun utf8_valid :: "u8 list \<Rightarrow> bool" where
  "utf8_valid [] = True"
| "utf8_valid (a # bs) =
     (if a < 0x80 then utf8_valid bs
      else if 0xC2 \<le> a \<and> a \<le> 0xDF then
        (case bs of b # cs \<Rightarrow> continuation_byte b \<and> utf8_valid cs | _ \<Rightarrow> False)
      else if 0xE0 \<le> a \<and> a \<le> 0xEF then
        (case bs of b # c # ds \<Rightarrow> continuation_byte b \<and> continuation_byte c \<and>
           (a = 0xE0 \<longrightarrow> 0xA0 \<le> b) \<and> (a = 0xED \<longrightarrow> b \<le> 0x9F) \<and> utf8_valid ds | _ \<Rightarrow> False)
      else if 0xF0 \<le> a \<and> a \<le> 0xF4 then
        (case bs of b # c # d # es \<Rightarrow> continuation_byte b \<and> continuation_byte c \<and> continuation_byte d \<and>
           (a = 0xF0 \<longrightarrow> 0x90 \<le> b) \<and> (a = 0xF4 \<longrightarrow> b \<le> 0x8F) \<and> utf8_valid es | _ \<Rightarrow> False)
      else False)"

definition SPACE :: u8 where "SPACE = 0x20"
definition DOT :: u8 where "DOT = 0x2E"

text \<open>The loops over the characters of the name and the extension; blanks are skipped.\<close>

fun copy_name :: "u8 list \<Rightarrow> u8 list \<Rightarrow> nat \<Rightarrow> (u8 list \<times> nat) option" where
  "copy_name [] buffer p = ret (buffer, p)"
| "copy_name (n # ns) buffer p =
     (if n = SPACE then copy_name ns buffer p
      else do { buffer \<leftarrow> arr_set buffer (p + 1) n; copy_name ns buffer (p + 1) })"

definition get_file_name :: "directory_entry \<Rightarrow> u8 list \<Rightarrow> u8 list option option" where
  "get_file_name e buffer = do {
     c \<leftarrow> arr_get (de_name e) 0;
     buffer \<leftarrow> arr_set buffer 0 (if c = 0x05 then 0xE5 else c);
     (buffer, p) \<leftarrow> copy_name (tl (de_name e)) buffer 0;
     let p = p + 1;
     buffer \<leftarrow> arr_set buffer p DOT;
     (buffer, p) \<leftarrow> copy_name (de_name_extension e) buffer p;
     l \<leftarrow> arr_get buffer p;
     (buffer, p) \<leftarrow> (if l = DOT then do { buffer \<leftarrow> arr_set buffer p 0; ret (buffer, p) } else ret (buffer, p + 1));
     _ \<leftarrow> rust_assert (p \<le> length buffer);
     ret (if utf8_valid (take p buffer) then Some (take p buffer) else None) }"

definition ascii_lowercase :: "u8 \<Rightarrow> u8" where
  "ascii_lowercase c = (if 0x41 \<le> c \<and> c \<le> 0x5A then c + 0x20 else c)"

text \<open>The entries that \<open>search_file\<close> and \<open>list_files\<close> pass over.\<close>

definition skipped_entry :: "directory_entry \<Rightarrow> bool" where
  "skipped_entry e \<longleftrightarrow> de_attribute e AND 0x3F = FAT32_ATTRIBUTE_LONG_FILE_NAME \<or>
     de_attribute e AND FAT32_ATTRIBUTE_DIRECTORY \<noteq> 0"

fun search_entries :: "directory_entry list \<Rightarrow> u8 list \<Rightarrow> file_info option option" where
  "search_entries [] target_name = ret None"
| "search_entries (e # es) target_name =
     (if skipped_entry e then search_entries es target_name
      else do {
        c \<leftarrow> arr_get (de_name e) 0;
        if c = 0 then ret None
        else if c = 0xE5 then search_entries es target_name
        else do {
          r \<leftarrow> get_file_name e (replicate 12 0);
          (case r of
             Some file_name \<Rightarrow>
               if file_name = target_name \<or> map ascii_lowercase file_name = target_name then
                 ret (Some \<lparr>entry_cluster = push_bit 16 (ucast (de_cluster_high e)) OR ucast (de_cluster e),
                   file_size = de_file_length e\<rparr>)
               else search_entries es target_name
           | None \<Rightarrow> search_entries es target_name) } })"

definition root_entries :: "fat32 \<Rightarrow> byte_mem \<Rightarrow> directory_entry list" where
  "root_entries fs m =
     map (\<lambda>i. load_directory_entry m (root_directory_list fs + size_of_directory_entry * i))
       [0..<unat (bytes_per_sector fs) * unat (sectors_per_cluster fs) div size_of_directory_entry]"

definition search_file :: "fat32 \<Rightarrow> byte_mem \<Rightarrow> u8 list \<Rightarrow> file_info option option" where
  "search_file fs m target_name = search_entries (root_entries fs m) target_name"

text \<open>\<open>list_files\<close> prints the names and sizes of the files; the lines are its result.\<close>

fun list_entries :: "directory_entry list \<Rightarrow> (u8 list \<times> u32) list option" where
  "list_entries [] = ret []"
| "list_entries (e # es) =
     (if skipped_entry e then list_entries es
      else do {
        c \<leftarrow> arr_get (de_name e) 0;
        if c = 0 then ret []
        else if c = 0xE5 then list_entries es
        else do {
          r \<leftarrow> get_file_name e (replicate 12 0);
          ls \<leftarrow> list_entries es;
          ret (case r of Some file_name \<Rightarrow> (file_name, de_file_length e) # ls | None \<Rightarrow> ls) } })"

definition list_files :: "fat32 \<Rightarrow> byte_mem \<Rightarrow> (u8 list \<times> u32) list option" where
  "list_files fs m = list_entries (root_entries fs m)"

section \<open>File contents\<close>

text \<open>The local variables of the inner loop of \<open>read\<close> and of \<open>write\<close>.\<close>

record cluster_run =
  run_sectors :: nat
  run_bytes :: usize
  run_sector_offset :: nat
  run_cluster :: nat
  run_data_offset :: usize
  run_data_offset_backup :: usize

datatype run_outcome = Run_Err | Run_Done cluster_run | Run_More cluster_run

text \<open>Sectors to skip at the start.\<close>

definition skip_sectors :: "fat32 \<Rightarrow> cluster_run \<Rightarrow> cluster_run option" where
  "skip_sectors fs r =
     (if unat (bytes_per_sector fs) < run_data_offset r then do {
        s \<leftarrow> udiv (run_data_offset r) (unat (bytes_per_sector fs));
        let s = s mod 2 ^ 32;
        d \<leftarrow> usub (run_data_offset r) (s * unat (bytes_per_sector fs));
        ret (r\<lparr>run_sector_offset := s, run_data_offset := d, run_data_offset_backup := d\<rparr>) }
      else ret r)"

text \<open>One round of the inner loop: the rest of the request, or a whole cluster.\<close>

definition run_step :: "fat32 \<Rightarrow> byte_mem \<Rightarrow> usize \<Rightarrow> usize \<Rightarrow> cluster_run \<Rightarrow> run_outcome option" where
  "run_step fs m len bpc r = do {
     r \<leftarrow> skip_sectors fs r;
     t \<leftarrow> usub len (run_bytes r);
     rest \<leftarrow> uadd t (run_data_offset r);
     if rest \<le> bpc then do {
       q \<leftarrow> udiv (max rest 1 - 1) (unat (bytes_per_sector fs));
       s \<leftarrow> add32 (run_sectors r) ((1 + q) mod 2 ^ 32);
       ret (Run_Done (r\<lparr>run_sectors := s, run_bytes := run_bytes r + t\<rparr>)) }
     else do {
       s \<leftarrow> add32 (run_sectors r) (unat (sectors_per_cluster fs));
       b \<leftarrow> usub bpc (run_data_offset r);
       b \<leftarrow> uadd (run_bytes r) b;
       let r = r\<lparr>run_sectors := s, run_bytes := b\<rparr>;
       case get_next_cluster fs m (run_cluster r) of
         None \<Rightarrow> ret Run_Err
       | Some next_cluster \<Rightarrow> do {
           c \<leftarrow> add32 (run_cluster r) 1;
           ret (if next_cluster \<noteq> c then Run_Done r
                else Run_More (r\<lparr>run_data_offset := 0, run_cluster := next_cluster\<rparr>)) } } }"

partial_function (option) read_run ::
    "fat32 \<Rightarrow> byte_mem \<Rightarrow> usize \<Rightarrow> usize \<Rightarrow> cluster_run \<Rightarrow> (cluster_run, unit) result option" where
  "read_run fs m len bpc r = do {
     q \<leftarrow> run_step fs m len bpc r;
     (case q of
        Run_Err \<Rightarrow> ret (Err ())
      | Run_Done r \<Rightarrow> ret (Ok r)
      | Run_More r \<Rightarrow> read_run fs m len bpc r) }"

partial_function (option) write_run ::
    "fat32 \<Rightarrow> byte_mem \<Rightarrow> usize \<Rightarrow> usize \<Rightarrow> cluster_run \<Rightarrow> (cluster_run, unit) result option" where
  "write_run fs m len bpc r = do {
     t \<leftarrow> usub len (run_bytes r);
     if t < unat (bytes_per_sector fs) then ret (Err ())
     else do {
       q \<leftarrow> run_step fs m len bpc r;
       (case q of
          Run_Err \<Rightarrow> ret (Err ())
        | Run_Done r \<Rightarrow> ret (Ok r)
        | Run_More r \<Rightarrow> write_run fs m len bpc r) } }"

definition start_run :: "nat \<Rightarrow> usize \<Rightarrow> cluster_run" where
  "start_run cluster data_offset = \<lparr>run_sectors = 0, run_bytes = 0, run_sector_offset = 0, run_cluster = cluster,
     run_data_offset = data_offset, run_data_offset_backup = data_offset\<rparr>"

text \<open>The clusters in front of the offset.\<close>

primrec skip_clusters :: "fat32 \<Rightarrow> byte_mem \<Rightarrow> nat \<Rightarrow> nat \<Rightarrow> nat option" where
  "skip_clusters fs m 0 cluster = Some cluster"
| "skip_clusters fs m (Suc n) cluster =
     (case get_next_cluster fs m cluster of Some c \<Rightarrow> skip_clusters fs m n c | None \<Rightarrow> None)"

text \<open>
  One round of the outer loop of \<open>read\<close>: the sectors of a run are read, directly into the
  destination when the data starts at a sector boundary, through a temporary buffer otherwise.
\<close>

definition read_sectors_of_run ::
    "'h hw \<Rightarrow> fat32 \<Rightarrow> 'h machine \<Rightarrow> usize \<Rightarrow> usize \<Rightarrow> nat \<Rightarrow> cluster_run \<Rightarrow>
     ('h machine \<times> (unit, unit) result) option" where
  "read_sectors_of_run hw fs mc buffer_address buffer_pointer first_cluster r = do {
     let data_offset = run_data_offset_backup r;
     _ \<leftarrow> usub (lba_size fs) 1;
     aligned_buffer_size \<leftarrow> uadd (uand_not (run_sectors r * unat (bytes_per_sector fs)) (lba_size fs)) (lba_size fs);
     let pages = aligned_buffer_size div 2 ^ PAGE_SHIFT + 1;
     (al, b) \<leftarrow> (if data_offset \<noteq> 0 then allocate_pages (mc_alloc mc) pages 0
       else do { b \<leftarrow> uadd buffer_address buffer_pointer; ret (mc_alloc mc, Ok b) });
     let mc = mc\<lparr>mc_alloc := al\<rparr>;
     case b of Err e \<Rightarrow> ret (mc, Err ()) | Ok buffer \<Rightarrow> do {
       s \<leftarrow> cluster_to_sector fs first_cluster;
       sector \<leftarrow> add32 s (run_sector_offset r);
       (mc, q) \<leftarrow> read_sectors hw fs mc buffer sector (run_sectors r);
       case q of
         Err e \<Rightarrow> do {
           mc \<leftarrow> (if data_offset \<noteq> 0 then fat32_free mc buffer pages else ret mc);
           ret (mc, Err ()) }
       | Ok u \<Rightarrow>
           if data_offset \<noteq> 0 then do {
             _ \<leftarrow> rust_assert (buffer_pointer = 0);
             from \<leftarrow> uadd buffer data_offset;
             let mc = mc\<lparr>mc_mem := copy_bytes (mc_mem mc) from buffer_address (run_bytes r)\<rparr>;
             mc \<leftarrow> fat32_free mc buffer pages;
             ret (mc, Ok ()) }
           else ret (mc, Ok ()) } }"

partial_function (option) read_loop ::
    "'h hw \<Rightarrow> fat32 \<Rightarrow> usize \<Rightarrow> usize \<Rightarrow> usize \<Rightarrow> 'h machine \<Rightarrow> nat \<Rightarrow> usize \<Rightarrow> usize \<Rightarrow>
     ('h machine \<times> (usize, unit) result) option" where
  "read_loop hw fs buffer_address len bpc mc cluster data_offset buffer_pointer = do {
     q \<leftarrow> read_run fs (mc_mem mc) len bpc (start_run cluster data_offset);
     case q of Err e \<Rightarrow> ret (mc, Err ()) | Ok r \<Rightarrow> do {
       (mc, q) \<leftarrow> read_sectors_of_run hw fs mc buffer_address buffer_pointer cluster r;
       case q of Err e \<Rightarrow> ret (mc, Err ()) | Ok u \<Rightarrow> do {
         buffer_pointer \<leftarrow> uadd buffer_pointer (run_bytes r);
         if len = buffer_pointer then ret (mc, Ok buffer_pointer)
         else (case get_next_cluster fs (mc_mem mc) (run_cluster r) of
             None \<Rightarrow> ret (mc, Err ())
           | Some c \<Rightarrow> read_loop hw fs buffer_address len bpc mc c 0 buffer_pointer) } } }"

text \<open>The length clipped to the file; \<open>None\<close> past its end.\<close>

definition clip_length :: "file_info \<Rightarrow> usize \<Rightarrow> usize \<Rightarrow> usize option option" where
  "clip_length f offset len = do {
     e \<leftarrow> uadd offset len;
     ret (if unat (file_size f) < e then
            if unat (file_size f) \<le> offset then None else Some (unat (file_size f) - offset)
          else Some len) }"

definition bytes_per_cluster :: "fat32 \<Rightarrow> usize" where
  "bytes_per_cluster fs = unat (sectors_per_cluster fs) * unat (bytes_per_sector fs)"

definition fat32_read ::
    "'h hw \<Rightarrow> fat32 \<Rightarrow> file_info \<Rightarrow> 'h machine \<Rightarrow> usize \<Rightarrow> usize \<Rightarrow> usize \<Rightarrow>
     ('h machine \<times> (usize, unit) result) option" where
  "fat32_read hw fs f mc buffer_address offset len = do {
     l \<leftarrow> clip_length f offset len;
     case l of None \<Rightarrow> ret (mc, Ok 0) | Some len \<Rightarrow> do {
       clusters_to_skip \<leftarrow> udiv offset (bytes_per_cluster fs);
       let data_offset = offset - clusters_to_skip * bytes_per_cluster fs;
       case skip_clusters fs (mc_mem mc) clusters_to_skip (unat (entry_cluster f)) of
         None \<Rightarrow> ret (mc, Err ())
       | Some c \<Rightarrow> read_loop hw fs buffer_address len (bytes_per_cluster fs) mc c data_offset 0 } }"

text \<open>The outer loop of \<open>write\<close>: only data that starts at a sector boundary is written.\<close>

partial_function (option) write_loop ::
    "'h hw \<Rightarrow> fat32 \<Rightarrow> usize \<Rightarrow> usize \<Rightarrow> usize \<Rightarrow> 'h machine \<Rightarrow> nat \<Rightarrow> usize \<Rightarrow> usize \<Rightarrow>
     ('h machine \<times> (usize, unit) result) option" where
  "write_loop hw fs buffer_address len bpc mc cluster data_offset buffer_pointer = do {
     q \<leftarrow> write_run fs (mc_mem mc) len bpc (start_run cluster data_offset);
     case q of Err e \<Rightarrow> ret (mc, Err ()) | Ok r \<Rightarrow>
       if run_data_offset_backup r \<noteq> 0 then ret (mc, Err ())
       else do {
         s \<leftarrow> cluster_to_sector fs cluster;
         sector \<leftarrow> add32 s (run_sector_offset r);
         b \<leftarrow> uadd buffer_address buffer_pointer;
         (mc, q) \<leftarrow> write_sectors hw fs mc b sector (run_sectors r);
         case q of Err e \<Rightarrow> ret (mc, Err ()) | Ok u \<Rightarrow> do {
           buffer_pointer \<leftarrow> uadd buffer_pointer (run_bytes r);
           if len = buffer_pointer then ret (mc, Ok buffer_pointer)
           else (case get_next_cluster fs (mc_mem mc) (run_cluster r) of
               None \<Rightarrow> ret (mc, Err ())
             | Some c \<Rightarrow> write_loop hw fs buffer_address len bpc mc c 0 buffer_pointer) } } }"

definition fat32_write ::
    "'h hw \<Rightarrow> fat32 \<Rightarrow> file_info \<Rightarrow> 'h machine \<Rightarrow> usize \<Rightarrow> usize \<Rightarrow> usize \<Rightarrow>
     ('h machine \<times> (usize, unit) result) option" where
  "fat32_write hw fs f mc buffer_address offset len = do {
     l \<leftarrow> clip_length f offset len;
     case l of None \<Rightarrow> ret (mc, Ok 0) | Some len \<Rightarrow> do {
       clusters_to_skip \<leftarrow> udiv offset (bytes_per_cluster fs);
       let data_offset = offset - clusters_to_skip * bytes_per_cluster fs;
       case skip_clusters fs (mc_mem mc) clusters_to_skip (unat (entry_cluster f)) of
         None \<Rightarrow> ret (mc, Err ())
       | Some c \<Rightarrow> write_loop hw fs buffer_address len (bytes_per_cluster fs) mc c data_offset 0 } }"

end
