(* ===== verification/Fat32_Read.thy ===== *)
theory Fat32_Read
  imports Blk_Device Fat32
begin

text \<open>
  Reading of file contents, under the contract of the block device. The clusters that a request
  touches have to be consecutive; \<open>Fat32_Write\<close> shows what the code does on a fragmented file.
\<close>

section \<open>The inner loop\<close>

definition contiguous :: "fat32 \<Rightarrow> byte_mem \<Rightarrow> nat \<Rightarrow> nat \<Rightarrow> bool" where
  "contiguous fs m c n \<longleftrightarrow> (\<forall>i < n. get_next_cluster fs m (c + i) = Some (c + i + 1))"

abbreviation bps :: "fat32 \<Rightarrow> nat" where
  "bps fs \<equiv> unat (bytes_per_sector fs)"

abbreviation spc :: "fat32 \<Rightarrow> nat" where
  "spc fs \<equiv> unat (sectors_per_cluster fs)"

text \<open>The number of sectors that \<open>n\<close> bytes take, at least one.\<close>

definition sectors_for :: "fat32 \<Rightarrow> nat \<Rightarrow> nat" where
  "sectors_for fs n = 1 + (max n 1 - 1) div bps fs"

lemma contiguous_Suc:
  "contiguous fs m c (Suc n) \<Longrightarrow> get_next_cluster fs m c = Some (Suc c) \<and> contiguous fs m (Suc c) n"
  unfolding contiguous_def by (metis Suc_less_eq add.right_neutral add_Suc add_Suc_right plus_1_eq_Suc add.commute zero_less_Suc)

lemma sectors_for_cluster:
  assumes "0 < bps fs" "bytes_per_cluster fs < n"
  shows "sectors_for fs n = spc fs + sectors_for fs (n - bytes_per_cluster fs)"
proof -
  have "n - 1 = (n - bytes_per_cluster fs - 1) + spc fs * bps fs"
    using assms(2) unfolding bytes_per_cluster_def by linarith
  then have "(n - 1) div bps fs = (n - bytes_per_cluster fs - 1) div bps fs + spc fs" using assms(1) by simp
  then show ?thesis using assms(2) by (auto simp: sectors_for_def max_def)
qed

lemma skip_sectors_small: "run_data_offset r \<le> bps fs \<Longrightarrow> skip_sectors fs r = Some r"
  by (simp add: skip_sectors_def)

text \<open>The run covers the whole request when the clusters are consecutive.\<close>

definition run_end :: "fat32 \<Rightarrow> usize \<Rightarrow> cluster_run \<Rightarrow> cluster_run \<Rightarrow> bool" where
  "run_end fs len r r' \<longleftrightarrow> run_bytes r' = len \<and>
     run_sectors r' = run_sectors r + sectors_for fs (len - run_bytes r + run_data_offset r) \<and>
     run_sector_offset r' = run_sector_offset r \<and> run_data_offset_backup r' = run_data_offset_backup r"

lemma bps_less: "bps fs < 2 ^ 16"
  using unsigned_less [where ?'a = nat and w = "bytes_per_sector fs"] by simp

lemma cluster_ge_sector: "0 < spc fs \<Longrightarrow> bps fs \<le> bytes_per_cluster fs"
  unfolding bytes_per_cluster_def by simp

lemma run_step_last:
  assumes "0 < bps fs" "run_data_offset r \<le> bps fs" "run_bytes r \<le> len" "len < 2 ^ 32"
    and "len - run_bytes r + run_data_offset r \<le> bytes_per_cluster fs"
    and "run_sectors r + sectors_for fs (len - run_bytes r + run_data_offset r) < 2 ^ 32"
  shows "run_step fs m len (bytes_per_cluster fs) r =
    Some (Run_Done (r\<lparr>run_sectors := run_sectors r + sectors_for fs (len - run_bytes r + run_data_offset r), run_bytes := len\<rparr>))"
proof -
  have "len - run_bytes r + run_data_offset r < usize_range"
    using assms(2,4) bps_less [of fs] by (simp add: usize_range_def)
  with assms show ?thesis
    by (simp add: run_step_def skip_sectors_small usub_def uadd_def udiv_def add32_def sectors_for_def Let_def)
qed

lemma run_step_more:
  assumes "0 < bps fs" "0 < spc fs" "run_data_offset r \<le> bps fs" "run_bytes r \<le> len" "len < 2 ^ 32"
    and "bytes_per_cluster fs < len - run_bytes r + run_data_offset r"
    and "run_sectors r + spc fs < 2 ^ 32" "get_next_cluster fs m (run_cluster r) = Some (Suc (run_cluster r))"
    and "Suc (run_cluster r) < 2 ^ 32"
  shows "run_step fs m len (bytes_per_cluster fs) r =
    Some (Run_More (r\<lparr>run_sectors := run_sectors r + spc fs, run_bytes := run_bytes r + (bytes_per_cluster fs - run_data_offset r),
      run_data_offset := 0, run_cluster := Suc (run_cluster r)\<rparr>))"
proof -
  have "len - run_bytes r + run_data_offset r < usize_range"
    using assms(3,5) bps_less [of fs] by (simp add: usize_range_def)
  moreover have "run_data_offset r \<le> bytes_per_cluster fs"
    using assms(3) cluster_ge_sector [OF assms(2)] by (rule le_trans)
  moreover have "run_bytes r + (bytes_per_cluster fs - run_data_offset r) < usize_range"
    using assms(4-6) by (simp add: usize_range_def)
  ultimately show ?thesis using assms
    by (simp add: run_step_def skip_sectors_small usub_def uadd_def add32_def Let_def)
qed

lemma read_run_contiguous:
  assumes "0 < bps fs" "0 < spc fs" "run_data_offset r \<le> bps fs" "run_bytes r \<le> len" "len < 2 ^ 32"
    and "contiguous fs m (run_cluster r) n" "len - run_bytes r + run_data_offset r \<le> (n + 1) * bytes_per_cluster fs"
    and "run_cluster r + n < 2 ^ 32" "run_sectors r + sectors_for fs (len - run_bytes r + run_data_offset r) < 2 ^ 32"
  shows "\<exists>r'. read_run fs m len (bytes_per_cluster fs) r = Some (Ok r') \<and> run_end fs len r r'"
  using assms(3-)
proof (induction n arbitrary: r)
  case 0
  then have "run_step fs m len (bytes_per_cluster fs) r = Some (Run_Done (r\<lparr>run_sectors := run_sectors r +
      sectors_for fs (len - run_bytes r + run_data_offset r), run_bytes := len\<rparr>))"
    using assms(1) by (intro run_step_last) simp_all
  then show ?case by (simp add: read_run.simps [of fs m len] run_end_def)
next
  case (Suc n)
  let ?T = "len - run_bytes r + run_data_offset r" and ?B = "bytes_per_cluster fs"
  show ?case
  proof (cases "?T \<le> ?B")
    case True
    with Suc.prems have "run_step fs m len ?B r = Some (Run_Done (r\<lparr>run_sectors := run_sectors r +
        sectors_for fs ?T, run_bytes := len\<rparr>))"
      using assms(1) by (intro run_step_last) simp_all
    then show ?thesis by (simp add: read_run.simps [of fs m len] run_end_def)
  next
    case False
    let ?r = "r\<lparr>run_sectors := run_sectors r + spc fs, run_bytes := run_bytes r + (?B - run_data_offset r),
      run_data_offset := 0, run_cluster := Suc (run_cluster r)\<rparr>"
    note c = contiguous_Suc [OF Suc.prems(4)]
    have sec: "sectors_for fs ?T = spc fs + sectors_for fs (?T - ?B)" using assms(1) False by (intro sectors_for_cluster) simp_all
    have "run_step fs m len ?B r = Some (Run_More ?r)"
      using assms(1,2) Suc.prems c False sec by (intro run_step_more) simp_all
    then have "read_run fs m len ?B r = read_run fs m len ?B ?r" by (simp add: read_run.simps [of fs m len ?B r])
    moreover have "run_data_offset r \<le> ?B" using Suc.prems(1) cluster_ge_sector [OF assms(2)] by (rule le_trans)
    then have T: "len - run_bytes ?r + run_data_offset ?r = ?T - ?B" "run_bytes ?r \<le> len" using False Suc.prems(2) by simp_all
    moreover have "\<exists>r'. read_run fs m len ?B ?r = Some (Ok r') \<and> run_end fs len ?r r'"
    proof (rule Suc.IH)
      have "(Suc n + 1) * ?B = (n + 1) * ?B + ?B" by simp
      with Suc.prems(5) have "?T - ?B \<le> (n + 1) * ?B" by linarith
      then show "len - run_bytes ?r + run_data_offset ?r \<le> (n + 1) * ?B" unfolding T(1) .
      show "run_sectors ?r + sectors_for fs (len - run_bytes ?r + run_data_offset ?r) < 2 ^ 32"
        unfolding T(1) using Suc.prems(7) sec by simp
    qed (use Suc.prems(3,6) c T(2) in simp_all)
    ultimately show ?thesis using sec by (auto simp: run_end_def)
  qed
qed

text \<open>The sectors in front of the data within its cluster, and the offset of the data in its sector.\<close>

definition skipped_sectors :: "fat32 \<Rightarrow> nat \<Rightarrow> nat" where
  "skipped_sectors fs d = (if bps fs < d then d div bps fs else 0)"

definition offset_in_sector :: "fat32 \<Rightarrow> nat \<Rightarrow> nat" where
  "offset_in_sector fs d = d - skipped_sectors fs d * bps fs"

lemma offset_split: "skipped_sectors fs d * bps fs + offset_in_sector fs d = d"
  unfolding offset_in_sector_def skipped_sectors_def by (simp add: div_times_less_eq_dividend)

text \<open>The code uses the buffer directly exactly for a multiple of the sector size, except that of
  exactly one sector into a cluster, which its strict comparison leaves to the other case.\<close>

lemma offset_in_sector_zero:
  assumes "0 < bps fs"
  shows "offset_in_sector fs (off mod bytes_per_cluster fs) = 0 \<longleftrightarrow> bps fs dvd off \<and> off mod bytes_per_cluster fs \<noteq> bps fs"
proof -
  define d where "d = off mod bytes_per_cluster fs"
  have dvd: "bps fs dvd off \<longleftrightarrow> bps fs dvd d" unfolding d_def bytes_per_cluster_def by (rule dvd_mod_iff [symmetric]) simp
  show ?thesis
  proof (cases "bps fs < d")
    case True
    then have "offset_in_sector fs d = d mod bps fs"
      by (simp add: offset_in_sector_def skipped_sectors_def minus_div_mult_eq_mod)
    with True show ?thesis unfolding d_def [symmetric] dvd by (simp add: dvd_eq_mod_eq_0)
  next
    case False
    then have "offset_in_sector fs d = d" by (simp add: offset_in_sector_def skipped_sectors_def)
    moreover have "d = 0 \<longleftrightarrow> bps fs dvd d \<and> d \<noteq> bps fs" using False assms dvd_imp_le [of "bps fs" d] by auto
    ultimately show ?thesis unfolding d_def [symmetric] dvd by simp
  qed
qed

lemma offset_in_sector_le:
  assumes "0 < bps fs"
  shows "offset_in_sector fs d \<le> bps fs"
  using mod_less_divisor [OF assms, of d]
  by (simp add: offset_in_sector_def skipped_sectors_def minus_div_mult_eq_mod)

lemma sectors_for_bounds:
  assumes "0 < bps fs" "0 < n"
  shows "n \<le> sectors_for fs n * bps fs" "bps fs dvd x \<Longrightarrow> n \<le> x \<Longrightarrow> sectors_for fs n * bps fs \<le> x"
proof -
  have n: "sectors_for fs n = Suc ((n - 1) div bps fs)" using assms(2) by (simp add: sectors_for_def max_def)
  have "n - 1 < Suc ((n - 1) div bps fs) * bps fs" by (simp add: assms(1) dividend_less_div_times)
  then show "n \<le> sectors_for fs n * bps fs" unfolding n by linarith
  assume "bps fs dvd x" "n \<le> x"
  then obtain k where k: "x = k * bps fs" by (metis dvdE mult.commute)
  have "(n - 1) div bps fs < k" using \<open>n \<le> x\<close> assms k by (simp add: div_less_iff_less_mult)
  then show "sectors_for fs n * bps fs \<le> x" unfolding n k by (intro mult_le_mono1) simp
qed

lemma run_sectors_within:
  assumes "0 < bps fs" "0 < len" "d + len \<le> k * bytes_per_cluster fs"
  shows "(skipped_sectors fs d + sectors_for fs (len + offset_in_sector fs d)) * bps fs \<le> k * bytes_per_cluster fs"
proof -
  have "len + offset_in_sector fs d \<le> k * bytes_per_cluster fs - skipped_sectors fs d * bps fs"
    using offset_split [of fs d] assms(3) by linarith
  moreover have "bps fs dvd k * bytes_per_cluster fs - skipped_sectors fs d * bps fs"
    by (simp add: bytes_per_cluster_def)
  ultimately have "sectors_for fs (len + offset_in_sector fs d) * bps fs \<le> k * bytes_per_cluster fs - skipped_sectors fs d * bps fs"
    using sectors_for_bounds(2) [OF assms(1), of "len + offset_in_sector fs d"] assms(2) by simp
  moreover have "skipped_sectors fs d * bps fs \<le> k * bytes_per_cluster fs"
    using offset_split [of fs d] assms(3) by linarith
  ultimately show ?thesis unfolding add_mult_distrib by linarith
qed

definition skipped_run :: "fat32 \<Rightarrow> cluster_run \<Rightarrow> cluster_run" where
  "skipped_run fs r = (let d = run_data_offset r in
     if bps fs < d then r\<lparr>run_sector_offset := skipped_sectors fs d, run_data_offset := offset_in_sector fs d,
       run_data_offset_backup := offset_in_sector fs d\<rparr> else r)"

lemma skip_sectors_run:
  assumes "0 < bps fs" "run_data_offset r < 2 ^ 32"
  shows "skip_sectors fs r = Some (skipped_run fs r)" "skip_sectors fs (skipped_run fs r) = Some (skipped_run fs r)"
proof -
  have "run_data_offset r div bps fs < 2 ^ 32" using assms(2) div_le_dividend le_less_trans by blast
  then have "run_data_offset r div bps fs mod 2 ^ 32 = run_data_offset r div bps fs" by (rule mod_less)
  then show "skip_sectors fs r = Some (skipped_run fs r)" using assms(1)
    by (simp add: skip_sectors_def skipped_run_def udiv_def usub_def skipped_sectors_def offset_in_sector_def Let_def
        div_times_less_eq_dividend)
  show "skip_sectors fs (skipped_run fs r) = Some (skipped_run fs r)"
  proof (rule skip_sectors_small)
    show "run_data_offset (skipped_run fs r) \<le> bps fs"
      using offset_in_sector_le [OF assms(1)] by (simp add: skipped_run_def Let_def)
  qed
qed

lemma run_step_skipped:
  assumes "0 < bps fs" "run_data_offset r < 2 ^ 32"
  shows "run_step fs m len bpc r = run_step fs m len bpc (skipped_run fs r)"
  unfolding run_step_def skip_sectors_run [OF assms] by (rule refl)

text \<open>The run that the inner loop finds for a request of \<open>len\<close> bytes at \<open>d\<close> in cluster \<open>c\<close>.\<close>

definition found_run :: "fat32 \<Rightarrow> nat \<Rightarrow> usize \<Rightarrow> cluster_run \<Rightarrow> bool" where
  "found_run fs d len r \<longleftrightarrow> run_bytes r = len \<and> run_sectors r = sectors_for fs (len + offset_in_sector fs d) \<and>
     run_sector_offset r = skipped_sectors fs d \<and> run_data_offset_backup r = offset_in_sector fs d"

lemma start_skipped:
  "skipped_run fs (start_run c d) = \<lparr>run_sectors = 0, run_bytes = 0, run_sector_offset = skipped_sectors fs d, run_cluster = c,
     run_data_offset = offset_in_sector fs d, run_data_offset_backup = offset_in_sector fs d\<rparr>"
  by (simp add: skipped_run_def start_run_def skipped_sectors_def offset_in_sector_def Let_def)

lemma start_run_found:
  assumes "0 < bps fs" "0 < spc fs" "0 < len" "(n + 1) * bytes_per_cluster fs < 2 ^ 32" "c + n < 2 ^ 32"
    and "contiguous fs m c n" "d + len \<le> (n + 1) * bytes_per_cluster fs"
  shows "\<exists>r. read_run fs m len (bytes_per_cluster fs) (start_run c d) = Some (Ok r) \<and> found_run fs d len r"
proof -
  let ?r = "skipped_run fs (start_run c d)"
  have d: "d < 2 ^ 32" "len < 2 ^ 32" using assms(4,7) by linarith+
  then have "run_data_offset (start_run c d) < 2 ^ 32" by (simp add: start_run_def)
  then have eq: "read_run fs m len (bytes_per_cluster fs) (start_run c d) = read_run fs m len (bytes_per_cluster fs) ?r"
    by (simp add: read_run.simps [of fs m len] run_step_skipped [OF assms(1)])
  have o: "offset_in_sector fs d \<le> d" using offset_split [of fs d] by linarith
  have "sectors_for fs (len + offset_in_sector fs d) * bps fs < 2 ^ 32"
    using run_sectors_within [OF assms(1,3,7)] assms(4) unfolding add_mult_distrib by linarith
  moreover have "sectors_for fs (len + offset_in_sector fs d) \<le> sectors_for fs (len + offset_in_sector fs d) * bps fs"
    using assms(1) by simp
  ultimately have "sectors_for fs (len + offset_in_sector fs d) < 2 ^ 32" by linarith
  then have "\<exists>r'. read_run fs m len (bytes_per_cluster fs) ?r = Some (Ok r') \<and> run_end fs len ?r r'"
    using assms o offset_in_sector_le [OF assms(1), of d] d(2)
    by (intro read_run_contiguous [of fs ?r len m n]) (simp_all add: start_skipped)
  then show ?thesis unfolding eq by (auto simp: run_end_def found_run_def start_skipped)
qed

section \<open>Positions on the disk\<close>

definition first_sector :: "fat32 \<Rightarrow> nat \<Rightarrow> nat" where
  "first_sector fs c = unat (reserved_sectors fs) + unat (number_of_fats fs) * unat (fat_sectors fs) + (c - 2) * spc fs"

definition cluster_position :: "fat32 \<Rightarrow> nat \<Rightarrow> nat" where
  "cluster_position fs c = base_lba fs * lba_size fs + first_sector fs c * bps fs"

text \<open>Where byte \<open>p\<close> of a file is on the disk: the cluster chain of the file followed from its entry.\<close>

definition file_position :: "fat32 \<Rightarrow> byte_mem \<Rightarrow> file_info \<Rightarrow> nat \<Rightarrow> nat option" where
  "file_position fs m f p =
     map_option (\<lambda>c. cluster_position fs c + p mod bytes_per_cluster fs)
       (skip_clusters fs m (p div bytes_per_cluster fs) (unat (entry_cluster f)))"

text \<open>The file system has sectors of whole disk blocks, and the clusters \<open>c..c + n\<close> are on the disk.\<close>

definition mounted :: "fat32 \<Rightarrow> bool" where
  "mounted fs \<longleftrightarrow> 0 < bps fs \<and> 0 < spc fs \<and> 512 dvd bps fs \<and> 512 dvd base_lba fs * lba_size fs \<and>
     (\<exists>e < 32. lba_size fs = 2 ^ e)"

definition on_disk :: "fat32 \<Rightarrow> nat \<Rightarrow> nat \<Rightarrow> nat \<Rightarrow> bool" where
  "on_disk fs capacity c n \<longleftrightarrow> 2 \<le> c \<and> c + n + 1 < 2 ^ 32 \<and> first_sector fs (c + n + 1) < 2 ^ 32 \<and>
     cluster_position fs (c + n + 1) \<le> capacity \<and> capacity < 2 ^ 64 \<and> (n + 1) * bytes_per_cluster fs < 2 ^ 32"

lemma skip_clusters_add:
  "skip_clusters fs m (a + b) c = Option.bind (skip_clusters fs m a c) (skip_clusters fs m b)"
  by (induction a arbitrary: c) (auto split: option.splits)

lemma skip_clusters_contiguous: "contiguous fs m c n \<Longrightarrow> k \<le> n \<Longrightarrow> skip_clusters fs m k c = Some (c + k)"
proof (induction k arbitrary: c n)
  case (Suc k)
  then obtain n' where n: "n = Suc n'" by (cases n) simp_all
  from contiguous_Suc [OF Suc.prems(1) [unfolded n]] Suc n show ?case by auto
qed simp

lemma first_sector_add: "2 \<le> c \<Longrightarrow> first_sector fs (c + k) = first_sector fs c + k * spc fs"
  by (simp add: first_sector_def add_mult_distrib [symmetric])

lemma cluster_position_add: "2 \<le> c \<Longrightarrow> cluster_position fs (c + k) = cluster_position fs c + k * bytes_per_cluster fs"
  by (simp add: cluster_position_def first_sector_add add_mult_distrib bytes_per_cluster_def)

text \<open>On consecutive clusters the bytes of the file are consecutive on the disk.\<close>

lemma file_position_contiguous:
  assumes "0 < bytes_per_cluster fs" "2 \<le> c"
    and "skip_clusters fs m (off div bytes_per_cluster fs) (unat (entry_cluster f)) = Some c"
    and "contiguous fs m c n" "off mod bytes_per_cluster fs + j < (n + 1) * bytes_per_cluster fs"
  shows "file_position fs m f (off + j) = Some (cluster_position fs c + off mod bytes_per_cluster fs + j)"
proof -
  let ?B = "bytes_per_cluster fs" and ?e = "off mod bytes_per_cluster fs + j"
  have eq: "off + j = off div ?B * ?B + ?e" by (simp add: div_mult_mod_eq)
  have "(off + j) div ?B = off div ?B + ?e div ?B"
    unfolding eq using assms(1) by (subst div_mult_self3) simp_all
  moreover have "(off + j) mod ?B = ?e mod ?B" by (subst eq) (rule mod_mult_self3)
  moreover have "?e div ?B \<le> n" using assms(1,5) by (metis Suc_eq_plus1 less_Suc_eq_le less_mult_imp_div_less)
  ultimately show ?thesis using assms(2,3) skip_clusters_contiguous [OF assms(4)] cluster_position_add [OF assms(2)]
    by (simp add: file_position_def skip_clusters_add mult.commute [of "?e div ?B"] add.assoc)
qed

lemma cluster_to_sector_ok:
  assumes "2 \<le> c" "first_sector fs c + k < 2 ^ 32"
  shows "cluster_to_sector fs c = Some (first_sector fs c)"
  using assms unfolding cluster_to_sector_def first_sector_def
  by (simp add: mul32_def add32_def sub32_def)

lemma sector_address_ok:
  assumes "base_lba fs * lba_size fs + s * bps fs < 2 ^ 64"
  shows "sector_address fs s = Some (word_of_nat (base_lba fs * lba_size fs + s * bps fs))"
  using assms by (simp add: sector_address_def umul_def uadd_def usize_range_def)

lemma sectors_length: "word_of_nat k * ucast (bytes_per_sector fs) = (word_of_nat (k * bps fs) :: u64)"
  by (simp add: unsigned_ucast_eq)

text \<open>The request as a range of sectors: what \<open>on_disk\<close> gives for the sectors of a run.\<close>

lemma run_sectors_on_disk:
  assumes "mounted fs" "on_disk fs capacity c n" "0 < len" "d + len \<le> (n + 1) * bytes_per_cluster fs"
  defines "s \<equiv> skipped_sectors fs d" and "k \<equiv> sectors_for fs (len + offset_in_sector fs d)"
  shows "k * bps fs < 2 ^ 32" "cluster_position fs c + (s + k) * bps fs \<le> capacity" "first_sector fs c + s < 2 ^ 32"
proof -
  have c: "2 \<le> c" and b: "0 < bps fs" using assms(1,2) by (simp_all add: mounted_def on_disk_def)
  note w = run_sectors_within [OF b assms(3,4), folded s_def k_def]
  then show "k * bps fs < 2 ^ 32" using assms(2) unfolding on_disk_def add_mult_distrib by linarith
  have "cluster_position fs (c + (n + 1)) \<le> capacity" using assms(2) by (simp add: on_disk_def)
  then show "cluster_position fs c + (s + k) * bps fs \<le> capacity" using w unfolding cluster_position_add [OF c] by linarith
  have "(s + k) * bps fs \<le> (n + 1) * spc fs * bps fs" using w by (simp only: bytes_per_cluster_def mult.assoc)
  then have "s + k \<le> (n + 1) * spc fs" using b by simp
  moreover have "first_sector fs (c + (n + 1)) < 2 ^ 32" using assms(2) by (simp add: on_disk_def)
  ultimately show "first_sector fs c + s < 2 ^ 32" unfolding first_sector_add [OF c] by linarith
qed

section \<open>Requests for sectors\<close>

context blk_device
begin

lemma sectors_ok:
  assumes "blk_ready hw ready mc i" "i < 65535" "mounted fs"
    and "base_lba fs * lba_size fs + (s + k) * bps fs \<le> capacity" "capacity < 2 ^ 64" "k * bps fs < 2 ^ 32"
    and "{buffer..<buffer + k * bps fs} \<inter> own_area hw (blk_descriptors (mc_blk mc)) = {}" "buffer + k * bps fs \<le> 2 ^ 64"
  shows "\<exists>mc'. (if is_write then write_sectors else read_sectors) hw fs mc buffer s k = Some (mc', Ok ()) \<and>
    blk_ready hw ready mc' (i + 1) \<and>
    transferred hw disk is_write buffer (base_lba fs * lba_size fs + s * bps fs) (k * bps fs) mc mc'"
proof -
  let ?pos = "base_lba fs * lba_size fs + s * bps fs"
  have le: "?pos + k * bps fs \<le> capacity" using assms(4) unfolding add_mult_distrib by linarith
  have lt: "?pos < 2 ^ 64" using le assms(5) by linarith
  have "512 dvd ?pos" "512 dvd k * bps fs" using assms(3) by (simp_all add: mounted_def)
  from request_ok [OF assms(1,2) this assms(6) lt le assms(7,8), of is_write]
  show ?thesis
    by (cases is_write) (simp_all only: if_True if_False read_sectors_def write_sectors_def blk_read_def blk_write_def
        sector_address_ok [OF lt] Option.bind.simps sectors_length)
qed

text \<open>The request of a run that starts at \<open>d\<close> in cluster \<open>c\<close>.\<close>

lemma run_request_ok:
  assumes "blk_ready hw ready mc i" "i < 65535" "mounted fs" "on_disk fs capacity c n" "0 < len"
    and "d + len \<le> (n + 1) * bytes_per_cluster fs"
  defines "k \<equiv> sectors_for fs (len + offset_in_sector fs d)"
  assumes "{buffer..<buffer + k * bps fs} \<inter> own_area hw (blk_descriptors (mc_blk mc)) = {}" "buffer + k * bps fs \<le> 2 ^ 64"
  shows "\<exists>mc'. (if is_write then write_sectors else read_sectors) hw fs mc buffer (first_sector fs c + skipped_sectors fs d) k =
      Some (mc', Ok ()) \<and> blk_ready hw ready mc' (i + 1) \<and>
    transferred hw disk is_write buffer (cluster_position fs c + skipped_sectors fs d * bps fs) (k * bps fs) mc mc'"
proof -
  note r = run_sectors_on_disk [OF assms(3-6), folded k_def]
  have "capacity < 2 ^ 64" using assms(4) by (simp add: on_disk_def)
  moreover have "base_lba fs * lba_size fs + (first_sector fs c + skipped_sectors fs d + k) * bps fs \<le> capacity"
    using r(2) by (simp add: cluster_position_def add_mult_distrib)
  ultimately show ?thesis
    using sectors_ok [OF assms(1-3) _ _ r(1) assms(8,9), of "first_sector fs c + skipped_sectors fs d" is_write]
    by (simp add: cluster_position_def add_mult_distrib add.assoc)
qed

end

section \<open>Reading\<close>

text \<open>A request on consecutive clusters: \<open>len\<close> bytes at \<open>off\<close>, from cluster \<open>c\<close> on.\<close>

definition file_range :: "fat32 \<Rightarrow> byte_mem \<Rightarrow> nat \<Rightarrow> file_info \<Rightarrow> nat \<Rightarrow> nat \<Rightarrow> nat \<Rightarrow> nat \<Rightarrow> bool" where
  "file_range fs m capacity f off len c n \<longleftrightarrow> 0 < len \<and> off + len \<le> unat (file_size f) \<and>
     skip_clusters fs m (off div bytes_per_cluster fs) (unat (entry_cluster f)) = Some c \<and> contiguous fs m c n \<and>
     off mod bytes_per_cluster fs + len \<le> (n + 1) * bytes_per_cluster fs \<and> on_disk fs capacity c n"

lemma clip_length_within:
  assumes "0 < len" "off + len \<le> unat (file_size f)" "len = min req (unat (file_size f) - off)" "off + req < usize_range"
  shows "clip_length f off req = Some (Some len)"
  using assms by (auto simp: clip_length_def uadd_def min_def)

lemma fat32_read_unfold:
  assumes "mounted fs" "file_range fs (mc_mem mc) capacity f off len c n"
    and "len = min req (unat (file_size f) - off)" "off + req < usize_range"
  shows "fat32_read hw fs f mc buffer off req =
    read_loop hw fs buffer len (bytes_per_cluster fs) mc c (off mod bytes_per_cluster fs) 0"
proof -
  have "bytes_per_cluster fs \<noteq> 0" using assms(1) by (simp add: mounted_def bytes_per_cluster_def)
  moreover have "clip_length f off req = Some (Some len)"
    using assms(2-) by (intro clip_length_within) (simp_all only: file_range_def)
  ultimately show ?thesis using assms(2)
    by (simp add: fat32_read_def udiv_def file_range_def minus_div_mult_eq_mod)
qed

text \<open>The pages of the temporary buffer for \<open>k\<close> sectors hold them.\<close>

definition temp_pages :: "fat32 \<Rightarrow> nat \<Rightarrow> nat" where
  "temp_pages fs k = (uand_not (k * bps fs) (lba_size fs) + lba_size fs) div 2 ^ PAGE_SHIFT + 1"

lemma pages_round:
  fixes y :: nat
  assumes "y < b"
  shows "b + 4096 < r \<Longrightarrow> (y div 4096 + 1) * 4096 < r" "x \<le> y \<Longrightarrow> x \<le> (y div 4096 + 1) * 4096"
proof -
  obtain q where q: "q = y div 4096" by simp
  have "q * 4096 \<le> y" "y < q * 4096 + 4096" unfolding q by (simp_all add: div_times_less_eq_dividend dividend_less_div_times)
  then show "b + 4096 < r \<Longrightarrow> (y div 4096 + 1) * 4096 < r" "x \<le> y \<Longrightarrow> x \<le> (y div 4096 + 1) * 4096"
    using assms unfolding q [symmetric] by simp_all
qed

lemma aligned_size:
  assumes "mounted fs" "k * bps fs < 2 ^ 32"
  shows "uadd (uand_not (k * bps fs) (lba_size fs)) (lba_size fs) = Some (uand_not (k * bps fs) (lba_size fs) + lba_size fs)"
    "usub (lba_size fs) 1 = Some (lba_size fs - 1)" "k * bps fs \<le> pages_to_bytes (temp_pages fs k)"
proof -
  let ?x = "k * bps fs"
  from assms(1) obtain e where e: "e < 32" "lba_size fs = 2 ^ e" by (auto simp: mounted_def)
  have "(2 :: nat) ^ e < 2 ^ 32" using e(1) by (rule power_strict_increasing) simp
  moreover have x: "uand_not ?x (2 ^ e) = ?x div 2 ^ e * 2 ^ e" using assms(2) e(1) by (intro uand_not_eq) simp_all
  moreover have m: "?x div 2 ^ e * 2 ^ e + ?x mod 2 ^ e = ?x" "?x mod 2 ^ e < 2 ^ e" by (rule div_mult_mod_eq, simp)
  ultimately have lt: "uand_not ?x (2 ^ e) + 2 ^ e < 2 ^ 32 + 2 ^ 32" and ge: "?x \<le> uand_not ?x (2 ^ e) + 2 ^ e"
    using assms(2) by linarith+
  show "uadd (uand_not ?x (lba_size fs)) (lba_size fs) = Some (uand_not ?x (lba_size fs) + lba_size fs)"
    using lt e(2) by (simp add: uadd_def usize_range_def)
  show "usub (lba_size fs) 1 = Some (lba_size fs - 1)" using e(2) by (simp add: usub_def)
  let ?y = "uand_not ?x (2 ^ e) + 2 ^ e"
  have "(2 :: nat) ^ 32 + 2 ^ 32 + 4096 < usize_range" by (simp add: usize_range_def)
  then have "(?y div 4096 + 1) * 4096 < usize_range" "?x \<le> (?y div 4096 + 1) * 4096"
    using pages_round [OF lt] pages_round(2) [OF lt ge] by simp_all
  then show "?x \<le> pages_to_bytes (temp_pages fs k)" by (simp add: pages_to_bytes_def temp_pages_def e(2) PAGE_SHIFT_def)
qed

text \<open>What the temporary buffer needs of the allocator.\<close>

definition temp_buffer :: "memory_allocator \<Rightarrow> nat \<Rightarrow> usize \<Rightarrow> memory_allocator \<Rightarrow> bool" where
  "temp_buffer al pages tmp al' \<longleftrightarrow> (\<exists>al1. allocate_pages al pages 0 = Some (al1, Ok tmp) \<and>
     release_room al1 tmp (pages_to_bytes pages) \<and> ma_free al1 tmp (pages_to_bytes pages) = Some (al', Ok ()))"

lemma temp_buffer_facts:
  assumes "temp_buffer al pages tmp al'" "ma_inv al"
  shows "ma_inv al'" "free_set al' = free_set al" "{tmp..<tmp + pages_to_bytes pages} \<subseteq> free_set al"
    "tmp + pages_to_bytes pages < 2 ^ 64"
proof -
  from assms(1) obtain al1 where a: "allocate al (pages_to_bytes pages) 0 = Some (al1, Ok tmp)"
    "release_room al1 tmp (pages_to_bytes pages)" "ma_free al1 tmp (pages_to_bytes pages) = Some (al', Ok ())"
    by (auto simp: temp_buffer_def allocate_pages_eq)
  show "ma_inv al'" "free_set al' = free_set al" using ma.alloc_release [OF assms(2) a] by simp_all
  show "{tmp..<tmp + pages_to_bytes pages} \<subseteq> free_set al" using ma.alloc_Ok [OF assms(2) a(1)] by simp
  show "tmp + pages_to_bytes pages < 2 ^ 64" using a(2) by (simp add: release_room_def fits_def usize_range_def)
qed

text \<open>
  The contents of the buffer after a read: the bytes of the file, whatever path was taken. \<open>extra\<close> is
  the memory besides the buffer that the read may have changed.
\<close>

definition read_done ::
    "('h \<Rightarrow> nat \<Rightarrow> u8) \<Rightarrow> fat32 \<Rightarrow> file_info \<Rightarrow> usize \<Rightarrow> nat \<Rightarrow> nat \<Rightarrow> usize set \<Rightarrow> 'h machine \<Rightarrow> 'h machine \<Rightarrow> bool" where
  "read_done disk fs f buffer off len extra mc mc' \<longleftrightarrow>
     (\<forall>j < len. \<exists>p. file_position fs (mc_mem mc) f (off + j) = Some p \<and> mc_mem mc' (buffer + j) = disk (mc_dev mc) p) \<and>
     (\<forall>a. a \<notin> {buffer..<buffer + len} \<union> extra \<longrightarrow> mc_mem mc' a = mc_mem mc a) \<and>
     disk (mc_dev mc') = disk (mc_dev mc) \<and> mc_blk mc' = mc_blk mc"

lemma file_range_facts:
  assumes "mounted fs" "file_range fs m capacity f off len c n"
  shows "0 < len" "on_disk fs capacity c n" "off mod bytes_per_cluster fs + len \<le> (n + 1) * bytes_per_cluster fs"
    "2 \<le> c" "len < 2 ^ 32" "0 < bps fs" "0 < bytes_per_cluster fs"
  using assms le_less_trans [of len "(n + 1) * bytes_per_cluster fs" "2 ^ 32"]
  by (simp_all add: file_range_def mounted_def on_disk_def bytes_per_cluster_def)

lemma file_range_run:
  assumes "mounted fs" "file_range fs m capacity f off len c n"
  shows "\<exists>r. read_run fs m len (bytes_per_cluster fs) (start_run c (off mod bytes_per_cluster fs)) = Some (Ok r) \<and>
    found_run fs (off mod bytes_per_cluster fs) len r"
  using assms by (intro start_run_found [of fs len n c]) (simp_all add: file_range_def mounted_def on_disk_def)

lemma file_range_position:
  assumes "mounted fs" "file_range fs m capacity f off len c n" "j < len"
  shows "file_position fs m f (off + j) = Some (cluster_position fs c + off mod bytes_per_cluster fs + j)"
  using assms file_range_facts [OF assms(1,2)]
  by (intro file_position_contiguous [where n = n]) (simp_all add: file_range_def)

lemma file_range_sector:
  assumes "mounted fs" "file_range fs m capacity f off len c n"
  shows "cluster_to_sector fs c = Some (first_sector fs c)"
    "add32 (first_sector fs c) (skipped_sectors fs (off mod bytes_per_cluster fs)) =
      Some (first_sector fs c + skipped_sectors fs (off mod bytes_per_cluster fs))"
proof -
  note f = file_range_facts [OF assms]
  note r = run_sectors_on_disk(3) [OF assms(1) f(2,1,3)]
  then show "cluster_to_sector fs c = Some (first_sector fs c)" by (rule cluster_to_sector_ok [OF f(4)])
  show "add32 (first_sector fs c) (skipped_sectors fs (off mod bytes_per_cluster fs)) =
      Some (first_sector fs c + skipped_sectors fs (off mod bytes_per_cluster fs))"
    using r by (simp add: add32_def)
qed

lemma blk_ready_cong:
  assumes "\<forall>a \<in> own_area hw (blk_descriptors (mc_blk mc)). mc_mem mc' a = mc_mem mc a" "mc_dev mc' = mc_dev mc" "mc_blk mc' = mc_blk mc"
  shows "blk_ready hw ready mc' i = blk_ready hw ready mc i"
proof -
  have "load16 (mc_mem mc') (avail_at (blk_descriptors (mc_blk mc)) + 2) = load16 (mc_mem mc) (avail_at (blk_descriptors (mc_blk mc)) + 2)"
    using assms(1) by (intro load_cong(1)) (simp add: own_area_def avail_at_def)
  then show ?thesis using assms(2,3) by (simp add: blk_ready_def)
qed

context blk_device
begin

lemma read_aligned:
  assumes "blk_ready hw ready mc i" "i < 65535" "mounted fs" "file_range fs (mc_mem mc) capacity f off len c n"
    and "len = min req (unat (file_size f) - off)" "off + req < usize_range"
    and al: "offset_in_sector fs (off mod bytes_per_cluster fs) = 0"
  defines "k \<equiv> sectors_for fs len"
  assumes "{buffer..<buffer + k * bps fs} \<inter> own_area hw (blk_descriptors (mc_blk mc)) = {}" "buffer + k * bps fs < 2 ^ 64"
  shows "\<exists>mc'. fat32_read hw fs f mc buffer off req = Some (mc', Ok len) \<and> blk_ready hw ready mc' (i + 1) \<and>
    mc_alloc mc' = mc_alloc mc \<and>
    read_done disk fs f buffer off len ({buffer..<buffer + k * bps fs} \<union> own_area hw (blk_descriptors (mc_blk mc))) mc mc'"
proof -
  let ?B = "bytes_per_cluster fs" and ?d = "off mod bytes_per_cluster fs" and ?own = "own_area hw (blk_descriptors (mc_blk mc))"
  let ?s = "skipped_sectors fs ?d"
  note fr = file_range_facts [OF assms(3,4)]
  obtain r where r: "read_run fs (mc_mem mc) len ?B (start_run c ?d) = Some (Ok r)" "found_run fs ?d len r"
    using file_range_run [OF assms(3,4)] by blast
  then have rf: "run_bytes r = len" "run_sectors r = k" "run_sector_offset r = ?s" "run_data_offset_backup r = 0"
    using al by (simp_all add: found_run_def k_def)
  note rd = run_sectors_on_disk [OF assms(3) fr(2,1,3), unfolded al add_0_right, folded k_def]
  from run_request_ok [OF assms(1-3) fr(2,1,3), unfolded al add_0_right, folded k_def, OF assms(9) less_imp_le [OF assms(10)], of False]
  obtain mc' where q: "read_sectors hw fs mc buffer (first_sector fs c + ?s) k = Some (mc', Ok ())" "blk_ready hw ready mc' (i + 1)"
      "transferred hw disk False buffer (cluster_position fs c + ?s * bps fs) (k * bps fs) mc mc'"
    by auto
  have "uadd buffer 0 = Some buffer" "uadd 0 len = Some len"
    using assms(10) fr(5) by (simp_all add: uadd_def usize_range_def)
  then have "read_loop hw fs buffer len ?B mc c ?d 0 = Some (mc', Ok len)"
    using aligned_size [OF assms(3) rd(1)] file_range_sector [OF assms(3,4)] q(1) r(1)
    by (simp add: read_loop.simps [of hw fs buffer len ?B mc c] read_sectors_of_run_def rf Let_def del: One_nat_def)
  then have read: "fat32_read hw fs f mc buffer off req = Some (mc', Ok len)"
    using fat32_read_unfold [OF assms(3-6)] by simp
  have le: "len \<le> k * bps fs" using sectors_for_bounds(1) [OF fr(6,1)] by (simp add: k_def)
  have pos: "?s * bps fs = ?d" using offset_split [of fs ?d] al by simp
  have "mc_mem mc' (buffer + j) = disk (mc_dev mc) (cluster_position fs c + ?d + j)" if "j < len" for j
  proof -
    have b: "buffer + j \<in> {buffer..<buffer + k * bps fs}" using that le by simp
    with assms(9) have "buffer + j \<notin> ?own" by blast
    then show ?thesis using q(3) b unfolding transferred_def pos by (simp add: from_disk_def)
  qed
  then show ?thesis using read q(2,3) file_range_position [OF assms(3,4)]
    by (auto simp: read_done_def transferred_def from_disk_def)
qed

lemma read_unaligned:
  assumes "blk_ready hw ready mc i" "i < 65535" "mounted fs" "file_range fs (mc_mem mc) capacity f off len c n"
    and "len = min req (unat (file_size f) - off)" "off + req < usize_range"
  defines "d \<equiv> offset_in_sector fs (off mod bytes_per_cluster fs)"
  defines "k \<equiv> sectors_for fs (len + d)"
  assumes un: "d \<noteq> 0"
    and tb: "temp_buffer (mc_alloc mc) (temp_pages fs k) tmp al" "ma_inv (mc_alloc mc)"
    and dis: "free_set (mc_alloc mc) \<inter> own_area hw (blk_descriptors (mc_blk mc)) = {}"
      "{buffer..<buffer + len} \<inter> (free_set (mc_alloc mc) \<union> own_area hw (blk_descriptors (mc_blk mc))) = {}"
  shows "\<exists>mc'. fat32_read hw fs f mc buffer off req = Some (mc', Ok len) \<and> blk_ready hw ready mc' (i + 1) \<and>
    mc_alloc mc' = al \<and>
    read_done disk fs f buffer off len
      ({tmp..<tmp + pages_to_bytes (temp_pages fs k)} \<union> own_area hw (blk_descriptors (mc_blk mc))) mc mc'"
proof -
  let ?B = "bytes_per_cluster fs" and ?D = "off mod bytes_per_cluster fs" and ?own = "own_area hw (blk_descriptors (mc_blk mc))"
  let ?s = "skipped_sectors fs ?D" and ?P = "pages_to_bytes (temp_pages fs k)"
  note fr = file_range_facts [OF assms(3,4)] and tf = temp_buffer_facts [OF tb]
  from tb(1) obtain al1 where al1: "allocate_pages (mc_alloc mc) (temp_pages fs k) 0 = Some (al1, Ok tmp)"
    "ma_free al1 tmp ?P = Some (al, Ok ())"
    by (auto simp: temp_buffer_def)
  obtain r where r: "read_run fs (mc_mem mc) len ?B (start_run c ?D) = Some (Ok r)" "found_run fs ?D len r"
    using file_range_run [OF assms(3,4)] by blast
  then have rf: "run_bytes r = len" "run_sectors r = k" "run_sector_offset r = ?s" "run_data_offset_backup r = d"
    by (simp_all add: found_run_def k_def d_def)
  note rd = run_sectors_on_disk [OF assms(3) fr(2,1,3), folded d_def, folded k_def]
  note as = aligned_size [OF assms(3) rd(1)]
  have sub: "{tmp..<tmp + k * bps fs} \<subseteq> {tmp..<tmp + ?P}" using as(3) by simp
  have "{tmp..<tmp + k * bps fs} \<inter> ?own = {}" using sub tf(3) dis(1) by blast
  moreover have "tmp + k * bps fs \<le> 2 ^ 64" using tf(4) as(3) by linarith
  moreover have "blk_ready hw ready (mc\<lparr>mc_alloc := al1\<rparr>) i" using assms(1) by (simp add: blk_ready_def)
  ultimately obtain mc1 where q: "read_sectors hw fs (mc\<lparr>mc_alloc := al1\<rparr>) tmp (first_sector fs c + ?s) k = Some (mc1, Ok ())"
      "blk_ready hw ready mc1 (i + 1)"
      "transferred hw disk False tmp (cluster_position fs c + ?s * bps fs) (k * bps fs) (mc\<lparr>mc_alloc := al1\<rparr>) mc1"
    using run_request_ok [OF _ assms(2,3) fr(2,1,3), folded d_def, folded k_def, of "mc\<lparr>mc_alloc := al1\<rparr>" tmp False] by auto
  let ?mc = "mc1\<lparr>mc_mem := copy_bytes (mc_mem mc1) (tmp + d) buffer len, mc_alloc := al\<rparr>"
  have le: "len + d \<le> k * bps fs" using sectors_for_bounds(1) [of fs "len + d"] fr(1,6) by (simp add: k_def)
  then have "uadd tmp d = Some (tmp + d)" "uadd 0 len = Some len"
    using tf(4) as(3) fr(5) by (simp_all add: uadd_def usize_range_def)
  moreover have "mc_alloc mc1 = al1" using q(3) by (simp add: transferred_def)
  ultimately have "read_loop hw fs buffer len ?B mc c ?D 0 = Some (?mc, Ok len)"
    using as(1,2) file_range_sector [OF assms(3,4)] q(1) r(1) al1 un
    by (simp add: read_loop.simps [of hw fs buffer len ?B mc c] read_sectors_of_run_def rf Let_def temp_pages_def
        fat32_free_def free_pages_def rust_assert_def del: One_nat_def)
  then have read: "fat32_read hw fs f mc buffer off req = Some (?mc, Ok len)"
    using fat32_read_unfold [OF assms(3-6)] by simp
  have pos: "?s * bps fs + d = ?D" using offset_split [of fs ?D] by (simp add: d_def)
  have "mc_mem ?mc (buffer + j) = disk (mc_dev mc) (cluster_position fs c + ?D + j)" if "j < len" for j
  proof -
    have b: "tmp + d + j \<in> {tmp..<tmp + k * bps fs}" using that le by simp
    with sub tf(3) dis(1) have "tmp + d + j \<notin> ?own" by blast
    then have "mc_mem mc1 (tmp + d + j) = disk (mc_dev mc) (cluster_position fs c + ?s * bps fs + (d + j))"
      using q(3) b unfolding transferred_def by (simp add: from_disk_def add.assoc)
    moreover have "cluster_position fs c + ?s * bps fs + (d + j) = cluster_position fs c + ?D + j" using pos by linarith
    ultimately have "mc_mem mc1 (tmp + d + j) = disk (mc_dev mc) (cluster_position fs c + ?D + j)" by (simp only:)
    then show ?thesis using that by (simp add: copy_bytes_def)
  qed
  moreover have "blk_ready hw ready ?mc (i + 1)"
  proof -
    have "copy_bytes (mc_mem mc1) (tmp + d) buffer len a = mc_mem mc1 a" if "a \<in> ?own" for a
      using that dis(2) by (auto simp: copy_bytes_def)
    then show ?thesis using q(2,3) blk_ready_cong [of hw mc1 ?mc] by (simp add: transferred_def)
  qed
  moreover have "mc_mem ?mc a = mc_mem mc a" if "a \<notin> {buffer..<buffer + len} \<union> ({tmp..<tmp + ?P} \<union> ?own)" for a
  proof -
    have "a \<notin> {tmp..<tmp + k * bps fs}" "a \<notin> ?own" using that sub by blast+
    then have "mc_mem mc1 a = mc_mem mc a" using q(3) by (auto simp: transferred_def from_disk_def)
    then show ?thesis using that by (auto simp: copy_bytes_def)
  qed
  ultimately show ?thesis unfolding read_done_def
    using read q(3) file_range_position [OF assms(3,4)] by (intro exI [of _ ?mc]) (simp add: transferred_def)
qed

end

end
