(* ===== verification/Fat32_Write.thy ===== *)
theory Fat32_Write
  imports Fat32_Read
begin

text \<open>
  Writing of file contents on consecutive clusters, for requests of whole sectors that start at
  a sector boundary, and the behaviour of reading and writing on fragmented files.
\<close>

section \<open>The inner loop of write\<close>

text \<open>A run of whole sectors: the check at the start of each round of \<open>write\<close> never fails.\<close>

definition whole_run :: "fat32 \<Rightarrow> usize \<Rightarrow> cluster_run \<Rightarrow> bool" where
  "whole_run fs len r \<longleftrightarrow> run_bytes r < len \<and> bps fs dvd len - run_bytes r \<and> run_data_offset r < 2 ^ 32 \<and>
     offset_in_sector fs (run_data_offset r) = 0"

lemma run_step_whole:
  assumes "0 < bps fs" "whole_run fs len r" "run_step fs m len (bytes_per_cluster fs) r = Some (Run_More r')"
  shows "whole_run fs len r'"
proof -
  let ?r = "skipped_run fs r" and ?B = "bytes_per_cluster fs"
  have sr: "run_data_offset ?r = 0" "run_bytes ?r = run_bytes r"
    using assms(2) by (auto simp: whole_run_def skipped_run_def Let_def offset_in_sector_def skipped_sectors_def)
  have "skip_sectors fs r = Some ?r" using assms(1,2) by (intro skip_sectors_run) (simp_all add: whole_run_def)
  with assms(3) sr have r': "run_bytes r' = run_bytes r + ?B" "?B < len - run_bytes r" "run_data_offset r' = 0"
    by (auto simp: run_step_def bind_eq_Some_conv checked_simps Let_def split: if_splits option.splits)
  have "bps fs dvd (len - run_bytes r) - ?B"
    by (rule dvd_diff_nat) (use assms(2) in \<open>simp_all add: whole_run_def bytes_per_cluster_def\<close>)
  then show ?thesis using r' by (simp add: whole_run_def offset_in_sector_def)
qed

lemma write_run_whole:
  assumes "read_run fs m len bpc r = Some y" "0 < bps fs" "bpc = bytes_per_cluster fs" "whole_run fs len r"
  shows "write_run fs m len bpc r = Some y"
  using assms
proof (induction rule: read_run.raw_induct [rotated, consumes 1, case_names step])
  case (step read_run fs m len bpc r y)
  have h: "0 < bps fs" "bpc = bytes_per_cluster fs" "whole_run fs len r" by fact+
  from step(2) obtain q where q: "run_step fs m len bpc r = Some q" by (auto simp: bind_eq_Some_conv)
  have t: "usub len (run_bytes r) = Some (len - run_bytes r)" "\<not> len - run_bytes r < bps fs"
    using h(3) dvd_imp_le [of "bps fs" "len - run_bytes r"] by (auto simp: whole_run_def usub_def)
  show ?case
  proof (cases q)
    case (Run_More r')
    with q h(2) have "whole_run fs len r'" using run_step_whole [OF h(1,3)] by simp
    with step q Run_More have "write_run fs m len bpc r' = Some y" by simp
    then show ?thesis using q t Run_More by (simp add: write_run.simps [of fs m len bpc r])
  qed (use step(2) q t in \<open>simp_all add: write_run.simps [of fs m len bpc r]\<close>)
qed

section \<open>The inner loops return\<close>

text \<open>What holds in every round, for any FAT: the values stay in range and the rest of the request shrinks.\<close>

definition run_within :: "fat32 \<Rightarrow> usize \<Rightarrow> cluster_run \<Rightarrow> bool" where
  "run_within fs len r \<longleftrightarrow> run_bytes r \<le> len \<and> run_data_offset r < bytes_per_cluster fs \<and>
     run_sectors r * bps fs + offset_in_sector fs (run_data_offset r) \<le> run_bytes r + bps fs \<and> Suc (run_cluster r) < 2 ^ 32"

lemma get_next_cluster_bound: "get_next_cluster fs m c = Some d \<Longrightarrow> d < 0x0FFFFFF8"
  by (auto simp: get_next_cluster_def Let_def split: if_splits)

lemma cluster_bytes_less: "bytes_per_cluster fs < 2 ^ 24"
proof -
  have "spc fs < 2 ^ 8" "bps fs < 2 ^ 16" using unsigned_less [where ?'a = nat and w = "sectors_per_cluster fs"] bps_less [of fs] by simp_all
  then have "spc fs * bps fs < 2 ^ 8 * 2 ^ 16" by (intro mult_strict_mono) simp_all
  then show ?thesis by (simp add: bytes_per_cluster_def)
qed

lemma skipped_run_offset:
  assumes "0 < bps fs"
  shows "run_data_offset (skipped_run fs r) = offset_in_sector fs (run_data_offset r)" "run_bytes (skipped_run fs r) = run_bytes r"
    "run_sectors (skipped_run fs r) = run_sectors r" "run_cluster (skipped_run fs r) = run_cluster r"
  by (simp_all add: skipped_run_def Let_def offset_in_sector_def skipped_sectors_def)

lemma run_step_progress:
  assumes "mounted fs" "len < 2 ^ 32" "run_within fs len r"
  shows "\<exists>q. run_step fs m len (bytes_per_cluster fs) r = Some q \<and>
    (\<forall>r'. q = Run_More r' \<longrightarrow> run_within fs len r' \<and> len - run_bytes r' < len - run_bytes r)"
proof -
  let ?B = "bytes_per_cluster fs" and ?o = "offset_in_sector fs (run_data_offset r)"
  let ?r = "skipped_run fs r" and ?rest = "len - run_bytes r + offset_in_sector fs (run_data_offset r)"
  have b: "0 < bps fs" "512 \<le> bps fs" using assms(1) dvd_imp_le by (auto simp: mounted_def)
  have w: "run_bytes r \<le> len" "run_data_offset r < ?B" "run_sectors r * bps fs + ?o \<le> run_bytes r + bps fs" "Suc (run_cluster r) < 2 ^ 32"
    using assms(3) by (simp_all add: run_within_def)
  have o: "?o \<le> run_data_offset r" "?o < ?B" using offset_split [of fs "run_data_offset r"] w(2) by linarith+
  have "run_data_offset r < 2 ^ 32" using w(2) cluster_bytes_less [of fs] by simp
  note sk = skip_sectors_run(1) [OF b(1) this] skipped_run_offset [OF b(1), of r]
  have u: "?rest < usize_range" using assms(2) o(2) cluster_bytes_less [of fs] by (simp add: usize_range_def)
  have sec: "run_sectors r + k < 2 ^ 32" if "k * bps fs \<le> len + 2 ^ 25" for k
  proof -
    have "(run_sectors r + k) * bps fs < 2 ^ 32 * 512"
      using that w(1,3) assms(2) bps_less [of fs] unfolding add_mult_distrib by simp
    then show ?thesis using b(2) mult_le_mono [of "2 ^ 32" "run_sectors r + k" 512 "bps fs"] by linarith
  qed
  show ?thesis
  proof (cases "?rest \<le> ?B")
    case True
    let ?k = "1 + (max ?rest 1 - 1) div bps fs"
    have "max ?rest 1 \<le> 2 ^ 24" using True cluster_bytes_less [of fs] by simp
    moreover have "(max ?rest 1 - 1) div bps fs * bps fs \<le> max ?rest 1 - 1" by (rule div_times_less_eq_dividend)
    moreover have "(2 :: nat) ^ 16 + 2 ^ 24 \<le> 2 ^ 25" by simp
    ultimately have "?k * bps fs \<le> len + 2 ^ 25" using bps_less [of fs] unfolding add_mult_distrib mult_1 by linarith
    from sec [OF this] have s: "?k < 2 ^ 32" "run_sectors r + ?k < 2 ^ 32" by linarith+
    then show ?thesis using True sk u w(1) b(1) by (simp add: run_step_def usub_def uadd_def udiv_def add32_def Let_def)
  next
    case False
    have "spc fs * bps fs \<le> len + 2 ^ 25" using cluster_bytes_less [of fs] by (simp add: bytes_per_cluster_def)
    note s = sec [OF this]
    have lt: "run_bytes r + (?B - ?o) < len" using False o(2) by linarith
    then have "run_bytes r + (?B - ?o) < usize_range" using assms(2) by (simp add: usize_range_def)
    then have eq: "run_step fs m len ?B r = (case get_next_cluster fs m (run_cluster r) of None \<Rightarrow> Some Run_Err
      | Some d \<Rightarrow> Some (if d \<noteq> Suc (run_cluster r) then Run_Done (?r\<lparr>run_sectors := run_sectors r + spc fs, run_bytes := run_bytes r + (?B - ?o)\<rparr>)
         else Run_More (?r\<lparr>run_sectors := run_sectors r + spc fs, run_bytes := run_bytes r + (?B - ?o), run_data_offset := 0, run_cluster := d\<rparr>)))"
      using False sk u w(1,4) o s by (simp add: run_step_def usub_def uadd_def add32_def Let_def split: option.splits)
    have "(run_sectors r + spc fs) * bps fs \<le> run_bytes r + (?B - ?o) + bps fs"
      using w(3) o(2) unfolding add_mult_distrib bytes_per_cluster_def by linarith
    then show ?thesis unfolding eq using lt o(2) get_next_cluster_bound [of fs m "run_cluster r"]
      by (auto simp: run_within_def offset_in_sector_def split: option.splits)
  qed
qed


lemma read_run_returns:
  assumes "mounted fs" "len < 2 ^ 32"
  shows "run_within fs len r \<Longrightarrow> \<exists>y. read_run fs m len (bytes_per_cluster fs) r = Some y"
proof (induction "len - run_bytes r" arbitrary: r rule: less_induct)
  case less
  obtain q where q: "run_step fs m len (bytes_per_cluster fs) r = Some q"
    "\<forall>r'. q = Run_More r' \<longrightarrow> run_within fs len r' \<and> len - run_bytes r' < len - run_bytes r"
    using run_step_progress [OF assms less.prems] by blast
  then show ?case using less.hyps by (cases q) (auto simp: read_run.simps [of fs m len _ r])
qed

lemma write_run_returns:
  assumes "mounted fs" "len < 2 ^ 32"
  shows "run_within fs len r \<Longrightarrow> \<exists>y. write_run fs m len (bytes_per_cluster fs) r = Some y"
proof (induction "len - run_bytes r" arbitrary: r rule: less_induct)
  case less
  obtain q where q: "run_step fs m len (bytes_per_cluster fs) r = Some q"
    "\<forall>r'. q = Run_More r' \<longrightarrow> run_within fs len r' \<and> len - run_bytes r' < len - run_bytes r"
    using run_step_progress [OF assms less.prems] by blast
  have "usub len (run_bytes r) = Some (len - run_bytes r)" using less.prems by (simp add: run_within_def usub_def)
  then show ?case using less.hyps q by (cases q) (auto simp: write_run.simps [of fs m len _ r])
qed

section \<open>Writing\<close>

lemma fat32_write_unfold:
  assumes "mounted fs" "file_range fs (mc_mem mc) capacity f off len c n"
    and "len = min req (unat (file_size f) - off)" "off + req < usize_range"
  shows "fat32_write hw fs f mc buffer off req =
    write_loop hw fs buffer len (bytes_per_cluster fs) mc c (off mod bytes_per_cluster fs) 0"
proof -
  have "bytes_per_cluster fs \<noteq> 0" using assms(1) by (simp add: mounted_def bytes_per_cluster_def)
  moreover have "clip_length f off req = Some (Some len)"
    using assms(2-) by (intro clip_length_within) (simp_all only: file_range_def)
  ultimately show ?thesis using assms(2)
    by (simp add: fat32_write_def udiv_def file_range_def minus_div_mult_eq_mod)
qed

text \<open>The bytes of the buffer are in the file, and nothing else has changed.\<close>

definition write_done ::
    "('h \<Rightarrow> nat \<Rightarrow> u8) \<Rightarrow> fat32 \<Rightarrow> file_info \<Rightarrow> usize \<Rightarrow> nat \<Rightarrow> nat \<Rightarrow> usize set \<Rightarrow> 'h machine \<Rightarrow> 'h machine \<Rightarrow> bool" where
  "write_done disk fs f buffer off len extra mc mc' \<longleftrightarrow>
     (\<forall>j < len. \<exists>p. file_position fs (mc_mem mc) f (off + j) = Some p \<and> disk (mc_dev mc') p = mc_mem mc (buffer + j)) \<and>
     (\<forall>p. (\<forall>j < len. file_position fs (mc_mem mc) f (off + j) \<noteq> Some p) \<longrightarrow> disk (mc_dev mc') p = disk (mc_dev mc) p) \<and>
     (\<forall>a. a \<notin> extra \<longrightarrow> mc_mem mc' a = mc_mem mc a) \<and> mc_alloc mc' = mc_alloc mc \<and> mc_blk mc' = mc_blk mc"

lemma sectors_for_whole:
  assumes "0 < bps fs" "0 < len" "bps fs dvd len"
  shows "sectors_for fs len * bps fs = len"
  using sectors_for_bounds [OF assms(1,2)] assms(3) by (simp add: le_antisym)

lemma written_positions:
  assumes "mounted fs" "file_range fs (mc_mem mc) capacity f off len c n"
    and "transferred hw disk True buffer (cluster_position fs c + off mod bytes_per_cluster fs) len mc mc'"
  shows "write_done disk fs f buffer off len (own_area hw (blk_descriptors (mc_blk mc))) mc mc'"
proof -
  let ?p = "cluster_position fs c + off mod bytes_per_cluster fs"
  note pos = file_range_position [OF assms(1,2)]
  have d: "disk (mc_dev mc') = to_disk (mc_mem mc) (disk (mc_dev mc)) buffer ?p len" using assms(3) by (simp add: transferred_def)
  have "disk (mc_dev mc') p = disk (mc_dev mc) p"
    if no: "\<forall>j < len. file_position fs (mc_mem mc) f (off + j) \<noteq> Some p" for p
  proof -
    have "\<not> (?p \<le> p \<and> p < ?p + len)"
    proof
      assume p: "?p \<le> p \<and> p < ?p + len"
      then have "p - ?p < len" "?p + (p - ?p) = p" by linarith+
      with pos [of "p - ?p"] no show False by auto
    qed
    then show ?thesis by (auto simp: d to_disk_def)
  qed
  then show ?thesis using assms(3) pos by (simp add: write_done_def transferred_def to_disk_def)
qed

context blk_device
begin

lemma write_aligned:
  assumes "blk_ready hw ready mc i" "i < 65535" "mounted fs" "file_range fs (mc_mem mc) capacity f off len c n"
    and "len = min req (unat (file_size f) - off)" "off + req < usize_range"
    and al: "offset_in_sector fs (off mod bytes_per_cluster fs) = 0" "bps fs dvd len"
    and "{buffer..<buffer + len} \<inter> own_area hw (blk_descriptors (mc_blk mc)) = {}" "buffer + len < 2 ^ 64"
  shows "\<exists>mc'. fat32_write hw fs f mc buffer off req = Some (mc', Ok len) \<and> blk_ready hw ready mc' (i + 1) \<and>
    write_done disk fs f buffer off len (own_area hw (blk_descriptors (mc_blk mc))) mc mc'"
proof -
  let ?B = "bytes_per_cluster fs" and ?d = "off mod bytes_per_cluster fs"
  let ?s = "skipped_sectors fs ?d"
  note fr = file_range_facts [OF assms(3,4)]
  have k: "sectors_for fs len * bps fs = len" using fr(6,1) al(2) by (rule sectors_for_whole)
  obtain r where r: "read_run fs (mc_mem mc) len ?B (start_run c ?d) = Some (Ok r)" "found_run fs ?d len r"
    using file_range_run [OF assms(3,4)] by blast
  have "?d < 2 ^ 32" using fr(2,3) by (simp add: on_disk_def)
  then have "whole_run fs len (start_run c ?d)" using fr(1) al by (simp add: whole_run_def start_run_def)
  note w = write_run_whole [OF r(1) fr(6) refl this]
  have rf: "run_bytes r = len" "run_sectors r = sectors_for fs len" "run_sector_offset r = ?s" "run_data_offset_backup r = 0"
    using r(2) al(1) by (simp_all add: found_run_def)
  have pos: "?s * bps fs = ?d" using offset_split [of fs ?d] al(1) by simp
  from run_request_ok [OF assms(1-3) fr(2,1,3), unfolded al(1) add_0_right k pos, OF assms(9) less_imp_le [OF assms(10)], of True]
  obtain mc' where q: "write_sectors hw fs mc buffer (first_sector fs c + ?s) (sectors_for fs len) = Some (mc', Ok ())"
      "blk_ready hw ready mc' (i + 1)" "transferred hw disk True buffer (cluster_position fs c + ?d) len mc mc'"
    by auto
  have "uadd buffer 0 = Some buffer" "uadd 0 len = Some len"
    using assms(10) fr(5) by (simp_all add: uadd_def usize_range_def)
  then have "write_loop hw fs buffer len ?B mc c ?d 0 = Some (mc', Ok len)"
    using file_range_sector [OF assms(3,4)] q(1) w
    by (simp add: write_loop.simps [of hw fs buffer len ?B mc c] rf del: One_nat_def)
  then have "fat32_write hw fs f mc buffer off req = Some (mc', Ok len)"
    using fat32_write_unfold [OF assms(3-6)] by simp
  then show ?thesis using q(2) written_positions [OF assms(3,4) q(3)] by blast
qed

end

section \<open>Reading what was written\<close>

text \<open>The FAT in memory, outside the memory that the driver works in.\<close>

definition fat_area :: "fat32 \<Rightarrow> usize set" where
  "fat_area fs = {fat fs..<fat fs + unat (fat_sectors fs) * bps fs}"

lemma get_next_cluster_cong:
  assumes "\<forall>a \<in> fat_area fs. m' a = m a"
  shows "get_next_cluster fs m' c = get_next_cluster fs m c"
proof (cases "c < unat (fat_sectors fs) * bps fs div 4")
  case True
  have "m' (fat fs + 4 * c + j) = m (fat fs + 4 * c + j)" if "j < 4" for j
    using assms True that by (simp add: fat_area_def)
  then have "load32 m' (fat fs + 4 * c) = load32 m (fat fs + 4 * c)" by (rule load_cong(2))
  then show ?thesis by (simp add: get_next_cluster_def)
qed (simp add: get_next_cluster_def)

lemma skip_clusters_cong:
  assumes "\<forall>a \<in> fat_area fs. m' a = m a"
  shows "skip_clusters fs m' n c = skip_clusters fs m n c"
  by (induction n arbitrary: c) (simp_all add: get_next_cluster_cong [OF assms] split: option.splits)

lemma file_range_cong:
  assumes "\<forall>a \<in> fat_area fs. m' a = m a"
  shows "file_range fs m' capacity f off len c n = file_range fs m capacity f off len c n"
    "file_position fs m' f p = file_position fs m f p"
  by (simp_all add: file_range_def contiguous_def file_position_def get_next_cluster_cong [OF assms] skip_clusters_cong [OF assms])

section \<open>Fragmented files\<close>

text \<open>The whole cluster chain of a file, and whether its clusters follow each other on the disk.\<close>

fun cluster_chain :: "fat32 \<Rightarrow> byte_mem \<Rightarrow> nat list \<Rightarrow> bool" where
  "cluster_chain fs m [] = False"
| "cluster_chain fs m [c] = (get_next_cluster fs m c = None)"
| "cluster_chain fs m (c # d # cs) = (get_next_cluster fs m c = Some d \<and> cluster_chain fs m (d # cs))"

fun consecutive :: "nat list \<Rightarrow> bool" where
  "consecutive (c # d # cs) = (d = Suc c \<and> consecutive (d # cs))"
| "consecutive cs = True"

lemma cluster_chain_cong:
  assumes "\<forall>a \<in> fat_area fs. m' a = m a"
  shows "cluster_chain fs m' cs = cluster_chain fs m cs"
  by (induction cs rule: consecutive.induct) (simp_all add: get_next_cluster_cong [OF assms])

lemma cluster_chain_suffix: "cluster_chain fs m (xs @ y # ys) \<Longrightarrow> cluster_chain fs m (y # ys)"
proof (induction xs)
  case (Cons x xs)
  then show ?case by (cases xs) auto
qed simp

lemma cluster_chain_next: "cluster_chain fs m (xs @ y # ys) \<Longrightarrow> xs \<noteq> [] \<Longrightarrow> get_next_cluster fs m (last xs) = Some y"
proof (induction xs)
  case (Cons x xs)
  then show ?case by (cases xs) auto
qed simp

lemma run_step_cluster:
  assumes "run_data_offset r = 0" "run_bytes r + bytes_per_cluster fs < len" "len < 2 ^ 32"
    and "run_sectors r + spc fs < 2 ^ 32" "Suc (run_cluster r) < 2 ^ 32"
  shows "run_step fs m len (bytes_per_cluster fs) r =
    (let r' = r\<lparr>run_sectors := run_sectors r + spc fs, run_bytes := run_bytes r + bytes_per_cluster fs\<rparr> in
     case get_next_cluster fs m (run_cluster r) of
       None \<Rightarrow> Some Run_Err
     | Some d \<Rightarrow> Some (if d \<noteq> Suc (run_cluster r) then Run_Done r' else Run_More (r'\<lparr>run_data_offset := 0, run_cluster := d\<rparr>)))"
proof -
  have "len - run_bytes r + run_data_offset r < usize_range" "run_bytes r + bytes_per_cluster fs < usize_range"
    "\<not> len - run_bytes r + run_data_offset r \<le> bytes_per_cluster fs"
    using assms by (simp_all add: usize_range_def)
  then show ?thesis using assms
    by (simp add: run_step_def skip_sectors_def usub_def uadd_def add32_def Let_def split: option.splits)
qed

text \<open>
  A run over a chain that cannot hold the rest of the request ends at a gap of the chain, or with
  an error at the end of the chain.
\<close>

lemma run_over_chain:
  assumes "0 < bps fs" "0 < spc fs" "len < 2 ^ 32" "\<forall>x \<in> set (c # rest). Suc x < 2 ^ 32"
    and "cluster_chain fs m (c # rest)" "run_cluster r = c" "run_data_offset r = 0"
    and "run_bytes r + length rest * bytes_per_cluster fs < len"
    and "run_bytes r + length (c # rest) * bytes_per_cluster fs < len \<or> \<not> consecutive (c # rest)"
    and "run_sectors r + length (c # rest) * spc fs < 2 ^ 32"
  shows "read_run fs m len (bytes_per_cluster fs) r = Some (Err ()) \<or>
    (\<exists>pre d suf r'. c # rest = pre @ d # suf \<and> pre \<noteq> [] \<and> consecutive pre \<and>
       read_run fs m len (bytes_per_cluster fs) r = Some (Ok r') \<and> run_cluster r' = last pre \<and>
       run_bytes r' = run_bytes r + length pre * bytes_per_cluster fs \<and>
       run_sectors r' = run_sectors r + length pre * spc fs \<and> run_sector_offset r' = run_sector_offset r \<and>
       run_data_offset_backup r' = run_data_offset_backup r)"
  using assms(4-)
proof (induction rest arbitrary: c r)
  case (Nil c r)
  then have "run_bytes r + bytes_per_cluster fs < len" by simp
  with Nil assms(3) show ?case by (simp add: read_run.simps [of fs m len _ r] run_step_cluster Let_def)
next
  case (Cons d rest c r)
  let ?B = "bytes_per_cluster fs"
  let ?r = "r\<lparr>run_sectors := run_sectors r + spc fs, run_bytes := run_bytes r + ?B, run_data_offset := 0, run_cluster := d\<rparr>"
  have "run_bytes r + ?B < len" using Cons.prems(5) by simp
  with Cons.prems assms(3) have st: "run_step fs m len ?B r =
      (if d \<noteq> Suc c then Some (Run_Done (r\<lparr>run_sectors := run_sectors r + spc fs, run_bytes := run_bytes r + ?B\<rparr>))
       else Some (Run_More ?r))" by (simp add: run_step_cluster Let_def)
  show ?case
  proof (cases "d = Suc c")
    case False
    with st have "read_run fs m len ?B r = Some (Ok (r\<lparr>run_sectors := run_sectors r + spc fs, run_bytes := run_bytes r + ?B\<rparr>))"
      by (simp add: read_run.simps [of fs m len ?B r])
    moreover have "c # d # rest = [c] @ d # rest" "consecutive [c]" by simp_all
    ultimately show ?thesis using Cons.prems(3)
      by (intro disjI2 exI [of _ "[c]"] exI [of _ d] exI [of _ rest]) simp
  next
    case True
    with st have eq: "read_run fs m len ?B r = read_run fs m len ?B ?r" by (simp add: read_run.simps [of fs m len ?B r])
    have "read_run fs m len ?B ?r = Some (Err ()) \<or>
      (\<exists>pre e suf r'. d # rest = pre @ e # suf \<and> pre \<noteq> [] \<and> consecutive pre \<and> read_run fs m len ?B ?r = Some (Ok r') \<and>
         run_cluster r' = last pre \<and> run_bytes r' = run_bytes ?r + length pre * ?B \<and>
         run_sectors r' = run_sectors ?r + length pre * spc fs \<and> run_sector_offset r' = run_sector_offset ?r \<and>
         run_data_offset_backup r' = run_data_offset_backup ?r)"
      using Cons.prems True by (intro Cons.IH) auto
    then show ?thesis
    proof (elim disjE exE conjE)
      fix pre e suf r'
      assume h: "d # rest = pre @ e # suf" "pre \<noteq> []" "consecutive pre"
      then have "consecutive (c # pre)" using True by (cases pre) auto
      moreover assume "read_run fs m len ?B ?r = Some (Ok r')" "run_cluster r' = last pre"
        "run_bytes r' = run_bytes ?r + length pre * ?B" "run_sectors r' = run_sectors ?r + length pre * spc fs"
        "run_sector_offset r' = run_sector_offset ?r" "run_data_offset_backup r' = run_data_offset_backup ?r"
      ultimately show ?thesis unfolding eq using h
        by (intro disjI2 exI [of _ "c # pre"] exI [of _ e] exI [of _ suf] exI [of _ r']) simp
    qed (simp add: eq)
  qed
qed

lemma consecutive_last: "consecutive (c # cs) \<Longrightarrow> last (c # cs) = c + length cs"
proof (induction cs arbitrary: c)
  case (Cons d cs)
  from Cons.prems have d: "d = Suc c" and "consecutive (Suc c # cs)" by auto
  from Cons.IH [OF this(2)] show ?case by (simp add: d)
qed simp

lemma chain_sectors:
  assumes "mounted fs" "n * bytes_per_cluster fs < len" "len < 2 ^ 32"
  shows "(n + 1) * spc fs < 2 ^ 32"
proof -
  have "512 \<le> bps fs" using assms(1) dvd_imp_le by (auto simp: mounted_def)
  then have "n * spc fs * 512 \<le> n * spc fs * bps fs" by simp
  also have "\<dots> = n * bytes_per_cluster fs" by (simp only: bytes_per_cluster_def mult.assoc)
  finally have "n * spc fs * 512 < 2 ^ 32" using assms(2,3) by linarith
  moreover have "spc fs < 256" using unsigned_less [where ?'a = nat and w = "sectors_per_cluster fs"] by simp
  ultimately show ?thesis unfolding add_mult_distrib by simp
qed

context blk_device
begin

text \<open>The sectors of a run of whole clusters.\<close>

lemma cluster_run_read:
  assumes "blk_ready hw ready mc i" "i < 65535" "mounted fs" "pre \<noteq> []" "consecutive pre"
    and "\<forall>x \<in> set pre. on_disk fs capacity x 0" "length pre * bytes_per_cluster fs < 2 ^ 32"
    and "run_sectors r = length pre * spc fs" "run_sector_offset r = 0" "run_data_offset_backup r = 0"
    and "{buffer + bp..<buffer + bp + length pre * bytes_per_cluster fs} \<inter> own_area hw (blk_descriptors (mc_blk mc)) = {}"
    and "buffer + bp + length pre * bytes_per_cluster fs < 2 ^ 64"
  shows "\<exists>mc'. read_sectors_of_run hw fs mc buffer bp (hd pre) r = Some (mc', Ok ()) \<and> blk_ready hw ready mc' (i + 1) \<and>
    mc_blk mc' = mc_blk mc \<and> (\<forall>a. a \<notin> {buffer + bp..<buffer + bp + length pre * bytes_per_cluster fs} \<union>
      own_area hw (blk_descriptors (mc_blk mc)) \<longrightarrow> mc_mem mc' a = mc_mem mc a)"
proof -
  let ?c = "hd pre" and ?k = "length pre * spc fs"
  have B: "?k * bps fs = length pre * bytes_per_cluster fs" by (simp add: bytes_per_cluster_def)
  obtain cs where pre: "pre = ?c # cs" using assms(4) by (cases pre) simp_all
  have last: "last pre = ?c + length cs" using consecutive_last [of ?c cs] assms(5) pre by simp
  have "on_disk fs capacity ?c 0" "on_disk fs capacity (last pre) 0" using assms(4,6) by simp_all
  then have c: "2 \<le> ?c" "cluster_position fs (?c + length pre) \<le> capacity" "capacity < 2 ^ 64" "first_sector fs (?c + 1) < 2 ^ 32"
    using last arg_cong [OF pre, of length] by (auto simp: on_disk_def)
  have "base_lba fs * lba_size fs + (first_sector fs ?c + ?k) * bps fs \<le> capacity"
    using c(2) unfolding cluster_position_def first_sector_add [OF c(1)] .
  from sectors_ok [OF assms(1-3) this c(3), unfolded B, OF assms(7,11) less_imp_le [OF assms(12)], of False]
  obtain mc' where q: "read_sectors hw fs mc (buffer + bp) (first_sector fs ?c) ?k = Some (mc', Ok ())"
    "blk_ready hw ready mc' (i + 1)"
    "transferred hw disk False (buffer + bp) (base_lba fs * lba_size fs + first_sector fs ?c * bps fs) (?k * bps fs) mc mc'"
    by (auto simp: B)
  have f: "first_sector fs ?c + 0 < 2 ^ 32" using c(4) first_sector_add [OF c(1), of fs 1] by simp
  have "uadd buffer bp = Some (buffer + bp)" using assms(12) by (simp add: uadd_def usize_range_def)
  moreover have "add32 (first_sector fs ?c) 0 = Some (first_sector fs ?c)" using f by (simp add: add32_def)
  moreover have "?k * bps fs < 2 ^ 32" using assms(7) unfolding B .
  ultimately have "read_sectors_of_run hw fs mc buffer bp ?c r = Some (mc', Ok ())"
    using aligned_size [OF assms(3), of ?k] cluster_to_sector_ok [OF c(1) f] q(1) assms(8-10)
    by (simp add: read_sectors_of_run_def Let_def del: One_nat_def)
  then show ?thesis using q(2,3) by (auto simp: transferred_def from_disk_def B)
qed

lemma fragmented_loop:
  assumes "mounted fs" "len < 2 ^ 32" "{buffer..<buffer + len} \<inter> (own_area hw q \<union> fat_area fs) = {}"
    and "fat_area fs \<inter> own_area hw q = {}" "buffer + len < 2 ^ 64"
    and "blk_ready hw ready mc i" "blk_descriptors (mc_blk mc) = q" "i + length cs < 65535" "cs = c # rest"
    and "\<forall>x \<in> set cs. on_disk fs capacity x 0" "cluster_chain fs (mc_mem mc) cs"
    and "bp + length rest * bytes_per_cluster fs < len" "length cs * bytes_per_cluster fs < len \<or> \<not> consecutive cs"
  shows "\<exists>mc'. read_loop hw fs buffer len (bytes_per_cluster fs) mc c 0 bp = Some (mc', Err ())"
  using assms(6-)
proof (induction "length cs" arbitrary: cs c rest mc i bp rule: less_induct)
  case less
  let ?B = "bytes_per_cluster fs"
  have mo: "0 < bps fs" "0 < spc fs" using assms(1) by (simp_all add: mounted_def)
  have "\<forall>x \<in> set (c # rest). Suc x < 2 ^ 32"
  proof
    fix x assume "x \<in> set (c # rest)"
    with less.prems have "on_disk fs capacity x 0" by blast
    then show "Suc x < 2 ^ 32" by (simp add: on_disk_def)
  qed
  note run = run_over_chain [OF mo assms(2) this, of "mc_mem mc" "start_run c 0"]
  have "read_run fs (mc_mem mc) len ?B (start_run c 0) = Some (Err ()) \<or> (\<exists>pre d suf r'. c # rest = pre @ d # suf \<and> pre \<noteq> [] \<and>
    consecutive pre \<and> read_run fs (mc_mem mc) len ?B (start_run c 0) = Some (Ok r') \<and> run_cluster r' = last pre \<and>
    run_bytes r' = length pre * ?B \<and> run_sectors r' = length pre * spc fs \<and> run_sector_offset r' = 0 \<and> run_data_offset_backup r' = 0)"
    using less.prems chain_sectors [OF assms(1) _ assms(2), of "length rest"]
    by (intro run [unfolded start_run_def cluster_run.simps add_0, folded start_run_def]) simp_all
  then show ?case
  proof (elim disjE exE conjE)
    fix pre d suf r
    assume h: "c # rest = pre @ d # suf" "pre \<noteq> []" "consecutive pre" "read_run fs (mc_mem mc) len ?B (start_run c 0) = Some (Ok r)"
      "run_cluster r = last pre" "run_bytes r = length pre * ?B" "run_sectors r = length pre * spc fs"
      "run_sector_offset r = 0" "run_data_offset_backup r = 0"
    have l: "length rest = length pre + length suf" using arg_cong [OF h(1), of length] by simp
    have lt: "bp + length pre * ?B + length suf * ?B < len" using less.prems(7) unfolding l add_mult_distrib by linarith
    have hd: "hd pre = c" using h(1,2) by (cases pre) simp_all
    have sub: "{buffer + bp..<buffer + bp + length pre * ?B} \<subseteq> {buffer..<buffer + len}" using lt by auto
    obtain mc' where q: "read_sectors_of_run hw fs mc buffer bp c r = Some (mc', Ok ())" "blk_ready hw ready mc' (i + 1)"
      "mc_blk mc' = mc_blk mc" "\<forall>a. a \<notin> {buffer + bp..<buffer + bp + length pre * ?B} \<union> own_area hw q \<longrightarrow> mc_mem mc' a = mc_mem mc a"
    proof -
      have "i < 65535" "\<forall>x \<in> set pre. on_disk fs capacity x 0" using less.prems(3-5) h(1) by auto
      moreover have "length pre * ?B < 2 ^ 32" "buffer + bp + length pre * ?B < 2 ^ 64" using lt assms(2,5) by linarith+
      moreover have "{buffer + bp..<buffer + bp + length pre * ?B} \<inter> own_area hw q = {}" using sub assms(3) by blast
      ultimately show ?thesis
        using that cluster_run_read [OF less.prems(1) _ assms(1) h(2,3) _ _ h(7-9), of buffer bp] less.prems(2) hd by auto
    qed
    have fat: "\<forall>a \<in> fat_area fs. mc_mem mc' a = mc_mem mc a" using q(4) sub assms(3,4) by blast
    have "uadd bp (length pre * ?B) = Some (bp + length pre * ?B)" using lt assms(2) by (simp add: uadd_def usize_range_def)
    moreover have "len \<noteq> bp + length pre * ?B" using lt by simp
    moreover have ch: "cluster_chain fs (mc_mem mc') (pre @ d # suf)" using less.prems(4,6) h(1) cluster_chain_cong [OF fat] by simp
    then have "get_next_cluster fs (mc_mem mc') (last pre) = Some d" using h(2) by (rule cluster_chain_next)
    ultimately have "read_loop hw fs buffer len ?B mc c 0 bp = read_loop hw fs buffer len ?B mc' d 0 (bp + length pre * ?B)"
      using h(4-6) q(1) by (simp add: read_loop.simps [of hw fs buffer len ?B mc])
    moreover have "\<exists>mc''. read_loop hw fs buffer len ?B mc' d 0 (bp + length pre * ?B) = Some (mc'', Err ())"
    proof (rule less.hyps [OF _ q(2) _ _ refl])
      show "cluster_chain fs (mc_mem mc') (d # suf)" using ch by (rule cluster_chain_suffix)
      have "length (d # suf) * ?B \<le> length rest * ?B" using h(2) l by (intro mult_le_mono1) (cases pre; simp)
      then show "length (d # suf) * ?B < len \<or> \<not> consecutive (d # suf)" using less.prems(7) by linarith
          have "length cs = length pre + length (d # suf)" "0 < length pre" using less.prems(4) h(1,2) by simp_all
      then show "i + 1 + length (d # suf) < 65535" "length (d # suf) < length cs" using less.prems(3) by linarith+
    qed (use less.prems(2-5) h(1) lt q(3) in auto)
    ultimately show ?case by simp
  qed (simp add: read_loop.simps)
qed

end

end
