(* ===== verification/Fat32_Spec.thy ===== *)
theory Fat32_Spec
  imports Fat32_Write Allocator_Spec
begin

text \<open>
  The properties of the block device driver and of the file system, each under the contract of
  the device (\<open>blk_device\<close>), with the reference device as the example.
\<close>

section \<open>A concrete machine\<close>

text \<open>
  The FAT has two files: clusters 2 and 3 in a row, and clusters 5 and 7. The driver's queue is at
  \<open>0x40000\<close>, the device holds the low byte of the position at every position.
\<close>

definition demo_fs :: fat32 where
  "demo_fs = \<lparr>base_lba = 0, lba_size = 512, bytes_per_sector = 512, sectors_per_cluster = 1, reserved_sectors = 1,
     fat_sectors = 1, number_of_fats = 1, fat = 0x20000, root_directory_list = 0x30000\<rparr>"

definition demo_mem :: byte_mem where
  "demo_mem = store32 (store32 (store32 (store32 (\<lambda>_. 0) 0x20008 3) 0x2000C 0x0FFFFFFF) 0x20014 7) 0x2001C 0x0FFFFFFF"

definition demo_machine :: "ref_dev machine" where
  "demo_machine = \<lparr>mc_mem = demo_mem,
     mc_dev = \<lparr>dv_disk = word_of_nat, dv_base = 0x0A000000, dv_queue = 0x40000, dv_count = 0\<rparr>,
     mc_alloc = ram_allocator,
     mc_blk = \<lparr>blk_base_address = 0x0A000000, blk_descriptors = 0x40000, blk_avail = 0x40400, blk_used = 0x41000,
       free_bitmap = replicate 8 (- 1)\<rparr>\<rparr>"

definition demo_file :: file_info where
  "demo_file = \<lparr>entry_cluster = 2, file_size = 1024\<rparr>"

definition demo_fragmented :: file_info where
  "demo_fragmented = \<lparr>entry_cluster = 5, file_size = 700\<rparr>"

lemma demo_geometry [simp]:
  "bps demo_fs = 512" "spc demo_fs = 1" "bytes_per_cluster demo_fs = 512" "base_lba demo_fs = 0" "lba_size demo_fs = 512"
  "fat_area demo_fs = {0x20000..<0x20200}"
  by (simp_all add: demo_fs_def bytes_per_cluster_def fat_area_def)

lemma demo_driver [simp]:
  "blk_descriptors (mc_blk demo_machine) = 0x40000" "mc_mem demo_machine = demo_mem" "mc_alloc demo_machine = ram_allocator"
  by (simp_all add: demo_machine_def)

lemma demo_next:
  "get_next_cluster demo_fs demo_mem 2 = Some 3" "get_next_cluster demo_fs demo_mem 3 = None"
  "get_next_cluster demo_fs demo_mem 5 = Some 7" "get_next_cluster demo_fs demo_mem 7 = None"
  by code_simp+

lemma demo_own: "own_area ref_hw 0x40000 = {0x40000..<0x42000} \<union> {0x1000..<0x1010} \<union> {0x1010}"
  by (simp add: own_area_def ref_hw_def)

lemma demo_ready: "blk_ready ref_hw ref_ready demo_machine 0"
proof -
  have "load16 demo_mem 0x40402 = 0" by code_simp
  then show ?thesis
    by (simp add: blk_ready_def demo_machine_def ref_ready_def avail_at_def frame_ok_def ref_hw_def Let_def)
qed

lemma demo_mounted: "mounted demo_fs"
proof -
  have "(512 :: nat) = 2 ^ 9" by simp
  then show ?thesis unfolding mounted_def demo_geometry by (intro conjI exI [of _ 9]) simp_all
qed

lemma demo_first_sector: "first_sector demo_fs c = 2 + (c - 2)"
  by (simp add: first_sector_def demo_fs_def)

lemma demo_on_disk: "2 \<le> c \<Longrightarrow> c + n < 100 \<Longrightarrow> on_disk demo_fs 0x100000 c n"
  by (simp add: on_disk_def cluster_position_def demo_first_sector)

lemma demo_device: "blk_device ref_hw dv_disk 0x100000 ref_ready"
  by (rule ref.blk_device_axioms)

section \<open>The driver\<close>

text \<open>C24: a request of the driver for whole blocks within the disk, made after fewer than 65535 earlier
  requests and with a buffer apart from the driver's own memory, returns with success as soon as
  the device has served it, moves exactly the requested bytes between the buffer and the disk,
  changes no other memory but the queue and its own locals, and leaves the driver with one more
  request on its count. (With 65535 earlier requests the checked addition to the queue's 16-bit
  index panics.)\<close>

theorem blk_request_correct:
  assumes "blk_device hw disk capacity ready" "blk_ready hw ready mc i" "i < 65535"
    and "512 dvd pos" "512 dvd len" "len < 2 ^ 32" "pos < 2 ^ 64" "pos + len \<le> capacity"
    and "{buffer..<buffer + len} \<inter> own_area hw (blk_descriptors (mc_blk mc)) = {}" "buffer + len \<le> 2 ^ 64"
  shows "\<exists>mc'. operation_sync hw mc buffer (word_of_nat pos) (word_of_nat len) is_write = Some (mc', Ok ()) \<and>
    blk_ready hw ready mc' (i + 1) \<and> transferred hw disk is_write buffer pos len mc mc'"
  using assms by (rule blk_device.request_ok)

theorem blk_request_correct_witness:
  "\<exists>mc'. operation_sync ref_hw demo_machine 0x80000 0x400 0x200 False = Some (mc', Ok ()) \<and> mc_mem mc' 0x80001 = 1"
proof -
  have "{0x80000..<0x80000 + 0x200} \<inter> own_area ref_hw (blk_descriptors (mc_blk demo_machine)) = {}"
    by (auto simp: demo_own)
  from blk_request_correct [OF demo_device demo_ready _ _ _ _ _ _ this, of "0x400" False] obtain mc' where
    "operation_sync ref_hw demo_machine 0x80000 0x400 0x200 False = Some (mc', Ok ())"
    "transferred ref_hw dv_disk False 0x80000 0x400 0x200 demo_machine mc'"
    by auto
  then show ?thesis by (auto simp: transferred_def from_disk_def demo_own demo_machine_def)
qed

section \<open>Reading\<close>

lemma read_done_mono:
  assumes "read_done disk fs f buffer off len A mc mc'" "A \<subseteq> B"
  shows "read_done disk fs f buffer off len B mc mc'"
proof -
  have "mc_mem mc' a = mc_mem mc a" if "a \<notin> {buffer..<buffer + len} \<union> B" for a
  proof -
    have "a \<notin> {buffer..<buffer + len} \<union> A" using that assms(2) by blast
    then show ?thesis using assms(1) unfolding read_done_def by blast
  qed
  then show ?thesis using assms(1) unfolding read_done_def by blast
qed

text \<open>C25: a read whose range lies on consecutive clusters and starts at a multiple of the sector size
  that is not exactly one sector into a cluster (that offset is a case of C26) returns the number of
  bytes asked for, clipped to the file, and puts exactly those bytes of the file into the buffer;
  besides the buffer, rounded up to whole sectors, and the driver's own memory nothing changes. The
  driver has served fewer than 65535 requests before.\<close>

theorem fat32_read_aligned:
  assumes "blk_device hw disk capacity ready" "blk_ready hw ready mc i" "i < 65535" "mounted fs"
    and "file_range fs (mc_mem mc) capacity f off len c n" "len = min req (unat (file_size f) - off)"
    and "off + req < usize_range" "bps fs dvd off" "off mod bytes_per_cluster fs \<noteq> bps fs"
    and "{buffer..<buffer + sectors_for fs len * bps fs} \<inter> own_area hw (blk_descriptors (mc_blk mc)) = {}"
    and "buffer + sectors_for fs len * bps fs < 2 ^ 64"
  shows "\<exists>mc'. fat32_read hw fs f mc buffer off req = Some (mc', Ok len) \<and> blk_ready hw ready mc' (i + 1) \<and>
    mc_alloc mc' = mc_alloc mc \<and>
    read_done disk fs f buffer off len
      ({buffer..<buffer + sectors_for fs len * bps fs} \<union> own_area hw (blk_descriptors (mc_blk mc))) mc mc'"
proof -
  have "offset_in_sector fs (off mod bytes_per_cluster fs) = 0"
    using offset_in_sector_zero assms(4,8,9) by (simp add: mounted_def)
  then show ?thesis by (rule blk_device.read_aligned [OF assms(1-7) _ assms(10,11)])
qed

lemma demo_range:
  assumes "0 < len" "off + len \<le> 1024" "off < 512"
  shows "file_range demo_fs demo_mem 0x100000 demo_file off len 2 1"
  using assms demo_on_disk [of 2 1] demo_next
  by (simp add: file_range_def demo_file_def contiguous_def less_Suc_eq)

theorem fat32_read_aligned_witness:
  "\<exists>mc'. fat32_read ref_hw demo_fs demo_file demo_machine 0x80000 0 2000 = Some (mc', Ok 1024) \<and> mc_mem mc' 0x80201 = 1"
proof -
  have k: "sectors_for demo_fs 1024 * bps demo_fs = 1024" by (simp add: sectors_for_def)
  have r: "file_range demo_fs (mc_mem demo_machine) 0x100000 demo_file 0 1024 2 1" using demo_range by simp
  have "{0x80000..<0x80000 + 1024} \<inter> own_area ref_hw (blk_descriptors (mc_blk demo_machine)) = {}"
    by (auto simp: demo_own)
  then obtain mc' where
    "fat32_read ref_hw demo_fs demo_file demo_machine 0x80000 0 2000 = Some (mc', Ok 1024)"
    "read_done dv_disk demo_fs demo_file 0x80000 0 1024 ({0x80000..<0x80000 + 1024} \<union> own_area ref_hw 0x40000) demo_machine mc'"
    using fat32_read_aligned [OF demo_device demo_ready _ demo_mounted r, where req = 2000 and buffer = "0x80000", unfolded k]
    by (auto simp: demo_file_def usize_range_def)
  moreover have "file_position demo_fs demo_mem demo_file 0x201 = Some 0x601"
    using file_range_position [OF demo_mounted r, of "0x201"] by (simp add: cluster_position_def demo_first_sector)
  ultimately show ?thesis
    by (auto simp: read_done_def demo_machine_def dest!: spec [of _ "0x201 :: nat"])
qed

text \<open>C26: a read whose range lies on consecutive clusters and starts inside a sector, or exactly one
  sector into a cluster, goes through pages of the allocator. When their allocation and their
  release succeed (\<open>temp_buffer\<close>) and the driver has served fewer than 65535 requests, the read
  returns the clipped length, puts exactly those bytes of the file into the buffer and changes no
  other memory in use, and the free memory is the same as before.\<close>

theorem fat32_read_unaligned:
  assumes "blk_device hw disk capacity ready" "blk_ready hw ready mc i" "i < 65535" "mounted fs"
    and "file_range fs (mc_mem mc) capacity f off len c n" "len = min req (unat (file_size f) - off)"
    and "off + req < usize_range" "\<not> bps fs dvd off \<or> off mod bytes_per_cluster fs = bps fs"
    and "temp_buffer (mc_alloc mc) (temp_pages fs (sectors_for fs (len + offset_in_sector fs (off mod bytes_per_cluster fs)))) tmp al"
    and "ma_inv (mc_alloc mc)" "free_set (mc_alloc mc) \<inter> own_area hw (blk_descriptors (mc_blk mc)) = {}"
    and "{buffer..<buffer + len} \<inter> (free_set (mc_alloc mc) \<union> own_area hw (blk_descriptors (mc_blk mc))) = {}"
  shows "\<exists>mc'. fat32_read hw fs f mc buffer off req = Some (mc', Ok len) \<and> blk_ready hw ready mc' (i + 1) \<and>
    ma_inv (mc_alloc mc') \<and> free_set (mc_alloc mc') = free_set (mc_alloc mc) \<and>
    read_done disk fs f buffer off len (free_set (mc_alloc mc) \<union> own_area hw (blk_descriptors (mc_blk mc))) mc mc'"
proof -
  note t = temp_buffer_facts [OF assms(9,10)]
  have "offset_in_sector fs (off mod bytes_per_cluster fs) \<noteq> 0"
    using offset_in_sector_zero [of fs off] assms(4,8) by (auto simp: mounted_def)
  from blk_device.read_unaligned [OF assms(1-7) this assms(9-12)] obtain mc' where
    "fat32_read hw fs f mc buffer off req = Some (mc', Ok len)" "blk_ready hw ready mc' (i + 1)" "mc_alloc mc' = al"
    "read_done disk fs f buffer off len ({tmp..<tmp + pages_to_bytes (temp_pages fs (sectors_for fs (len +
       offset_in_sector fs (off mod bytes_per_cluster fs))))} \<union> own_area hw (blk_descriptors (mc_blk mc))) mc mc'"
    by blast
  then show ?thesis using t(1-3) by (intro exI [of _ mc'] conjI) (simp_all, rule read_done_mono, auto)
qed

definition demo_temp :: "(usize \<times> memory_allocator) option" where
  "demo_temp = do {
     (al, r) \<leftarrow> allocate_pages ram_allocator 1 0;
     (case r of
        Ok a \<Rightarrow> do { (al', q) \<leftarrow> ma_free al a 0x1000;
          (if q = Ok () \<and> a + 0x2000 < usize_range \<and> free_size al + 0x2000 < usize_range then ret (a, al') else panic) }
      | Err _ \<Rightarrow> panic) }"

lemma demo_temp_some: "map_option fst demo_temp = Some 0x40000000"
  by code_simp

lemma demo_temp_buffer: "\<exists>tmp al. temp_buffer ram_allocator 1 tmp al"
proof -
  from demo_temp_some obtain tmp al where "demo_temp = Some (tmp, al)" by auto
  then show ?thesis
    by (auto simp: demo_temp_def bind_eq_Some_conv temp_buffer_def pages_to_bytes_def PAGE_SHIFT_def usize_range_def
        release_room_def fits_def elim!: case_result_eqE split: if_splits)
qed

theorem fat32_read_unaligned_witness:
  "\<exists>mc'. fat32_read ref_hw demo_fs demo_file demo_machine 0x80000 5 100 = Some (mc', Ok 100) \<and> mc_mem mc' 0x80001 = 6 \<and>
     free_set (mc_alloc mc') = {0x40000000..<0x50000000}"
proof -
  have d: "offset_in_sector demo_fs (5 mod bytes_per_cluster demo_fs) = 5" "offset_in_sector demo_fs 5 = 5"
    by (simp_all add: offset_in_sector_def skipped_sectors_def)
  have "temp_pages demo_fs (sectors_for demo_fs (100 + offset_in_sector demo_fs (5 mod bytes_per_cluster demo_fs))) = 1"
    unfolding d(1) by (simp add: sectors_for_def temp_pages_def PAGE_SHIFT_def uand_not_def)
  then obtain tmp al where t: "temp_buffer (mc_alloc demo_machine) (temp_pages demo_fs (sectors_for demo_fs
      (100 + offset_in_sector demo_fs (5 mod bytes_per_cluster demo_fs)))) tmp al"
    using demo_temp_buffer by auto
  have r: "file_range demo_fs (mc_mem demo_machine) 0x100000 demo_file 5 100 2 1" using demo_range by simp
  have "free_set (mc_alloc demo_machine) \<inter> own_area ref_hw (blk_descriptors (mc_blk demo_machine)) = {}"
    "{0x80000..<0x80000 + 100} \<inter> (free_set (mc_alloc demo_machine) \<union> own_area ref_hw (blk_descriptors (mc_blk demo_machine))) = {}"
    by (auto simp: demo_own ram)
  from fat32_read_unaligned [OF demo_device demo_ready _ demo_mounted r, of 100, OF _ _ _ _ t _ this] obtain mc' where
    "fat32_read ref_hw demo_fs demo_file demo_machine 0x80000 5 100 = Some (mc', Ok 100)"
    "free_set (mc_alloc mc') = free_set ram_allocator"
    "read_done dv_disk demo_fs demo_file 0x80000 5 100 (free_set ram_allocator \<union> own_area ref_hw 0x40000) demo_machine mc'"
    by (auto simp: demo_file_def usize_range_def d ram)
  moreover have "file_position demo_fs demo_mem demo_file 6 = Some 0x406"
    using file_range_position [OF demo_mounted r, of 1] by (simp add: cluster_position_def demo_first_sector)
  ultimately show ?thesis
    by (auto simp: read_done_def demo_machine_def ram dest!: spec [of _ "1 :: nat"])
qed

section \<open>Writing and reading back\<close>

text \<open>C27: a write of whole sectors to a range on consecutive clusters, at a multiple of the sector size
  that is not exactly one sector into a cluster (such a write is refused), puts the buffer into the
  file and changes nothing else on the disk, and a read of the same range afterwards returns what
  was written. The driver has served fewer than 65534 requests before.\<close>

theorem fat32_write_read:
  assumes "blk_device hw disk capacity ready" "blk_ready hw ready mc i" "i + 1 < 65535" "mounted fs"
    and "file_range fs (mc_mem mc) capacity f off len c n" "len = min req (unat (file_size f) - off)"
    and "off + req < usize_range" "bps fs dvd off" "off mod bytes_per_cluster fs \<noteq> bps fs" "bps fs dvd len"
    and "{buffer..<buffer + len} \<inter> own_area hw (blk_descriptors (mc_blk mc)) = {}" "buffer + len < 2 ^ 64"
    and "{target..<target + len} \<inter> own_area hw (blk_descriptors (mc_blk mc)) = {}" "target + len < 2 ^ 64"
    and "fat_area fs \<inter> own_area hw (blk_descriptors (mc_blk mc)) = {}"
  shows "\<exists>mc1 mc2. fat32_write hw fs f mc buffer off req = Some (mc1, Ok len) \<and>
    write_done disk fs f buffer off len (own_area hw (blk_descriptors (mc_blk mc))) mc mc1 \<and>
    fat32_read hw fs f mc1 target off req = Some (mc2, Ok len) \<and>
    (\<forall>j < len. mc_mem mc2 (target + j) = mc_mem mc (buffer + j))"
proof -
  let ?own = "own_area hw (blk_descriptors (mc_blk mc))"
  note fr = file_range_facts [OF assms(4,5)]
  have k: "sectors_for fs len * bps fs = len" using fr(6,1) assms(10) by (rule sectors_for_whole)
  have i: "i < 65535" using assms(3) by simp
  have o: "offset_in_sector fs (off mod bytes_per_cluster fs) = 0"
    using offset_in_sector_zero fr(6) assms(8,9) by simp
  obtain mc1 where w: "fat32_write hw fs f mc buffer off req = Some (mc1, Ok len)" "blk_ready hw ready mc1 (i + 1)"
    "write_done disk fs f buffer off len ?own mc mc1"
    using blk_device.write_aligned [OF assms(1,2) i assms(4-7) o assms(10-12)] by blast
  have blk: "mc_blk mc1 = mc_blk mc" using w(3) by (simp add: write_done_def)
  have fat: "\<forall>a \<in> fat_area fs. mc_mem mc1 a = mc_mem mc a" using w(3) assms(15) by (auto simp: write_done_def)
  have r: "file_range fs (mc_mem mc1) capacity f off len c n" using assms(5) file_range_cong(1) [OF fat] by simp
  obtain mc2 where rd: "fat32_read hw fs f mc1 target off req = Some (mc2, Ok len)"
    "read_done disk fs f target off len ({target..<target + len} \<union> ?own) mc1 mc2"
    using blk_device.read_aligned [OF assms(1) w(2) assms(3,4) r assms(6,7) o, unfolded k blk, OF assms(13,14)] by blast
  have "mc_mem mc2 (target + j) = mc_mem mc (buffer + j)" if "j < len" for j
    using that w(3) rd(2) file_range_cong(2) [OF fat] by (fastforce simp: write_done_def read_done_def)
  then show ?thesis using w rd by blast
qed

theorem fat32_write_read_witness:
  "\<exists>mc1 mc2. fat32_write ref_hw demo_fs demo_file demo_machine 0x20000 0 1024 = Some (mc1, Ok 1024) \<and>
     fat32_read ref_hw demo_fs demo_file mc1 0x80000 0 1024 = Some (mc2, Ok 1024) \<and> mc_mem mc2 0x80008 = 3"
proof -
  have r: "file_range demo_fs (mc_mem demo_machine) 0x100000 demo_file 0 1024 2 1" using demo_range by simp
  have "{0x20000..<0x20000 + 1024} \<inter> own_area ref_hw (blk_descriptors (mc_blk demo_machine)) = {}"
    "{0x80000..<0x80000 + 1024} \<inter> own_area ref_hw (blk_descriptors (mc_blk demo_machine)) = {}"
    "fat_area demo_fs \<inter> own_area ref_hw (blk_descriptors (mc_blk demo_machine)) = {}"
    by (auto simp: demo_own)
  then obtain mc1 mc2 where "fat32_write ref_hw demo_fs demo_file demo_machine 0x20000 0 1024 = Some (mc1, Ok 1024)"
    "fat32_read ref_hw demo_fs demo_file mc1 0x80000 0 1024 = Some (mc2, Ok 1024)"
    "\<forall>j < 1024. mc_mem mc2 (0x80000 + j) = mc_mem demo_machine (0x20000 + j)"
    using fat32_write_read [OF demo_device demo_ready _ demo_mounted r, where req = 1024 and buffer = "0x20000" and target = "0x80000"]
    by (auto simp: demo_file_def usize_range_def)
  moreover have "demo_mem 0x20008 = 3" by code_simp
  ultimately show ?thesis by (auto dest: spec [of _ "8 :: nat"])
qed

section \<open>Fragmented files\<close>

text \<open>C28: reading a whole file whose clusters are not consecutive on the disk never succeeds:
  after the first gap the loop asks for the full length again and runs into the end of the
  cluster chain.\<close>

theorem fat32_fragmented_read_fails:
  assumes "blk_device hw disk capacity ready" "blk_ready hw ready mc i" "i + length cs < 65535" "mounted fs"
    and "cluster_chain fs (mc_mem mc) cs" "hd cs = unat (entry_cluster f)" "\<not> consecutive cs"
    and "(length cs - 1) * bytes_per_cluster fs < unat (file_size f)" "unat (file_size f) \<le> length cs * bytes_per_cluster fs"
    and "\<forall>x \<in> set cs. on_disk fs capacity x 0" "unat (file_size f) \<le> req" "req < usize_range"
    and "{buffer..<buffer + unat (file_size f)} \<inter> (own_area hw (blk_descriptors (mc_blk mc)) \<union> fat_area fs) = {}"
    and "fat_area fs \<inter> own_area hw (blk_descriptors (mc_blk mc)) = {}" "buffer + unat (file_size f) < 2 ^ 64"
  shows "\<exists>mc'. fat32_read hw fs f mc buffer 0 req = Some (mc', Err ())"
proof -
  let ?n = "unat (file_size f)" and ?B = "bytes_per_cluster fs"
  obtain rest where cs: "cs = unat (entry_cluster f) # rest" using assms(5,6) by (cases cs) auto
  have n: "?n < 2 ^ 32" using unsigned_less [where ?'a = nat and w = "file_size f"] by simp
  have "0 < ?n" "0 < ?B" using assms(4,8) by (simp_all add: mounted_def bytes_per_cluster_def)
  then have "fat32_read hw fs f mc buffer 0 req = read_loop hw fs buffer ?n ?B mc (unat (entry_cluster f)) 0 0"
    using assms(11,12) by (simp add: fat32_read_def clip_length_def uadd_def udiv_def)
  moreover have "0 + length rest * ?B < ?n" using assms(8) cs by simp
  from blk_device.fragmented_loop [OF assms(1,4) n assms(13-15) assms(2) refl assms(3) cs assms(10,5) this disjI2 [OF assms(7)]]
  have "\<exists>mc'. read_loop hw fs buffer ?n ?B mc (unat (entry_cluster f)) 0 0 = Some (mc', Err ())" .
  ultimately show ?thesis by simp
qed

theorem fat32_fragmented_read_fails_witness:
  "\<exists>mc'. fat32_read ref_hw demo_fs demo_fragmented demo_machine 0x80000 0 700 = Some (mc', Err ())"
proof -
  have "cluster_chain demo_fs (mc_mem demo_machine) [5, 7]" by (simp add: demo_next)
  moreover have "hd [5, 7] = unat (entry_cluster demo_fragmented)" "\<not> consecutive [5, 7]" "unat (file_size demo_fragmented) = 700"
    by (simp_all add: demo_fragmented_def)
  moreover have "{0x80000..<0x80000 + 700} \<inter> (own_area ref_hw (blk_descriptors (mc_blk demo_machine)) \<union> fat_area demo_fs) = {}"
    "fat_area demo_fs \<inter> own_area ref_hw (blk_descriptors (mc_blk demo_machine)) = {}"
    by (auto simp: demo_own)
  moreover have "\<forall>x \<in> set [5, 7]. on_disk demo_fs 0x100000 x 0" by (simp add: demo_on_disk)
  ultimately show ?thesis
    by (intro fat32_fragmented_read_fails [OF demo_device demo_ready _ demo_mounted, where cs = "[5, 7]"]) (simp_all add: usize_range_def)
qed

section \<open>Termination\<close>

text \<open>C29: the inner loops of reading and writing end without a panic whatever the FAT contains,
  cycles included: they only follow the chain while it goes up by one.\<close>

theorem cluster_runs_terminate:
  assumes "mounted fs" "len < 2 ^ 32" "d < bytes_per_cluster fs" "c + 1 < 2 ^ 32"
  shows "(\<exists>y. read_run fs m len (bytes_per_cluster fs) (start_run c d) = Some y) \<and>
    (\<exists>y. write_run fs m len (bytes_per_cluster fs) (start_run c d) = Some y)"
proof -
  have "0 < bps fs" using assms(1) by (simp add: mounted_def)
  then have "run_within fs len (start_run c d)"
    using assms(3,4) offset_in_sector_le [of fs d] by (simp add: run_within_def start_run_def)
  then show ?thesis using read_run_returns [OF assms(1,2)] write_run_returns [OF assms(1,2)] by blast
qed

text \<open>A FAT in which cluster 2 is its own successor.\<close>

theorem cluster_runs_terminate_witness:
  "\<exists>y. read_run demo_fs (store32 (\<lambda>_. 0) 0x20008 2) 100000 (bytes_per_cluster demo_fs) (start_run 2 0) = Some y"
  using cluster_runs_terminate [OF demo_mounted, of 100000 0 2 "store32 (\<lambda>_. 0) 0x20008 2"] by simp

end
