(* ===== verification/Virtio_Mmio.thy ===== *)
theory Virtio_Mmio
  imports Fat32 Gic_Mmio
begin

text \<open>
  The block device that a guest sees (\<open>src/src/mmio/virtio_blk.rs\<close>) and the RAM of a guest
  (\<open>get_physical_address\<close> of \<open>src/src/vm.rs\<close>). The rings are read and written in physical
  memory; file contents are moved by \<open>Fat32::read\<close> and \<open>Fat32::write\<close>. A null pointer
  is 0, and a dereference of it is a panic. The 16-bit counters are checked additions.
\<close>

section \<open>Guest RAM\<close>

record vm_ram =
  vm_id :: usize
  ram_virtual_base_address :: usize
  ram_physical_base_address :: usize
  ram_size :: usize

definition get_physical_address :: "'a vm_ram_scheme \<Rightarrow> usize \<Rightarrow> usize option option" where
  "get_physical_address vm virtual_address = do {
     e \<leftarrow> uadd (ram_virtual_base_address vm) (ram_size vm);
     if ram_virtual_base_address vm \<le> virtual_address \<and> virtual_address < e then do {
       a \<leftarrow> usub virtual_address (ram_virtual_base_address vm);
       a \<leftarrow> uadd a (ram_physical_base_address vm);
       ret (Some a) }
     else ret None }"

section \<open>The device\<close>

definition VIRTIO_BLK_INT_ID :: nat where "VIRTIO_BLK_INT_ID = 40"

record virtio_blk_mmio =
  v_file :: file_info
  v_interrupt_status :: u32
  v_status :: u32
  v_queue_size :: usize
  v_queue_ready :: bool
  v_page_size :: usize
  v_descriptor :: usize
  v_avail_ring :: usize
  v_used_ring :: usize
  v_last_avail_id :: u16
  v_used_id :: u16

definition virtio_mmio_new :: "file_info \<Rightarrow> virtio_blk_mmio option" where
  "virtio_mmio_new f =
     (if get_file_size f AND 0x1FF \<noteq> 0 then panic
      else ret \<lparr>v_file = f, v_interrupt_status = 0, v_status = 0, v_queue_size = 0, v_queue_ready = False,
        v_page_size = 2 ^ 12, v_descriptor = 0, v_avail_ring = 0, v_used_ring = 0, v_last_avail_id = 0,
        v_used_id = 0\<rparr>)"

section \<open>Rings\<close>

definition get_descriptor :: "virtio_blk_mmio \<Rightarrow> byte_mem \<Rightarrow> u16 \<Rightarrow> virt_queue_desc option option" where
  "get_descriptor v m i =
     (if v_descriptor v \<noteq> 0 then do {
        a \<leftarrow> uadd (v_descriptor v) (size_of_desc * unat i);
        ret (Some (load_desc m a)) }
      else ret None)"

definition get_descriptor_id :: "virtio_blk_mmio \<Rightarrow> byte_mem \<Rightarrow> u16 \<Rightarrow> u16 option option" where
  "get_descriptor_id v m i =
     (if v_avail_ring v \<noteq> 0 then do {
        a \<leftarrow> uadd (v_avail_ring v) 4;
        a \<leftarrow> uadd a (2 * unat i);
        ret (Some (load16 m a)) }
      else ret None)"

definition get_next_avail_id :: "virtio_blk_mmio \<Rightarrow> byte_mem \<Rightarrow> (virtio_blk_mmio \<times> u16 option) option" where
  "get_next_avail_id v m =
     (if v_avail_ring v = 0 then panic
      else if v_last_avail_id v = load16 m (v_avail_ring v + 2) then ret (v, None)
      else if (word_of_nat (v_queue_size v) :: u16) = 0 then panic
      else if v_last_avail_id v = 0xFFFF then panic
      else ret (v\<lparr>v_last_avail_id := v_last_avail_id v + 1\<rparr>,
        Some (v_last_avail_id v mod word_of_nat (v_queue_size v))))"

definition write_used :: "virtio_blk_mmio \<Rightarrow> byte_mem \<Rightarrow> u16 \<Rightarrow> u32 \<Rightarrow> (virtio_blk_mmio \<times> byte_mem) option" where
  "write_used v m i len =
     (if (word_of_nat (v_queue_size v) :: u16) = 0 \<or> v_used_id v = 0xFFFF then panic
      else do {
        let used_id = v_used_id v mod word_of_nat (v_queue_size v);
        let v = v\<lparr>v_used_id := v_used_id v + 1\<rparr>;
        a \<leftarrow> uadd (v_used_ring v) 4;
        a \<leftarrow> uadd a (8 * unat used_id);
        let m = store32 (store32 m a (ucast i)) (a + 4) len;
        if v_used_ring v = 0 then panic else ret (v, store16 m (v_used_ring v + 2) (v_used_id v)) })"

section \<open>Serving requests\<close>

text \<open>
  One data descriptor: the new offset, number of bytes and status. A buffer outside the guest's
  RAM makes the request fail and is passed over.
\<close>

definition transfer ::
    "'h hw \<Rightarrow> fat32 \<Rightarrow> 'a vm_ram_scheme \<Rightarrow> virtio_blk_mmio \<Rightarrow> bool \<Rightarrow> 'h machine \<Rightarrow> virt_queue_desc \<Rightarrow>
     usize \<Rightarrow> nat \<Rightarrow> u8 \<Rightarrow> ('h machine \<times> usize \<times> nat \<times> u8) option" where
  "transfer hw fs vm v is_write mc descriptor offset tsize status = do {
     let len = unat (desc_length descriptor);
     tsize \<leftarrow> add32 tsize len;
     a \<leftarrow> get_physical_address vm (unat (desc_address descriptor));
     case a of
       None \<Rightarrow> ret (mc, offset, tsize, VIRTIO_BLK_S_IOERR)
     | Some address \<Rightarrow> do {
         (mc, r) \<leftarrow> (if is_write then fat32_write hw fs (v_file v) mc address offset len
           else fat32_read hw fs (v_file v) mc address offset len);
         let status = (case r of Err e \<Rightarrow> VIRTIO_BLK_S_IOERR | Ok n \<Rightarrow> status);
         offset \<leftarrow> uadd offset len;
         ret (mc, offset, tsize, status) } }"

text \<open>
  The loop over the data descriptors of a request. It returns the last descriptor, the number
  of bytes and the status, or \<open>None\<close> when the function gives up. A chain without an end
  makes it run for ever.
\<close>

partial_function (option) data_loop ::
    "'h hw \<Rightarrow> fat32 \<Rightarrow> 'a vm_ram_scheme \<Rightarrow> virtio_blk_mmio \<Rightarrow> bool \<Rightarrow> 'h machine \<Rightarrow> virt_queue_desc \<Rightarrow>
     usize \<Rightarrow> nat \<Rightarrow> u8 \<Rightarrow> ('h machine \<times> (virt_queue_desc \<times> nat \<times> u8) option) option" where
  "data_loop hw fs vm v is_write mc descriptor offset tsize status = do {
     d \<leftarrow> get_descriptor v (mc_mem mc) (desc_next descriptor);
     (case d of
        None \<Rightarrow> ret (mc, None)
      | Some descriptor \<Rightarrow>
          if desc_flags descriptor AND VIRT_QUEUE_DESC_FLAGS_NEXT = 0 then ret (mc, Some (descriptor, tsize, status))
          else do {
            (mc, offset, tsize, status) \<leftarrow> transfer hw fs vm v is_write mc descriptor offset tsize status;
            data_loop hw fs vm v is_write mc descriptor offset tsize status }) }"

text \<open>One request; the flag is \<open>False\<close> when the function gives up.\<close>

definition serve_request ::
    "'h hw \<Rightarrow> fat32 \<Rightarrow> 'a vm_ram_scheme \<Rightarrow> virtio_blk_mmio \<Rightarrow> 'h machine \<Rightarrow> u16 \<Rightarrow>
     (virtio_blk_mmio \<times> 'h machine \<times> bool) option" where
  "serve_request hw fs vm v mc i = do {
     descriptor_id \<leftarrow> get_descriptor_id v (mc_mem mc) i;
     case descriptor_id of None \<Rightarrow> ret (v, mc, False) | Some descriptor_id \<Rightarrow> do {
       d \<leftarrow> get_descriptor v (mc_mem mc) descriptor_id;
       case d of None \<Rightarrow> ret (v, mc, False) | Some request_descriptor \<Rightarrow>
         if unat (desc_length request_descriptor) \<noteq> size_of_blk_req then ret (v, mc, False)
         else do {
           a \<leftarrow> get_physical_address vm (unat (desc_address request_descriptor));
           case a of None \<Rightarrow> ret (v, mc, False) | Some a \<Rightarrow> do {
             let blk_req = load_blk_req (mc_mem mc) a;
             let is_write = (req_type blk_req = VIRTIO_BLK_TYPE_OUT);
             let offset = unat (push_bit 9 (req_sector blk_req));
             if desc_flags request_descriptor AND VIRT_QUEUE_DESC_FLAGS_NEXT = 0 then ret (v, mc, False)
             else do {
               (mc, r) \<leftarrow> data_loop hw fs vm v is_write mc request_descriptor offset 0 VIRTIO_BLK_S_OK;
               case r of None \<Rightarrow> ret (v, mc, False) | Some (descriptor, tsize, status) \<Rightarrow> do {
                 a \<leftarrow> get_physical_address vm (unat (desc_address descriptor));
                 (mc, tsize) \<leftarrow> (case a of
                     Some a \<Rightarrow> do {
                       tsize \<leftarrow> add32 tsize (unat (desc_length descriptor));
                       ret (mc\<lparr>mc_mem := (mc_mem mc)(a := status)\<rparr>, tsize) }
                   | None \<Rightarrow> ret (mc, tsize));
                 (v, m) \<leftarrow> write_used v (mc_mem mc) descriptor_id (word_of_nat tsize);
                 ret (v, mc\<lparr>mc_mem := m\<rparr>, True) } } } } } }"

partial_function (option) operation_loop ::
    "'h hw \<Rightarrow> fat32 \<Rightarrow> 'a vm_ram_scheme \<Rightarrow> virtio_blk_mmio \<Rightarrow> 'h machine \<Rightarrow>
     (virtio_blk_mmio \<times> 'h machine \<times> bool) option" where
  "operation_loop hw fs vm v mc = do {
     (v, r) \<leftarrow> get_next_avail_id v (mc_mem mc);
     case r of None \<Rightarrow> ret (v, mc, True) | Some i \<Rightarrow> do {
       (v, mc, go) \<leftarrow> serve_request hw fs vm v mc i;
       if go then operation_loop hw fs vm v mc else ret (v, mc, False) } }"

definition virtio_operation ::
    "'h hw \<Rightarrow> fat32 \<Rightarrow> 'a vm_ram_scheme \<Rightarrow> virtio_blk_mmio \<Rightarrow> 'h machine \<Rightarrow> cpu \<Rightarrow> gicd \<Rightarrow>
     (virtio_blk_mmio \<times> 'h machine \<times> cpu \<times> gicd) option" where
  "virtio_operation hw fs vm v mc c d = do {
     (v, mc, go) \<leftarrow> operation_loop hw fs vm v mc;
     if go then do {
       let v = v\<lparr>v_interrupt_status := v_interrupt_status v OR 1\<rparr>;
       (c, d) \<leftarrow> gicd_trigger_interrupt c d VIRTIO_BLK_INT_ID None;
       ret (v, mc, c, d) }
     else ret (v, mc, c, d) }"

section \<open>Registers\<close>

definition virtio_mmio_read :: "virtio_blk_mmio \<Rightarrow> usize \<Rightarrow> nat \<Rightarrow> (u64, unit) result option" where
  "virtio_mmio_read v offset access_width =
     (if offset = VIRTIO_MMIO_MAGIC then ret (Ok (ucast VIRTIO_MMIO_MAGIC_VALUE))
      else if offset = VIRTIO_MMIO_VERSION then ret (Ok 0x01)
      else if offset = VIRTIO_MMIO_DEVICE_ID then ret (Ok 0x02)
      else if offset = VIRTIO_MMIO_VENDOR_ID then ret (Ok 0x554d4551)
      else if offset = VIRTIO_MMIO_DEVICE_FEATURES then ret (Ok 0x00)
      else if offset = VIRTIO_MMIO_QUEUE_NUM_MAX then ret (Ok 1024)
      else if offset = VIRTIO_MMIO_QUEUE_READY then ret (Ok (of_bool (v_queue_ready v)))
      else if offset = VIRTIO_MMIO_QUEUE_PFN then do {
        p \<leftarrow> udiv (v_descriptor v) (v_page_size v);
        ret (Ok (word_of_nat p)) }
      else if offset = VIRTIO_MMIO_INTERRUPT_STATUS then ret (Ok (ucast (v_interrupt_status v)))
      else if offset = VIRTIO_MMIO_STATUS then ret (Ok (ucast (v_status v)))
      else if VIRTIO_CONFIG_OFFSET \<le> offset then
        (let config_offset = offset - VIRTIO_CONFIG_OFFSET in
         if config_offset < 8 then
           ret (Ok (word_of_nat (get_file_size (v_file v) div 2 ^ 9 div 2 ^ (config_offset * 8))))
         else ret (Ok 0))
      else ret (Ok 0))"

text \<open>The addresses of the rings, from the address of the descriptors and the queue size.\<close>

definition set_rings :: "virtio_blk_mmio \<Rightarrow> virtio_blk_mmio option" where
  "set_rings v = do {
     t \<leftarrow> umul size_of_desc (v_queue_size v);
     avail \<leftarrow> uadd (v_descriptor v) t;
     t \<leftarrow> uadd 3 (v_queue_size v);
     t \<leftarrow> umul 2 t;
     t \<leftarrow> uadd avail t;
     t \<leftarrow> usub t 1;
     _ \<leftarrow> usub (v_page_size v) 1;
     used \<leftarrow> uadd (uand_not t (v_page_size v)) (v_page_size v);
     ret (v\<lparr>v_avail_ring := avail, v_used_ring := used\<rparr>) }"

definition virtio_reset :: "virtio_blk_mmio \<Rightarrow> virtio_blk_mmio" where
  "virtio_reset v = v\<lparr>v_queue_size := 0, v_queue_ready := False, v_page_size := 2 ^ 12, v_interrupt_status := 0,
     v_status := 0, v_descriptor := 0, v_avail_ring := 0, v_used_ring := 0, v_last_avail_id := 0, v_used_id := 0\<rparr>"

definition virtio_mmio_write ::
    "'h hw \<Rightarrow> fat32 \<Rightarrow> 'a vm_ram_scheme \<Rightarrow> virtio_blk_mmio \<Rightarrow> 'h machine \<Rightarrow> cpu \<Rightarrow> gicd \<Rightarrow>
     usize \<Rightarrow> nat \<Rightarrow> u64 \<Rightarrow> ((virtio_blk_mmio \<times> 'h machine \<times> cpu \<times> gicd) \<times> (unit, unit) result) option" where
  "virtio_mmio_write hw fs vm v mc c d offset access_width value =
     (if offset = VIRTIO_MMIO_GUEST_PAGE_SIZE then ret ((v\<lparr>v_page_size := unat value\<rparr>, mc, c, d), Ok ())
      else if offset = VIRTIO_MMIO_QUEUE_NUM then do {
        v \<leftarrow> set_rings (v\<lparr>v_queue_size := unat value\<rparr>);
        ret ((v, mc, c, d), Ok ()) }
      else if offset = VIRTIO_MMIO_QUEUE_PFN then do {
        p \<leftarrow> umul (unat value) (v_page_size v);
        a \<leftarrow> get_physical_address vm p;
        (case a of
           Some address \<Rightarrow> do { v \<leftarrow> set_rings (v\<lparr>v_descriptor := address\<rparr>); ret ((v, mc, c, d), Ok ()) }
         | None \<Rightarrow> ret ((v, mc, c, d), Ok ())) }
      else if offset = VIRTIO_MMIO_QUEUE_NOTIFY then
        (if value = 0 then do {
           s \<leftarrow> virtio_operation hw fs vm v mc c d;
           ret (s, Ok ()) }
         else ret ((v, mc, c, d), Ok ()))
      else if offset = VIRTIO_MMIO_INTERRUPT_ACK then
        ret ((v\<lparr>v_interrupt_status := v_interrupt_status v AND NOT (ucast value)\<rparr>, mc, c, d), Ok ())
      else if offset = VIRTIO_MMIO_STATUS then
        (if value = 0 then ret ((virtio_reset v, mc, c, d), Ok ())
         else ret ((v\<lparr>v_status := ucast value\<rparr>, mc, c, d), Ok ()))
      else ret ((v, mc, c, d), Ok ()))"

end
