(* ===== verification/Virtio_Spec.thy ===== *)
theory Virtio_Spec
  imports Fat32_Spec Virtio_Mmio Gic_Spec
begin

text \<open>
  A disk read of a guest from the notification to the interrupt: the emulated block device
  (\<open>src/src/mmio/virtio_blk.rs\<close>) on top of the file system and of the driver of the real disk.
\<close>

section \<open>The queue of a guest\<close>

text \<open>The guest's queue: descriptors, available ring and used ring, one behind the other.\<close>

definition queue_ok :: "virtio_blk_mmio \<Rightarrow> bool" where
  "queue_ok v \<longleftrightarrow> 0 < v_queue_size v \<and> v_queue_size v \<le> 1024 \<and> 0 < v_descriptor v \<and>
     v_avail_ring v = v_descriptor v + 16 * v_queue_size v \<and>
     v_avail_ring v + 2 * (3 + v_queue_size v) \<le> v_used_ring v \<and> v_used_ring v + 4 + 8 * v_queue_size v < usize_range"

definition queue_area :: "virtio_blk_mmio \<Rightarrow> usize set" where
  "queue_area v = {v_descriptor v..<v_used_ring v + 4 + 8 * v_queue_size v}"

definition desc_of :: "virtio_blk_mmio \<Rightarrow> byte_mem \<Rightarrow> u16 \<Rightarrow> virt_queue_desc" where
  "desc_of v m i = load_desc m (v_descriptor v + 16 * unat i)"

text \<open>The addresses that the device computes from the registers make such a queue.\<close>

lemma set_rings_queue_ok:
  assumes "set_rings v = Some v'" "0 < v_queue_size v" "v_queue_size v \<le> 1024" "0 < v_descriptor v"
    and "v_page_size v = 2 ^ k" "k < 64" "v_used_ring v' + 4 + 8 * v_queue_size v < usize_range"
  shows "queue_ok v'"
proof -
  let ?avail = "v_descriptor v + 16 * v_queue_size v"
  let ?t = "?avail + 2 * (3 + v_queue_size v) - 1"
  from assms(1,5) have v': "v' = v\<lparr>v_avail_ring := ?avail, v_used_ring := uand_not ?t (2 ^ k) + 2 ^ k\<rparr>" "?t < usize_range"
    by (auto simp: set_rings_def checked_simps size_of_desc_def bind_eq_Some_conv)
  have "?t < ?t div 2 ^ k * 2 ^ k + 2 ^ k" 
    using dividend_less_div_times [of "2 ^ k" ?t] by simp
  then have "?avail + 2 * (3 + v_queue_size v) \<le> uand_not ?t (2 ^ k) + 2 ^ k"
    using uand_not_eq [OF v'(2) [unfolded usize_range_def] assms(6)] by linarith
  then show ?thesis using assms(2-4,7) by (simp add: v'(1) queue_ok_def)
qed

lemma get_descriptor_queue:
  assumes "queue_ok v" "unat i < v_queue_size v"
  shows "get_descriptor v m i = Some (Some (desc_of v m i))"
proof -
  have "v_descriptor v + 16 * unat i < usize_range" "v_descriptor v \<noteq> 0"
    using assms unfolding queue_ok_def by linarith+
  then show ?thesis by (simp add: get_descriptor_def uadd_def size_of_desc_def desc_of_def)
qed

lemma desc_of_cong:
  assumes "queue_ok v" "unat i < v_queue_size v" "\<And>a. a \<in> queue_area v \<Longrightarrow> m' a = m a"
  shows "desc_of v m' i = desc_of v m i"
proof -
  have "m' a = m a" if "v_descriptor v + 16 * unat i \<le> a" "a < v_descriptor v + 16 * unat i + 16" for a
  proof (rule assms(3))
    show "a \<in> queue_area v" using that assms(1,2) unfolding queue_area_def queue_ok_def atLeastLessThan_iff by linarith
  qed
  then show ?thesis unfolding desc_of_def load_desc_def virt_queue_desc.ext_inject
    by (intro arg_cong2 [where f = Pair] conjI load_cong) simp_all
qed

section \<open>A read request\<close>

text \<open>
  A request of three descriptors: the header at \<open>head\<close>, a buffer of \<open>len\<close> bytes at the physical
  address \<open>buffer\<close> and the status byte at \<open>status\<close>; \<open>off\<close> is the position in the image.
\<close>

definition read_request ::
    "'a vm_ram_scheme \<Rightarrow> virtio_blk_mmio \<Rightarrow> byte_mem \<Rightarrow> u16 \<Rightarrow> nat \<Rightarrow> usize \<Rightarrow> nat \<Rightarrow> usize \<Rightarrow> bool" where
  "read_request vm v m head off buffer len status \<longleftrightarrow>
     (let d0 = desc_of v m head; d1 = desc_of v m (desc_next d0); d2 = desc_of v m (desc_next d1) in
      unat head < v_queue_size v \<and> unat (desc_next d0) < v_queue_size v \<and> unat (desc_next d1) < v_queue_size v \<and>
      desc_length d0 = 16 \<and> desc_flags d0 AND VIRT_QUEUE_DESC_FLAGS_NEXT \<noteq> 0 \<and>
      (\<exists>h. get_physical_address vm (unat (desc_address d0)) = Some (Some h) \<and>
         req_type (load_blk_req m h) \<noteq> VIRTIO_BLK_TYPE_OUT \<and> unat (push_bit 9 (req_sector (load_blk_req m h))) = off) \<and>
      desc_flags d1 AND VIRT_QUEUE_DESC_FLAGS_NEXT \<noteq> 0 \<and> unat (desc_length d1) = len \<and>
      get_physical_address vm (unat (desc_address d1)) = Some (Some buffer) \<and>
      desc_flags d2 AND VIRT_QUEUE_DESC_FLAGS_NEXT = 0 \<and> desc_length d2 = 1 \<and>
      get_physical_address vm (unat (desc_address d2)) = Some (Some status))"

text \<open>The request is next on the available ring.\<close>

definition next_request :: "virtio_blk_mmio \<Rightarrow> byte_mem \<Rightarrow> u16 \<Rightarrow> bool" where
  "next_request v m head \<longleftrightarrow> v_last_avail_id v \<noteq> 0xFFFF \<and> load16 m (v_avail_ring v + 2) = v_last_avail_id v + 1 \<and>
     load16 m (v_avail_ring v + 4 + 2 * (unat (v_last_avail_id v) mod v_queue_size v)) = head"

lemma queue_size16: "queue_ok v \<Longrightarrow> unat (word_of_nat (v_queue_size v) :: u16) = v_queue_size v"
  by (simp add: queue_ok_def unat_of_nat)

lemma queue_slot:
  assumes "queue_ok v"
  shows "(word_of_nat (v_queue_size v) :: u16) \<noteq> 0" "unat (i mod word_of_nat (v_queue_size v) :: u16) = unat i mod v_queue_size v"
    "unat i mod v_queue_size v < v_queue_size v"
proof -
  show "(word_of_nat (v_queue_size v) :: u16) \<noteq> 0" using queue_size16 [OF assms] assms by (auto simp: queue_ok_def)
  show "unat (i mod word_of_nat (v_queue_size v) :: u16) = unat i mod v_queue_size v"
    by (simp only: unat_mod queue_size16 [OF assms])
  show "unat i mod v_queue_size v < v_queue_size v" using assms by (simp add: queue_ok_def)
qed

lemma get_next_avail:
  assumes "queue_ok v" "next_request v m head"
  shows "get_next_avail_id v m = Some (v\<lparr>v_last_avail_id := v_last_avail_id v + 1\<rparr>,
      Some (v_last_avail_id v mod word_of_nat (v_queue_size v)))"
    "get_descriptor_id (v\<lparr>v_last_avail_id := w\<rparr>) m (v_last_avail_id v mod word_of_nat (v_queue_size v)) = Some (Some head)"
proof -
  have "v_last_avail_id v \<noteq> v_last_avail_id v + 1" by simp
  then show "get_next_avail_id v m = Some (v\<lparr>v_last_avail_id := v_last_avail_id v + 1\<rparr>,
      Some (v_last_avail_id v mod word_of_nat (v_queue_size v)))"
    using assms queue_slot(1) [OF assms(1)] by (simp add: get_next_avail_id_def next_request_def queue_ok_def)
  have "v_avail_ring v + 4 + 2 * (unat (v_last_avail_id v) mod v_queue_size v) < usize_range"
    using assms(1) queue_slot(3) [OF assms(1), of "v_last_avail_id v"] by (simp add: queue_ok_def)
  then show "get_descriptor_id (v\<lparr>v_last_avail_id := w\<rparr>) m (v_last_avail_id v mod word_of_nat (v_queue_size v)) = Some (Some head)"
    using assms queue_slot(2) [OF assms(1)]
    by (simp add: get_descriptor_id_def next_request_def queue_ok_def uadd_def)
qed

text \<open>The entry of the used ring that the device writes.\<close>

definition used_entry :: "virtio_blk_mmio \<Rightarrow> usize" where
  "used_entry v = v_used_ring v + 4 + 8 * (unat (v_used_id v) mod v_queue_size v)"

definition used_mem :: "virtio_blk_mmio \<Rightarrow> byte_mem \<Rightarrow> u16 \<Rightarrow> u32 \<Rightarrow> byte_mem" where
  "used_mem v m i len = store16 (store32 (store32 m (used_entry v) (ucast i)) (used_entry v + 4) len) (v_used_ring v + 2) (v_used_id v + 1)"

lemma write_used_queue:
  assumes "queue_ok v" "v_used_id v \<noteq> 0xFFFF"
  shows "write_used v m i len = Some (v\<lparr>v_used_id := v_used_id v + 1\<rparr>, used_mem v m i len)"
proof -
  have u: "used_entry v < usize_range" "v_used_ring v \<noteq> 0"
    using assms(1) queue_slot(3) [OF assms(1), of "v_used_id v"] by (simp_all add: queue_ok_def used_entry_def)
  then have "uadd (v_used_ring v) 4 = Some (v_used_ring v + 4)"
    "uadd (v_used_ring v + 4) (8 * (unat (v_used_id v) mod v_queue_size v)) = Some (used_entry v)"
    by (simp_all add: uadd_def used_entry_def)
  then show ?thesis using assms(2) u(2) queue_slot(1,2) [OF assms(1)]
    by (simp add: write_used_def used_mem_def Let_def)
qed

lemma used_mem_facts:
  assumes "queue_ok v"
  shows "load16 (used_mem v m i len) (v_used_ring v + 2) = v_used_id v + 1"
    "load32 (used_mem v m i len) (used_entry v) = ucast i" "load32 (used_mem v m i len) (used_entry v + 4) = len"
    "a \<notin> queue_area v \<Longrightarrow> used_mem v m i len a = m a" "a < v_used_ring v \<Longrightarrow> used_mem v m i len a = m a"
proof -
  have e: "v_used_ring v + 4 \<le> used_entry v" "used_entry v + 8 \<le> v_used_ring v + 4 + 8 * v_queue_size v"
    using queue_slot(3) [OF assms, of "v_used_id v"] by (simp_all add: used_entry_def)
  show "load16 (used_mem v m i len) (v_used_ring v + 2) = v_used_id v + 1" by (simp add: used_mem_def mem_simps)
  have "load32 (used_mem v m i len) (used_entry v) = load32 (store32 m (used_entry v) (ucast i)) (used_entry v)"
    using e unfolding used_mem_def by (intro load_cong) (auto simp: store_frame)
  then show "load32 (used_mem v m i len) (used_entry v) = ucast i" by (simp add: mem_simps)
  have "load32 (used_mem v m i len) (used_entry v + 4) = load32 (store32 (store32 m (used_entry v) (ucast i)) (used_entry v + 4) len) (used_entry v + 4)"
    using e unfolding used_mem_def by (intro load_cong) (auto simp: store_frame)
  then show "load32 (used_mem v m i len) (used_entry v + 4) = len" by (simp add: mem_simps)
  show "used_mem v m i len a = m a" if "a < v_used_ring v" using e that by (simp add: used_mem_def store_frame)
  show "used_mem v m i len a = m a" if "a \<notin> queue_area v"
  proof -
    have "a < v_used_ring v \<or> v_used_ring v + 4 + 8 * v_queue_size v \<le> a"
      using that assms by (auto simp: queue_area_def queue_ok_def)
    then show ?thesis using e by (auto simp: used_mem_def store_frame)
  qed
qed

section \<open>Serving it\<close>

definition sector_area :: "fat32 \<Rightarrow> usize \<Rightarrow> nat \<Rightarrow> usize set" where
  "sector_area fs buffer len = {buffer..<buffer + sectors_for fs len * bps fs}"

lemma below_blocks:
  fixes x :: nat
  assumes "l \<le> x" "x < 2 ^ 32" "512 dvd x"
  shows "l + 1 < 2 ^ 32"
proof -
  from assms(3) obtain q where "x = 512 * q" by (rule dvdE)
  with assms(1,2) show ?thesis by simp
qed

text \<open>What the guest sees afterwards: the bytes of the image in the buffer, status 0, an entry in the used ring.\<close>

definition read_served ::
    "'h hw \<Rightarrow> ('h \<Rightarrow> nat \<Rightarrow> u8) \<Rightarrow> fat32 \<Rightarrow> virtio_blk_mmio \<Rightarrow> u16 \<Rightarrow> nat \<Rightarrow> usize \<Rightarrow> nat \<Rightarrow> usize \<Rightarrow>
     'h machine \<Rightarrow> 'h machine \<Rightarrow> bool" where
  "read_served hw disk fs v head off buffer len status mc mc' \<longleftrightarrow>
     (\<forall>j < len. \<exists>p. file_position fs (mc_mem mc) (v_file v) (off + j) = Some p \<and> mc_mem mc' (buffer + j) = disk (mc_dev mc) p) \<and>
     mc_mem mc' status = VIRTIO_BLK_S_OK \<and>
     load16 (mc_mem mc') (v_used_ring v + 2) = v_used_id v + 1 \<and>
     load32 (mc_mem mc') (used_entry v) = ucast head \<and> load32 (mc_mem mc') (used_entry v + 4) = word_of_nat (len + 1) \<and>
     (\<forall>a. a \<notin> sector_area fs buffer len \<union> own_area hw (blk_descriptors (mc_blk mc)) \<union> queue_area v \<union> {status} \<longrightarrow>
        mc_mem mc' a = mc_mem mc a) \<and>
     disk (mc_dev mc') = disk (mc_dev mc)"

context blk_device
begin

lemma serve_read:
  assumes "blk_ready hw ready mc i" "i < 65535" "mounted fs" "queue_ok v" "v_used_id v \<noteq> 0xFFFF"
    and "get_descriptor_id v (mc_mem mc) slot = Some (Some head)"
    and "read_request vm v (mc_mem mc) head off buffer len status"
    and "file_range fs (mc_mem mc) capacity (v_file v) off len c n" "off + len < usize_range"
    and "offset_in_sector fs (off mod bytes_per_cluster fs) = 0"
    and "(sector_area fs buffer len \<union> own_area hw (blk_descriptors (mc_blk mc))) \<inter> (queue_area v \<union> {status}) = {}"
    and "status \<notin> queue_area v" "sector_area fs buffer len \<inter> own_area hw (blk_descriptors (mc_blk mc)) = {}"
    and "buffer + sectors_for fs len * bps fs < 2 ^ 64"
  shows "\<exists>mc'. serve_request hw fs vm v mc slot = Some (v\<lparr>v_used_id := v_used_id v + 1\<rparr>, mc', True) \<and>
    blk_ready hw ready mc' (i + 1) \<and> read_served hw disk fs v head off buffer len status mc mc' \<and>
    (\<forall>a \<in> queue_area v. a < v_used_ring v \<longrightarrow> mc_mem mc' a = mc_mem mc a)"
proof -
  let ?m = "mc_mem mc" and ?own = "own_area hw (blk_descriptors (mc_blk mc))" and ?sec = "sector_area fs buffer len"
  note fr = file_range_facts [OF assms(3,8)]
  have le: "len \<le> sectors_for fs len * bps fs" using sectors_for_bounds(1) [OF fr(6,1)] .
  have "len = min len (unat (file_size (v_file v)) - off)" using assms(8) by (auto simp: file_range_def)
  from read_aligned [OF assms(1-3,8) this assms(9,10)] assms(13,14) obtain mc1 where
    rd: "fat32_read hw fs (v_file v) mc buffer off len = Some (mc1, Ok len)" and rdy: "blk_ready hw ready mc1 (i + 1)"
    and dn: "read_done disk fs (v_file v) buffer off len (?sec \<union> ?own) mc mc1"
    by (auto simp: sector_area_def)
  have sub: "{buffer..<buffer + len} \<subseteq> ?sec" using le by (auto simp: sector_area_def)
  have keep: "mc_mem mc1 a = ?m a" if "a \<notin> ?sec \<union> ?own" for a using dn that sub unfolding read_done_def by blast
  have q: "mc_mem mc1 a = ?m a" if "a \<in> queue_area v" for a using that assms(11) by (intro keep) blast
  let ?d0 = "desc_of v ?m head"
  let ?d1 = "desc_of v ?m (desc_next ?d0)"
  let ?d2 = "desc_of v ?m (desc_next ?d1)"
  have ids: "unat head < v_queue_size v" "unat (desc_next ?d0) < v_queue_size v" "unat (desc_next ?d1) < v_queue_size v"
    and len1: "unat (desc_length ?d1) = len"
    using assms(7) by (auto simp: read_request_def Let_def)
  have d2: "desc_of v (mc_mem mc1) (desc_next ?d1) = ?d2" using desc_of_cong [OF assms(4) ids(3)] q by blast
  have tr: "transfer hw fs vm v False mc ?d1 off 0 VIRTIO_BLK_S_OK = Some (mc1, off + len, len, VIRTIO_BLK_S_OK)"
    using assms(7,9) fr(5) rd len1 by (simp add: transfer_def read_request_def Let_def add32_def uadd_def)
  have loop: "data_loop hw fs vm v False mc ?d0 off 0 VIRTIO_BLK_S_OK = Some (mc1, Some (?d2, len, VIRTIO_BLK_S_OK))"
    using assms(7) tr get_descriptor_queue [OF assms(4) ids(2)] get_descriptor_queue [OF assms(4) ids(3)] d2
    by (simp add: data_loop.simps [of hw fs vm v False mc] data_loop.simps [of hw fs vm v False mc1] read_request_def Let_def)
  let ?m2 = "(mc_mem mc1)(status := VIRTIO_BLK_S_OK)"
  let ?mc2 = "mc1\<lparr>mc_mem := used_mem v ?m2 head (word_of_nat (len + 1))\<rparr>"
  have "len \<le> (n + 1) * bytes_per_cluster fs" "(n + 1) * bytes_per_cluster fs < 2 ^ 32" "512 dvd (n + 1) * bytes_per_cluster fs"
    using fr(2,3) assms(3) by (auto simp: on_disk_def mounted_def bytes_per_cluster_def)
  then have len2: "len + 1 < 2 ^ 32" by (rule below_blocks)
  have "serve_request hw fs vm v mc slot = Some (v\<lparr>v_used_id := v_used_id v + 1\<rparr>, ?mc2, True)"
    using assms(6,7) loop get_descriptor_queue [OF assms(4) ids(1)] len2 write_used_queue [OF assms(4,5)]
    by (auto simp: serve_request_def read_request_def Let_def size_of_blk_req_def add32_def)
  moreover have "blk_ready hw ready ?mc2 (i + 1)"
  proof -
    have "used_mem v ?m2 head (word_of_nat (len + 1)) a = mc_mem mc1 a" if "a \<in> ?own" for a
      using that assms(11) used_mem_facts(4) [OF assms(4), of a] by (auto simp: disjoint_iff)
    moreover have "mc_blk mc1 = mc_blk mc" using dn by (simp add: read_done_def)
    ultimately show ?thesis using rdy by (subst blk_ready_cong [of _ mc1]) simp_all
  qed
  moreover have "read_served hw disk fs v head off buffer len status mc ?mc2"
    unfolding read_served_def
  proof (intro conjI allI impI)
    fix j assume j: "j < len"
    then have "buffer + j \<in> ?sec" using sub by auto
    then have "buffer + j \<notin> queue_area v" "buffer + j \<noteq> status" using assms(11) by blast+
    then show "\<exists>p. file_position fs ?m (v_file v) (off + j) = Some p \<and> mc_mem ?mc2 (buffer + j) = disk (mc_dev mc) p"
      using dn j used_mem_facts(4) [OF assms(4)] by (simp add: read_done_def)
  next
    fix a assume "a \<notin> ?sec \<union> ?own \<union> queue_area v \<union> {status}"
    then show "mc_mem ?mc2 a = ?m a" using keep [of a] used_mem_facts(4) [OF assms(4), of a] by simp
  qed (use dn assms(12) used_mem_facts [OF assms(4)] in \<open>simp_all add: read_done_def\<close>)
  moreover have "mc_mem ?mc2 a = ?m a" if "a \<in> queue_area v" "a < v_used_ring v" for a
    using that q assms(12) used_mem_facts(5) [OF assms(4)] by auto
  ultimately show ?thesis by blast
qed

lemma operation_read:
  assumes "blk_ready hw ready mc i" "i < 65535" "mounted fs" "queue_ok v" "v_used_id v \<noteq> 0xFFFF"
    and "next_request v (mc_mem mc) head" "read_request vm v (mc_mem mc) head off buffer len status"
    and "file_range fs (mc_mem mc) capacity (v_file v) off len c n" "off + len < usize_range"
    and "offset_in_sector fs (off mod bytes_per_cluster fs) = 0"
    and "(sector_area fs buffer len \<union> own_area hw (blk_descriptors (mc_blk mc))) \<inter> (queue_area v \<union> {status}) = {}"
    and "status \<notin> queue_area v" "sector_area fs buffer len \<inter> own_area hw (blk_descriptors (mc_blk mc)) = {}"
    and "buffer + sectors_for fs len * bps fs < 2 ^ 64"
  shows "\<exists>mc'. operation_loop hw fs vm v mc =
      Some (v\<lparr>v_last_avail_id := v_last_avail_id v + 1, v_used_id := v_used_id v + 1\<rparr>, mc', True) \<and>
    blk_ready hw ready mc' (i + 1) \<and> read_served hw disk fs v head off buffer len status mc mc'"
proof -
  let ?v = "v\<lparr>v_last_avail_id := v_last_avail_id v + 1\<rparr>" and ?slot = "v_last_avail_id v mod word_of_nat (v_queue_size v)"
  have eq: "queue_ok ?v = queue_ok v" "queue_area ?v = queue_area v" "used_entry ?v = used_entry v" "desc_of ?v = desc_of v"
    by (auto simp: queue_ok_def queue_area_def used_entry_def desc_of_def fun_eq_iff)
  have rq: "read_request vm ?v (mc_mem mc) head off buffer len status"
    using assms(7) by (simp add: read_request_def eq)
  have sd: "read_served hw disk fs ?v head off buffer len status mc mc' = read_served hw disk fs v head off buffer len status mc mc'" for mc'
    by (simp add: read_served_def eq)
  note nx = get_next_avail [OF assms(4,6)]
  from serve_read [of mc i fs ?v, where c = c and n = n, unfolded eq, OF assms(1-4) _ nx(2) rq _ assms(9-), unfolded sd] assms(5,8)
  obtain mc' where sv: "serve_request hw fs vm ?v mc ?slot = Some (?v\<lparr>v_used_id := v_used_id v + 1\<rparr>, mc', True)"
    "blk_ready hw ready mc' (i + 1)" "read_served hw disk fs v head off buffer len status mc mc'"
    "\<forall>a \<in> queue_area v. a < v_used_ring v \<longrightarrow> mc_mem mc' a = mc_mem mc a"
    by auto
  have "load16 (mc_mem mc') (v_avail_ring v + 2) = load16 (mc_mem mc) (v_avail_ring v + 2)"
  proof (rule load_cong(1))
    fix k :: nat assume "k < 2"
    then show "mc_mem mc' (v_avail_ring v + 2 + k) = mc_mem mc (v_avail_ring v + 2 + k)"
      using assms(4) by (intro sv(4) [rule_format]) (auto simp: queue_area_def queue_ok_def)
  qed
  then have "get_next_avail_id (?v\<lparr>v_used_id := v_used_id v + 1\<rparr>) (mc_mem mc') = Some (?v\<lparr>v_used_id := v_used_id v + 1\<rparr>, None)"
    using assms(4,6) by (simp add: get_next_avail_id_def next_request_def queue_ok_def)
  then have "operation_loop hw fs vm v mc = Some (?v\<lparr>v_used_id := v_used_id v + 1\<rparr>, mc', True)"
    by (simp add: operation_loop.simps [of hw fs vm v mc] operation_loop.simps [of hw fs vm _ mc'] nx(1) sv(1))
  then show ?thesis using sv(2,3) by auto
qed

end

text \<open>C30: a guest that has queued one read request of three descriptors (header, buffer, status) and
  notifies the device finds the bytes of its image in the buffer, status 0 and the entry of the used
  ring; interrupt 40 is pending at its distributor when the distributor forwards interrupts, and
  it is offered in a list register when it is enabled and routed to the current CPU and a list register
  can take it. Besides the buffer, rounded up to sectors, the status byte, the queue and the memory of
  the driver nothing changes. The requested range of the image lies on consecutive clusters and starts
  at a multiple of the sector size that is not exactly one sector into a cluster; buffer, status
  byte, queue and the memory of the driver are apart; neither index of the queue is at 65535, the driver
  has served fewer than 65535 requests, and the routers of the distributor name CPUs below 16.\<close>

theorem guest_disk_read:
  assumes "blk_device hw disk capacity ready" "blk_ready hw ready mc i" "i < 65535" "mounted fs"
    and "queue_ok v" "v_used_id v \<noteq> 0xFFFF"
    and "next_request v (mc_mem mc) head" "read_request vm v (mc_mem mc) head off buffer len status"
    and "file_range fs (mc_mem mc) capacity (v_file v) off len c n" "off + len < usize_range"
    and "bps fs dvd off" "off mod bytes_per_cluster fs \<noteq> bps fs"
    and "(sector_area fs buffer len \<union> own_area hw (blk_descriptors (mc_blk mc))) \<inter> (queue_area v \<union> {status}) = {}"
    and "status \<notin> queue_area v" "sector_area fs buffer len \<inter> own_area hw (blk_descriptors (mc_blk mc)) = {}"
    and "buffer + sectors_for fs len * bps fs < 2 ^ 64"
    and "gicd_wf d" "routable d" "cpu_ok cpu"
  shows "\<exists>v' mc' cpu' d'. virtio_mmio_write hw fs vm v mc cpu d VIRTIO_MMIO_QUEUE_NOTIFY w 0 = Some ((v', mc', cpu', d'), Ok ()) \<and>
    v_last_avail_id v' = v_last_avail_id v + 1 \<and> v_used_id v' = v_used_id v + 1 \<and> bit (v_interrupt_status v') 0 \<and>
    blk_ready hw ready mc' (i + 1) \<and> read_served hw disk fs v head off buffer len status mc mc' \<and>
    (group_enabled d \<longrightarrow> VIRTIO_BLK_INT_ID \<in> pending (gicd_view d')) \<and>
    (deliverable d VIRTIO_BLK_INT_ID \<and> same_cpu (d_router d ! VIRTIO_BLK_INT_ID) (mpidr_el1 cpu) \<and>
      \<not> lrs_busy cpu VIRTIO_BLK_INT_ID \<longrightarrow> offered cpu' VIRTIO_BLK_INT_ID)"
proof -
  have "offset_in_sector fs (off mod bytes_per_cluster fs) = 0"
    using offset_in_sector_zero assms(4,11,12) by (simp add: mounted_def)
  from blk_device.operation_read [OF assms(1-10) this assms(13-16)] obtain mc' where
    op: "operation_loop hw fs vm v mc = Some (v\<lparr>v_last_avail_id := v_last_avail_id v + 1, v_used_id := v_used_id v + 1\<rparr>, mc', True)"
    "blk_ready hw ready mc' (i + 1)" "read_served hw disk fs v head off buffer len status mc mc'"
    by blast
  have "VIRTIO_BLK_INT_ID < 1020" by (simp add: VIRTIO_BLK_INT_ID_def)
  from gicd_trigger_raises [OF assms(17-19) this] obtain cpu' d' where
    tr: "gicd_trigger_interrupt cpu d VIRTIO_BLK_INT_ID None = Some (cpu', d')"
    and raised: "group_enabled d \<longrightarrow> VIRTIO_BLK_INT_ID \<in> pending (gicd_view d')"
    "deliverable d VIRTIO_BLK_INT_ID \<and> same_cpu (d_router d ! VIRTIO_BLK_INT_ID) (mpidr_el1 cpu) \<and>
      \<not> lrs_busy cpu VIRTIO_BLK_INT_ID \<longrightarrow> offered cpu' VIRTIO_BLK_INT_ID"
    by blast
  let ?v = "v\<lparr>v_last_avail_id := v_last_avail_id v + 1, v_used_id := v_used_id v + 1,
    v_interrupt_status := v_interrupt_status v OR 1\<rparr>"
  have "virtio_mmio_write hw fs vm v mc cpu d VIRTIO_MMIO_QUEUE_NOTIFY w 0 = Some ((?v, mc', cpu', d'), Ok ())"
    using op(1) tr by (simp add: virtio_mmio_write_def virtio_operation_def VIRTIO_MMIO_GUEST_PAGE_SIZE_def
        VIRTIO_MMIO_QUEUE_NUM_def VIRTIO_MMIO_QUEUE_PFN_def VIRTIO_MMIO_QUEUE_NOTIFY_def)
  moreover have "bit (v_interrupt_status ?v) 0" by (simp add: bit_or_iff)
  ultimately show ?thesis using op(2,3) raised by (intro exI [of _ ?v] exI [of _ mc'] exI [of _ cpu'] exI [of _ d']) simp
qed

section \<open>An example\<close>

text \<open>
  A guest with its RAM at \<open>0x50000000\<close> and a queue of four descriptors reads its disk from
  the start.
\<close>

definition demo_ram :: vm_ram where
  "demo_ram = \<lparr>vm_id = 0, ram_virtual_base_address = 0x40000000, ram_physical_base_address = 0x50000000, ram_size = 0x10000000\<rparr>"

definition demo_disk :: virtio_blk_mmio where
  "demo_disk = \<lparr>v_file = demo_file, v_interrupt_status = 0, v_status = 0, v_queue_size = 4, v_queue_ready = False,
     v_page_size = 0x1000, v_descriptor = 0x50000000, v_avail_ring = 0x50000040, v_used_ring = 0x50001000,
     v_last_avail_id = 0, v_used_id = 0\<rparr>"

definition store_desc :: "byte_mem \<Rightarrow> usize \<Rightarrow> u64 \<Rightarrow> u32 \<Rightarrow> u16 \<Rightarrow> u16 \<Rightarrow> byte_mem" where
  "store_desc m a adr len flags nxt = store16 (store16 (store32 (store64 m a adr) (a + 8) len) (a + 12) flags) (a + 14) nxt"

definition demo_queue :: byte_mem where
  "demo_queue = store64 (store16 (store_desc (store_desc (store_desc demo_mem 0x50000000 0x40003000 16 1 1)
     0x50000010 0x40004000 1024 3 2) 0x50000020 0x40005000 1 2 0) 0x50000042 1) 0x50003008 0"

lemma demo_queue_ok: "queue_ok demo_disk"
  by (simp add: queue_ok_def demo_disk_def usize_range_def)

lemma demo_next_request: "next_request demo_disk demo_queue 0"
  by code_simp

lemma demo_descs:
  "desc_of demo_disk demo_queue 0 = \<lparr>desc_address = 0x40003000, desc_length = 16, desc_flags = 1, desc_next = 1\<rparr>"
  "desc_of demo_disk demo_queue 1 = \<lparr>desc_address = 0x40004000, desc_length = 1024, desc_flags = 3, desc_next = 2\<rparr>"
  "desc_of demo_disk demo_queue 2 = \<lparr>desc_address = 0x40005000, desc_length = 1, desc_flags = 2, desc_next = 0\<rparr>"
  by code_simp+

lemma demo_header: "load_blk_req demo_queue 0x50003000 = \<lparr>req_type = 0, req_sector = 0\<rparr>"
  by code_simp

lemma demo_guest_addresses:
  "get_physical_address demo_ram 0x40003000 = Some (Some 0x50003000)" "get_physical_address demo_ram 0x40004000 = Some (Some 0x50004000)"
  "get_physical_address demo_ram 0x40005000 = Some (Some 0x50005000)" "v_queue_size demo_disk = 4"
  by code_simp+

lemma demo_request: "read_request demo_ram demo_disk demo_queue 0 0 0x50004000 1024 0x50005000"
  unfolding read_request_def Let_def
  by (simp add: demo_descs demo_header demo_guest_addresses VIRT_QUEUE_DESC_FLAGS_NEXT_def VIRTIO_BLK_TYPE_OUT_def)

text \<open>The guest has turned affinity routing and group 1 on and enabled interrupt 40.\<close>

definition demo_gicd :: gicd where
  "demo_gicd = gicd_new\<lparr>d_ctlr := 0x12, d_enable := (replicate 32 0)[1 := 0x100]\<rparr>"

lemma demo_gicd_ok:
  "gicd_wf demo_gicd" "routable demo_gicd" "deliverable demo_gicd VIRTIO_BLK_INT_ID"
  "same_cpu (d_router demo_gicd ! VIRTIO_BLK_INT_ID) (mpidr_el1 (cpu_at 0))"
proof -
  show "gicd_wf demo_gicd" "routable demo_gicd" "same_cpu (d_router demo_gicd ! VIRTIO_BLK_INT_ID) (mpidr_el1 (cpu_at 0))"
    by (simp_all add: gicd_wf_def routable_def demo_gicd_def gicd_new_def aff0_def same_cpu_def cpu_at_def VIRTIO_BLK_INT_ID_def)
  have "40 \<in> reg_set ((replicate 32 0)[1 := 0x100 :: u32])" by (simp add: reg_set_def bit_numeral_rec)
  then show "deliverable demo_gicd VIRTIO_BLK_INT_ID"
    by (simp add: deliverable_def group_enabled_def demo_gicd_def gicd_new_def reg_set_zero VIRTIO_BLK_INT_ID_def
        GICD_CTLR_ENABLE_GRP1NS_def GICD_CTLR_ARE_S_def)
qed

definition demo_notified :: "ref_dev machine" where
  "demo_notified = demo_machine\<lparr>mc_mem := demo_queue\<rparr>"

lemma demo_notified_ready: "blk_ready ref_hw ref_ready demo_notified 0"
proof -
  have "load16 demo_queue 0x40402 = 0" by code_simp
  then show ?thesis using demo_ready
    by (simp add: blk_ready_def demo_notified_def demo_machine_def avail_at_def Let_def)
qed

lemma demo_notified_range: "file_range demo_fs demo_queue 0x100000 demo_file 0 1024 2 1"
proof -
  have "get_next_cluster demo_fs demo_queue 2 = Some 3" by code_simp
  then show ?thesis using demo_on_disk [of 2 1]
    by (simp add: file_range_def demo_file_def contiguous_def less_Suc_eq)
qed

theorem guest_disk_read_witness:
  "\<exists>v' mc' cpu' d'. virtio_mmio_write ref_hw demo_fs demo_ram demo_disk demo_notified (cpu_at 0) demo_gicd VIRTIO_MMIO_QUEUE_NOTIFY 32 0 =
      Some ((v', mc', cpu', d'), Ok ()) \<and> v_used_id v' = 1 \<and> mc_mem mc' 0x50004201 = 1 \<and> mc_mem mc' 0x50005000 = 0 \<and>
     40 \<in> pending (gicd_view d') \<and> offered cpu' 40"
proof -
  have k: "sectors_for demo_fs 1024 * bps demo_fs = 1024" by (simp add: sectors_for_def)
  then have sec: "sector_area demo_fs 0x50004000 1024 = {0x50004000..<0x50004400}" by (simp add: sector_area_def)
  have qa: "queue_area demo_disk = {0x50000000..<0x50001024}" by (simp add: queue_area_def demo_disk_def)
  have dm: "mc_mem demo_notified = demo_queue" "own_area ref_hw (blk_descriptors (mc_blk demo_notified)) =
      {0x40000..<0x42000} \<union> {0x1000..<0x1010} \<union> {0x1010}" "v_file demo_disk = demo_file" "v_used_id demo_disk = 0"
      "mc_dev demo_notified = mc_dev demo_machine"
    using demo_own by (simp_all add: demo_notified_def demo_disk_def)
  let ?own = "{0x40000..<0x42000} \<union> {0x1000..<0x1010} \<union> {0x1010 :: nat}"
  have dj: "(sector_area demo_fs 0x50004000 1024 \<union> ?own) \<inter> (queue_area demo_disk \<union> {0x50005000}) = {}"
    "sector_area demo_fs 0x50004000 1024 \<inter> ?own = {}"
    by (auto simp: sec qa)
  obtain v' mc' cpu' d' where g: "virtio_mmio_write ref_hw demo_fs demo_ram demo_disk demo_notified (cpu_at 0) demo_gicd VIRTIO_MMIO_QUEUE_NOTIFY 32 0 =
      Some ((v', mc', cpu', d'), Ok ())" "v_used_id v' = 1"
      "read_served ref_hw dv_disk demo_fs demo_disk 0 0 0x50004000 1024 0x50005000 demo_notified mc'"
      "40 \<in> pending (gicd_view d')" "offered cpu' 40"
    using guest_disk_read [OF demo_device demo_notified_ready _ demo_mounted demo_queue_ok, where head = 0 and vm = demo_ram and off = 0 and
        buffer = "0x50004000" and len = 1024 and status = "0x50005000" and c = 2 and n = 1 and w = 32, unfolded dm, OF _ _ demo_next_request demo_request
        demo_notified_range _ _ _ dj(1) _ dj(2) _ demo_gicd_ok(1,2)
        cpu_at_ok(1) [of 0]] k demo_gicd_ok(3,4) cpu_at_free [of 0 40]
    by (auto simp: sec qa usize_range_def deliverable_def VIRTIO_BLK_INT_ID_def)
  have "file_position demo_fs demo_queue demo_file 0x201 = Some 0x601"
    using file_range_position [OF demo_mounted demo_notified_range, of "0x201"] by (simp add: cluster_position_def demo_first_sector)
  then have "mc_mem mc' 0x50004201 = 1" "mc_mem mc' 0x50005000 = 0"
    using g(3) by (auto simp: read_served_def dm demo_machine_def VIRTIO_BLK_S_OK_def dest!: spec [of _ "0x201 :: nat"])
  then show ?thesis using g(1,2,4,5) by blast
qed

end
