(* ===== verification/Cpu_State.thy ===== *)
theory Cpu_State
  imports Gic_Redist
begin

text \<open>
  The system registers of the current CPU that the hypervisor accesses through
  \<open>src/src/asm.rs\<close>, beside those of \<open>Vgic\<close>. An access function of \<open>asm.rs\<close> is one \<open>mrs\<close> or
  \<open>msr\<close> instruction, modelled as the record's selector or update. The registers
  with side effects are: \<open>ICC_IAR1_EL1\<close>, a read of which takes the next of the pending
  interrupts, and \<open>ICC_EOIR1_EL1\<close> and \<open>ICC_DIR_EL1\<close>, the writes to which are recorded in order.
  \<open>icc_sre_bits\<close> are the implemented bits of \<open>ICC_SRE_EL2\<close>.
\<close>

record sysregs =
  sr_cpu :: cpu
  currentel :: u64
  midr_el1 :: u64
  id_aa64mmfr0_el1 :: u64
  hcr_el2 :: u64
  elr_el2 :: u64
  spsr_el2 :: u64
  vpidr_el2 :: u64
  vmpidr_el2 :: u64
  vbar_el2 :: u64
  esr_el2 :: u64
  far_el2 :: u64
  hpfar_el2 :: u64
  tpidr_el2 :: u64
  cntvoff_el2 :: u64
  ich_hcr_el2 :: u64
  icc_sre_el2 :: u64
  icc_sre_bits :: u64
  icc_igrpen1_el1 :: u64
  icc_pmr_el1 :: u64
  icc_bpr1_el1 :: u64
  icc_ctlr_el1 :: u64
  icc_pending :: "u64 list"
  icc_eoir1_el1 :: "u64 list"
  icc_dir_el1 :: "u64 list"

section \<open>Access functions\<close>

definition get_currentel :: "sysregs \<Rightarrow> u64" where "get_currentel s = currentel s"
definition get_elr_el2 :: "sysregs \<Rightarrow> u64" where "get_elr_el2 s = elr_el2 s"
definition get_esr_el2 :: "sysregs \<Rightarrow> u64" where "get_esr_el2 s = esr_el2 s"
definition get_far_el2 :: "sysregs \<Rightarrow> u64" where "get_far_el2 s = far_el2 s"
definition get_hpfar_el2 :: "sysregs \<Rightarrow> u64" where "get_hpfar_el2 s = hpfar_el2 s"
definition get_midr_el1 :: "sysregs \<Rightarrow> u64" where "get_midr_el1 s = midr_el1 s"
definition get_icc_sre_el2 :: "sysregs \<Rightarrow> u64" where "get_icc_sre_el2 s = icc_sre_el2 s"
definition get_icc_ctlr_el1 :: "sysregs \<Rightarrow> u64" where "get_icc_ctlr_el1 s = icc_ctlr_el1 s"
definition get_tpidr_el2 :: "sysregs \<Rightarrow> u64" where "get_tpidr_el2 s = tpidr_el2 s"
definition get_id_aa64mmfr0_el1 :: "sysregs \<Rightarrow> u64" where "get_id_aa64mmfr0_el1 s = id_aa64mmfr0_el1 s"
definition get_mpidr_el1 :: "sysregs \<Rightarrow> u64" where "get_mpidr_el1 s = mpidr_el1 (sr_cpu s)"

definition set_hcr_el2 :: "sysregs \<Rightarrow> u64 \<Rightarrow> sysregs" where "set_hcr_el2 s v = s\<lparr>hcr_el2 := v\<rparr>"
definition set_elr_el2 :: "sysregs \<Rightarrow> u64 \<Rightarrow> sysregs" where "set_elr_el2 s v = s\<lparr>elr_el2 := v\<rparr>"
definition set_spsr_el2 :: "sysregs \<Rightarrow> u64 \<Rightarrow> sysregs" where "set_spsr_el2 s v = s\<lparr>spsr_el2 := v\<rparr>"
definition set_vbar_el2 :: "sysregs \<Rightarrow> u64 \<Rightarrow> sysregs" where "set_vbar_el2 s v = s\<lparr>vbar_el2 := v\<rparr>"
definition set_vmpidr_el2 :: "sysregs \<Rightarrow> u64 \<Rightarrow> sysregs" where "set_vmpidr_el2 s v = s\<lparr>vmpidr_el2 := v\<rparr>"
definition set_vpidr_el2 :: "sysregs \<Rightarrow> u64 \<Rightarrow> sysregs" where "set_vpidr_el2 s v = s\<lparr>vpidr_el2 := v\<rparr>"
definition set_icc_igrpen1_el1 :: "sysregs \<Rightarrow> u64 \<Rightarrow> sysregs" where "set_icc_igrpen1_el1 s v = s\<lparr>icc_igrpen1_el1 := v\<rparr>"
definition set_icc_pmr_el1 :: "sysregs \<Rightarrow> u64 \<Rightarrow> sysregs" where "set_icc_pmr_el1 s v = s\<lparr>icc_pmr_el1 := v\<rparr>"
definition set_icc_bpr1_el1 :: "sysregs \<Rightarrow> u64 \<Rightarrow> sysregs" where "set_icc_bpr1_el1 s v = s\<lparr>icc_bpr1_el1 := v\<rparr>"
definition set_ich_hcr_el2 :: "sysregs \<Rightarrow> u64 \<Rightarrow> sysregs" where "set_ich_hcr_el2 s v = s\<lparr>ich_hcr_el2 := v\<rparr>"
definition set_icc_ctlr_el1 :: "sysregs \<Rightarrow> u64 \<Rightarrow> sysregs" where "set_icc_ctlr_el1 s v = s\<lparr>icc_ctlr_el1 := v\<rparr>"
definition set_cntvoff_el2 :: "sysregs \<Rightarrow> u64 \<Rightarrow> sysregs" where "set_cntvoff_el2 s v = s\<lparr>cntvoff_el2 := v\<rparr>"
definition set_tpidr_el2 :: "sysregs \<Rightarrow> u64 \<Rightarrow> sysregs" where "set_tpidr_el2 s v = s\<lparr>tpidr_el2 := v\<rparr>"

definition set_icc_sre_el2 :: "sysregs \<Rightarrow> u64 \<Rightarrow> sysregs" where
  "set_icc_sre_el2 s v = s\<lparr>icc_sre_el2 := v AND icc_sre_bits s\<rparr>"

text \<open>The special interrupt number 1023 stands for no pending interrupt.\<close>

definition get_icc_iar1_el1 :: "sysregs \<Rightarrow> sysregs \<times> u64" where
  "get_icc_iar1_el1 s = (case icc_pending s of [] \<Rightarrow> (s, 1023) | i # is \<Rightarrow> (s\<lparr>icc_pending := is\<rparr>, i))"

definition set_icc_eoir1_el1 :: "sysregs \<Rightarrow> u64 \<Rightarrow> sysregs" where
  "set_icc_eoir1_el1 s v = s\<lparr>icc_eoir1_el1 := icc_eoir1_el1 s @ [v]\<rparr>"

definition set_icc_dir_el1 :: "sysregs \<Rightarrow> u64 \<Rightarrow> sysregs" where
  "set_icc_dir_el1 s v = s\<lparr>icc_dir_el1 := icc_dir_el1 s @ [v]\<rparr>"

text \<open>The addition of \<open>advance_elr_el2\<close> is checked.\<close>

definition advance_elr_el2 :: "sysregs \<Rightarrow> sysregs option" where
  "advance_elr_el2 s = do { a \<leftarrow> uadd (unat (get_elr_el2 s)) 4; ret (set_elr_el2 s (word_of_nat a)) }"

definition get_packed_affinity :: "sysregs \<Rightarrow> u32" where
  "get_packed_affinity s =
     (let mpidr = mpidr_to_affinity (get_mpidr_el1 s)
      in ucast ((mpidr AND (push_bit 24 1 - 1)) OR drop_bit (32 - 24) (mpidr AND push_bit 32 0xff)))"

text \<open>The collection that opens the access functions.\<close>

lemmas sysreg_defs =
  get_currentel_def get_elr_el2_def get_esr_el2_def get_far_el2_def get_hpfar_el2_def get_midr_el1_def
  get_icc_sre_el2_def get_icc_ctlr_el1_def get_tpidr_el2_def get_id_aa64mmfr0_el1_def get_mpidr_el1_def
  set_hcr_el2_def set_elr_el2_def set_spsr_el2_def set_vbar_el2_def set_vmpidr_el2_def set_vpidr_el2_def
  set_icc_igrpen1_el1_def set_icc_pmr_el1_def set_icc_bpr1_el1_def set_ich_hcr_el2_def set_icc_ctlr_el1_def
  set_cntvoff_el2_def set_tpidr_el2_def

end
