(* ===== verification/Gic_Driver.thy ===== *)
theory Gic_Driver
  imports Machine Cpu_State
begin

text \<open>
  The drivers of the physical interrupt controller (\<open>src/src/drivers/gicv3.rs\<close>), of the
  generic timer (\<open>src/src/drivers/generic_timer.rs\<close>) and the set-up of the virtual interface
  (\<open>init_vgic\<close> of \<open>src/src/vgic.rs\<close>). A distributor or redistributor is its base address.
\<close>

definition DTB_GIC_LEVEL :: u32 where "DTB_GIC_LEVEL = 4"
definition DTB_GIC_SPI :: u32 where "DTB_GIC_SPI = 0"
definition DTB_GIC_PPI :: u32 where "DTB_GIC_PPI = 1"
definition GIC_PPI_BASE :: u32 where "GIC_PPI_BASE = 16"
definition GIC_SPI_BASE :: u32 where "GIC_SPI_BASE = 32"

section \<open>Registers\<close>

definition P_GICD_MMIO_SIZE :: usize where "P_GICD_MMIO_SIZE = 0x10000"
definition P_GICD_CTLR :: usize where "P_GICD_CTLR = 0x00"
definition P_GICD_CTLR_RWP :: u32 where "P_GICD_CTLR_RWP = push_bit 31 1"
definition P_GICD_CTLR_ARE :: u32 where "P_GICD_CTLR_ARE = push_bit 5 1"
definition P_GICD_CTLR_ENABLE_GRP1NS :: u32 where "P_GICD_CTLR_ENABLE_GRP1NS = push_bit 1 1"
definition P_GICD_IGROUPR :: usize where "P_GICD_IGROUPR = 0x0080"
definition P_GICD_ISENABLER :: usize where "P_GICD_ISENABLER = 0x0100"
definition P_GICD_ICENABLER :: usize where "P_GICD_ICENABLER = 0x0180"
definition P_GICD_ISPENDR :: usize where "P_GICD_ISPENDR = 0x0200"
definition P_GICD_ICPENDR :: usize where "P_GICD_ICPENDR = 0x0280"
definition P_GICD_IPRIORITYR :: usize where "P_GICD_IPRIORITYR = 0x0400"
definition P_GICD_ICFGR :: usize where "P_GICD_ICFGR = 0x0C00"
definition P_GICD_IGRPMODR :: usize where "P_GICD_IGRPMODR = 0x0D00"
definition P_GICD_IROUTER :: usize where "P_GICD_IROUTER = 0x6100"
definition P_GICR_MMIO_SIZE :: usize where "P_GICR_MMIO_SIZE = 0x20000"
definition DEFAULT_PRIORITY :: u8 where "DEFAULT_PRIORITY = 0xff"
definition DEFAULT_BINARY_POINT :: u8 where "DEFAULT_BINARY_POINT = 0x03"
definition ICC_SRE_SRE :: u64 where "ICC_SRE_SRE = 1"
definition ICC_IGRPEN1_EN :: u64 where "ICC_IGRPEN1_EN = 1"
definition P_GICR_CTLR :: usize where "P_GICR_CTLR = 0x00"
definition P_GICR_CTLR_RWP :: u32 where "P_GICR_CTLR_RWP = push_bit 3 1"
definition P_GICR_TYPER :: usize where "P_GICR_TYPER = 0x08"
definition P_GICR_WAKER :: usize where "P_GICR_WAKER = 0x0014"
definition P_GICR_WAKER_CHILDREN_ASLEEP :: u32 where "P_GICR_WAKER_CHILDREN_ASLEEP = push_bit 2 1"
definition P_GICR_WAKER_PROCESSOR_SLEEP :: u32 where "P_GICR_WAKER_PROCESSOR_SLEEP = push_bit 1 1"
definition P_GICR_IGROUPR0 :: usize where "P_GICR_IGROUPR0 = 0x10000 + 0x0080"
definition P_GICR_IPRIORITYR_BASE :: usize where "P_GICR_IPRIORITYR_BASE = 0x10000 + 0x0400"
definition P_GICR_IGRPMODR0 :: usize where "P_GICR_IGRPMODR0 = 0x10000 + 0x0D00"
definition P_GICR_ISENABLER0 :: usize where "P_GICR_ISENABLER0 = 0x10000 + 0x0100"
definition P_GICR_ICENABLER0 :: usize where "P_GICR_ICENABLER0 = 0x10000 + 0x0180"
definition P_GICR_ICFGR0 :: usize where "P_GICR_ICFGR0 = 0x10000 + 0x0C00"

definition gic_read_register :: "'h hw \<Rightarrow> 'h machine \<Rightarrow> usize \<Rightarrow> usize \<Rightarrow> ('h machine \<times> u32) option" where
  "gic_read_register hw mc base register = do { (mc, v) \<leftarrow> volatile_read hw mc 4 base register; ret (mc, ucast v) }"

definition gic_write_register :: "'h hw \<Rightarrow> 'h machine \<Rightarrow> usize \<Rightarrow> usize \<Rightarrow> u32 \<Rightarrow> 'h machine option" where
  "gic_write_register hw mc base register data = volatile_write hw mc 4 base register (ucast data)"

text \<open>\<open>write_register(r, (read_register(r) & !clear) | bits)\<close>.\<close>

definition gic_update_register :: "'h hw \<Rightarrow> 'h machine \<Rightarrow> usize \<Rightarrow> usize \<Rightarrow> u32 \<Rightarrow> u32 \<Rightarrow> 'h machine option" where
  "gic_update_register hw mc base register clear bits = do {
     (mc, v) \<leftarrow> gic_read_register hw mc base register;
     gic_write_register hw mc base register ((v AND NOT clear) OR bits) }"

text \<open>Polling until the bits of a mask are clear.\<close>

partial_function (option) gic_wait_clear :: "'h hw \<Rightarrow> 'h machine \<Rightarrow> usize \<Rightarrow> usize \<Rightarrow> u32 \<Rightarrow> 'h machine option" where
  "gic_wait_clear hw mc base register bits = do {
     (mc, v) \<leftarrow> gic_read_register hw mc base register;
     if v AND bits \<noteq> 0 then
       (let (d, m) = hw_step hw (mc_dev mc, mc_mem mc) in
        gic_wait_clear hw (mc\<lparr>mc_dev := d, mc_mem := m\<rparr>) base register bits)
     else ret mc }"

text \<open>\<open>1 << n\<close> on \<open>u32\<close>, which panics for a shift amount of 32 or more.\<close>

definition shl32 :: "u32 \<Rightarrow> nat \<Rightarrow> u32 option" where
  "shl32 v n = (if n < 32 then ret (push_bit n v) else panic)"

section \<open>Distributor\<close>

definition gic_distributor_new :: "usize \<Rightarrow> usize \<Rightarrow> (usize, unit) result" where
  "gic_distributor_new base_address sz = (if sz \<noteq> P_GICD_MMIO_SIZE then Err () else Ok base_address)"

definition gic_distributor_init :: "'h hw \<Rightarrow> 'h machine \<Rightarrow> usize \<Rightarrow> 'h machine option" where
  "gic_distributor_init hw mc base = do {
     mc \<leftarrow> gic_write_register hw mc base P_GICD_CTLR P_GICD_CTLR_ARE;
     mc \<leftarrow> gic_wait_clear hw mc base P_GICD_CTLR P_GICD_CTLR_RWP;
     gic_write_register hw mc base P_GICD_CTLR (P_GICD_CTLR_ARE OR P_GICD_CTLR_ENABLE_GRP1NS) }"

definition distributor_set_priority :: "'h hw \<Rightarrow> 'h machine \<Rightarrow> usize \<Rightarrow> nat \<Rightarrow> u8 \<Rightarrow> 'h machine option" where
  "distributor_set_priority hw mc base int_id priority =
     gic_update_register hw mc base (P_GICD_IPRIORITYR + int_id div 4 * 4)
       (push_bit ((int_id mod 4) * 8) 0xFF) (push_bit ((int_id mod 4) * 8) (ucast priority))"

definition distributor_set_group :: "'h hw \<Rightarrow> 'h machine \<Rightarrow> usize \<Rightarrow> nat \<Rightarrow> 'h machine option" where
  "distributor_set_group hw mc base int_id = do {
     mc \<leftarrow> gic_update_register hw mc base (P_GICD_IGROUPR + int_id div 32 * 4)
       (push_bit (int_id mod 32) 1) (push_bit (int_id mod 32) 1);
     gic_update_register hw mc base (P_GICD_IGRPMODR + int_id div 32 * 4)
       (push_bit (int_id mod 32) 1) (push_bit (int_id mod 32) 0) }"

definition distributor_set_enable :: "'h hw \<Rightarrow> 'h machine \<Rightarrow> usize \<Rightarrow> nat \<Rightarrow> bool \<Rightarrow> 'h machine option" where
  "distributor_set_enable hw mc base int_id enable =
     gic_write_register hw mc base ((if enable then P_GICD_ISENABLER else P_GICD_ICENABLER) + int_id div 32 * 4)
       (push_bit (int_id mod 32) 1)"

definition distributor_set_pending :: "'h hw \<Rightarrow> 'h machine \<Rightarrow> usize \<Rightarrow> nat \<Rightarrow> bool \<Rightarrow> 'h machine option" where
  "distributor_set_pending hw mc base int_id pending = do {
     let register = (if pending then P_GICD_ISPENDR else P_GICD_ICPENDR) + int_id div 32 * 4;
     (mc, v) \<leftarrow> gic_read_register hw mc base register;
     gic_write_register hw mc base register (v OR push_bit (int_id mod 32) 1) }"

definition distributor_set_trigger_mode :: "'h hw \<Rightarrow> 'h machine \<Rightarrow> usize \<Rightarrow> nat \<Rightarrow> bool \<Rightarrow> 'h machine option" where
  "distributor_set_trigger_mode hw mc base int_id is_level_trigger =
     gic_update_register hw mc base (P_GICD_ICFGR + int_id div 16 * 4)
       (push_bit ((int_id mod 16) * 2) 0x03) (push_bit ((int_id mod 16) * 2) (push_bit 1 (of_bool (\<not> is_level_trigger))))"

definition distributor_set_routing ::
    "'h hw \<Rightarrow> 'h machine \<Rightarrow> usize \<Rightarrow> nat \<Rightarrow> bool \<Rightarrow> u64 \<Rightarrow> 'h machine option" where
  "distributor_set_routing hw mc base int_id is_routing_mode mpidr =
     (if is_routing_mode then panic
      else do {
        a \<leftarrow> uadd base P_GICD_IROUTER;
        volatile_write hw mc 8 a (int_id * 8) (mpidr_to_affinity mpidr) })"

section \<open>Redistributor\<close>

definition gic_get_affinity :: "'h hw \<Rightarrow> 'h machine \<Rightarrow> usize \<Rightarrow> ('h machine \<times> u32) option" where
  "gic_get_affinity hw mc base = do {
     (mc, v) \<leftarrow> volatile_read hw mc 8 base P_GICR_TYPER;
     ret (mc, ucast (drop_bit 32 v)) }"

definition gic_redistributor_init :: "'h hw \<Rightarrow> 'h machine \<Rightarrow> sysregs \<Rightarrow> usize \<Rightarrow> ('h machine \<times> sysregs) option" where
  "gic_redistributor_init hw mc s base = do {
     let s = set_icc_sre_el2 s (get_icc_sre_el2 s OR ICC_SRE_SRE);
     _ \<leftarrow> rust_assert (get_icc_sre_el2 s AND ICC_SRE_SRE \<noteq> 0);
     mc \<leftarrow> gic_wait_clear hw mc base P_GICR_CTLR P_GICR_CTLR_RWP;
     mc \<leftarrow> gic_update_register hw mc base P_GICR_WAKER P_GICR_WAKER_PROCESSOR_SLEEP 0;
     mc \<leftarrow> gic_wait_clear hw mc base P_GICR_WAKER P_GICR_WAKER_CHILDREN_ASLEEP;
     let s = set_icc_pmr_el1 s (ucast DEFAULT_PRIORITY);
     let s = set_icc_bpr1_el1 s (ucast DEFAULT_BINARY_POINT);
     ret (mc, set_icc_igrpen1_el1 s ICC_IGRPEN1_EN) }"

definition redistributor_set_priority :: "'h hw \<Rightarrow> 'h machine \<Rightarrow> usize \<Rightarrow> nat \<Rightarrow> u8 \<Rightarrow> 'h machine option" where
  "redistributor_set_priority hw mc base int_id priority =
     gic_update_register hw mc base (P_GICR_IPRIORITYR_BASE + int_id div 4 * 4)
       (push_bit ((int_id mod 4) * 8) 0xFF) (push_bit ((int_id mod 4) * 8) (ucast priority))"

definition redistributor_set_group :: "'h hw \<Rightarrow> 'h machine \<Rightarrow> usize \<Rightarrow> nat \<Rightarrow> 'h machine option" where
  "redistributor_set_group hw mc base int_id = do {
     b \<leftarrow> shl32 1 int_id;
     mc \<leftarrow> gic_update_register hw mc base P_GICR_IGROUPR0 b b;
     gic_update_register hw mc base P_GICR_IGRPMODR0 b 0 }"

definition redistributor_set_enable :: "'h hw \<Rightarrow> 'h machine \<Rightarrow> usize \<Rightarrow> nat \<Rightarrow> bool \<Rightarrow> 'h machine option" where
  "redistributor_set_enable hw mc base int_id enable = do {
     b \<leftarrow> shl32 1 int_id;
     gic_write_register hw mc base (if enable then P_GICR_ISENABLER0 else P_GICR_ICENABLER0) b }"

definition redistributor_set_trigger_mode :: "'h hw \<Rightarrow> 'h machine \<Rightarrow> usize \<Rightarrow> nat \<Rightarrow> bool \<Rightarrow> 'h machine option" where
  "redistributor_set_trigger_mode hw mc base int_id is_level_trigger =
     gic_update_register hw mc base (P_GICR_ICFGR0 + int_id div 16 * 4)
       (push_bit ((int_id mod 16) * 2) 0x03) (push_bit ((int_id mod 16) * 2) (push_bit 1 (of_bool (\<not> is_level_trigger))))"

definition get_acknowledge :: "sysregs \<Rightarrow> sysregs \<times> u32" where
  "get_acknowledge s = (let (s, v) = get_icc_iar1_el1 s in (s, ucast v))"

definition drop_priority :: "sysregs \<Rightarrow> u32 \<Rightarrow> sysregs" where
  "drop_priority s int_id = set_icc_eoir1_el1 s (ucast int_id)"

definition gic_deactivate :: "sysregs \<Rightarrow> u32 \<Rightarrow> sysregs" where
  "gic_deactivate s int_id = set_icc_dir_el1 s (ucast int_id)"

text \<open>The search for the redistributor of this CPU; the address strictly grows.\<close>

function self_redistributor_loop ::
    "'h hw \<Rightarrow> 'h machine \<Rightarrow> u32 \<Rightarrow> usize \<Rightarrow> usize \<Rightarrow> ('h machine \<times> (usize, unit) result) option" where
  "self_redistributor_loop hw mc affinity limit base_address =
     (if base_address < limit then do {
        (mc, a) \<leftarrow> gic_get_affinity hw mc base_address;
        if a = affinity then ret (mc, Ok base_address)
        else do {
          b \<leftarrow> uadd base_address P_GICR_MMIO_SIZE;
          self_redistributor_loop hw mc affinity limit b } }
      else ret (mc, Err ()))"
  by pat_completeness auto
termination
  by (relation "measure (\<lambda>(hw, mc, affinity, limit, base). limit - base)")
    (auto simp: uadd_Some_iff P_GICR_MMIO_SIZE_def)

definition get_self_redistributor ::
    "'h hw \<Rightarrow> 'h machine \<Rightarrow> sysregs \<Rightarrow> usize \<Rightarrow> usize \<Rightarrow> ('h machine \<times> (usize, unit) result) option" where
  "get_self_redistributor hw mc s base_address len = do {
     limit \<leftarrow> uadd base_address len;
     self_redistributor_loop hw mc (get_packed_affinity s) limit base_address }"

section \<open>Generic timer and virtual interface\<close>

definition GENERIC_TIMER_VIRTUAL_INT_ID :: nat where "GENERIC_TIMER_VIRTUAL_INT_ID = 27"
definition MAINTENANCE_INTERRUPT_INTID :: nat where "MAINTENANCE_INTERRUPT_INTID = 25"
definition ICH_HCR_EL2_EN :: u64 where "ICH_HCR_EL2_EN = 1"

definition init_generic_timer_local ::
    "'h hw \<Rightarrow> 'h machine \<Rightarrow> sysregs \<Rightarrow> nat \<Rightarrow> usize \<Rightarrow> ('h machine \<times> sysregs) option" where
  "init_generic_timer_local hw mc s int_id base = do {
     let s = set_cntvoff_el2 s 0;
     mc \<leftarrow> redistributor_set_group hw mc base int_id;
     mc \<leftarrow> redistributor_set_priority hw mc base int_id 0x00;
     mc \<leftarrow> redistributor_set_trigger_mode hw mc base int_id True;
     mc \<leftarrow> redistributor_set_enable hw mc base int_id True;
     ret (mc, s) }"

definition generic_timer_interrupt_handler :: "cpu \<Rightarrow> gicr \<Rightarrow> nat \<Rightarrow> (cpu \<times> gicr) option" where
  "generic_timer_interrupt_handler c r physical_int_id =
     gicr_trigger_interrupt c r GENERIC_TIMER_VIRTUAL_INT_ID (Some physical_int_id)"

definition init_vgic :: "'h hw \<Rightarrow> 'h machine \<Rightarrow> sysregs \<Rightarrow> usize \<Rightarrow> ('h machine \<times> sysregs) option" where
  "init_vgic hw mc s base = do {
     let s = set_ich_hcr_el2 s ICH_HCR_EL2_EN;
     mc \<leftarrow> redistributor_set_group hw mc base MAINTENANCE_INTERRUPT_INTID;
     mc \<leftarrow> redistributor_set_priority hw mc base MAINTENANCE_INTERRUPT_INTID 0x00;
     mc \<leftarrow> redistributor_set_trigger_mode hw mc base MAINTENANCE_INTERRUPT_INTID True;
     mc \<leftarrow> redistributor_set_enable hw mc base MAINTENANCE_INTERRUPT_INTID True;
     mc \<leftarrow> redistributor_set_group hw mc base INJECT_INTERRUPT_INT_ID;
     mc \<leftarrow> redistributor_set_priority hw mc base INJECT_INTERRUPT_INT_ID 0x00;
     mc \<leftarrow> redistributor_set_trigger_mode hw mc base INJECT_INTERRUPT_INT_ID False;
     mc \<leftarrow> redistributor_set_enable hw mc base INJECT_INTERRUPT_INT_ID True;
     ret (mc, s) }"

end
