(* ===== verification/Vm.thy ===== *)
theory Vm
  imports Virtio_Mmio Gic_Driver Pl011_Mmio Paging
begin

text \<open>
  Virtual machines (\<open>src/src/vm.rs\<close>). A VM owns its emulated devices; the list of MMIO handlers
  holds shared pointers to them, modelled as the tag of the device. \<open>system\<close> is the
  hypervisor's global state as the current CPU sees it: \<open>VM_LIST\<close>, \<open>NEXT_VM_ID\<close>,
  \<open>ACTIVE_VM\<close> (the identifier of the VM that the pointer refers to), the translation tables, the
  machine and the CPU's registers.
\<close>

section \<open>Structures\<close>

datatype mmio_handler = Pl011_Handler | Virtio_Blk_Handler | Gicd_Handler | Gicr_Handler

record mmio_entry =
  me_base_address :: usize
  me_length :: usize
  me_handler :: mmio_handler

record vm = vm_ram +
  mmio_handlers :: "mmio_entry list"
  gic_distributor_mmio :: gicd
  gic_redistributor_mmio :: gicr
  pl011_mmio :: pl011
  virtio_blk_mmio :: virtio_blk_mmio

record 'h system =
  sy_machine :: "'h machine"
  sy_regs :: sysregs
  sy_tables :: table_mem
  sy_vtcr_el2 :: u64
  sy_vttbr_el2 :: u64
  vm_list :: "vm list"
  next_vm_id :: usize
  active_vm :: "usize option"
  generic_timer_physical_int_id :: nat

definition RAM_VIRTUAL_BASE :: usize where "RAM_VIRTUAL_BASE = 0x40000000"
definition RAM_SIZE :: usize where "RAM_SIZE = 0x10000000"
definition ALIGN_SIZE :: usize where "ALIGN_SIZE = 0x200000"
definition GICD_MMIO_SIZE :: usize where "GICD_MMIO_SIZE = 0x10000"
definition GICR_MMIO_SIZE :: usize where "GICR_MMIO_SIZE = 0x10000 * 2"
definition HCR_EL2_API :: u64 where "HCR_EL2_API = push_bit 41 1"
definition HCR_EL2_RW :: u64 where "HCR_EL2_RW = push_bit 31 1"
definition HCR_EL2_AMO :: u64 where "HCR_EL2_AMO = push_bit 5 1"
definition HCR_EL2_IMO :: u64 where "HCR_EL2_IMO = push_bit 4 1"
definition HCR_EL2_FMO :: u64 where "HCR_EL2_FMO = push_bit 3 1"
definition HCR_EL2_VM :: u64 where "HCR_EL2_VM = push_bit 0 1"
definition SPSR_EL2_M_EL1H :: u64 where "SPSR_EL2_M_EL1H = 0b0101"

section \<open>MMIO accesses\<close>

fun find_mmio_entry :: "mmio_entry list \<Rightarrow> usize \<Rightarrow> mmio_entry option option" where
  "find_mmio_entry [] address = ret None"
| "find_mmio_entry (e # es) address =
     (if me_base_address e \<le> address then do {
        t \<leftarrow> uadd (me_base_address e) (me_length e);
        if address < t then ret (Some e) else find_mmio_entry es address }
      else find_mmio_entry es address)"

definition device_read :: "vm \<Rightarrow> mmio_handler \<Rightarrow> usize \<Rightarrow> nat \<Rightarrow> (vm \<times> (u64, unit) result) option" where
  "device_read vm h offset access_width =
     (case h of
        Pl011_Handler \<Rightarrow> do {
          (u, r) \<leftarrow> pl011_read (pl011_mmio vm) offset access_width;
          ret (vm\<lparr>pl011_mmio := u\<rparr>, r) }
      | Virtio_Blk_Handler \<Rightarrow> do { r \<leftarrow> virtio_mmio_read (virtio_blk_mmio vm) offset access_width; ret (vm, r) }
      | Gicd_Handler \<Rightarrow> do { r \<leftarrow> gicd_read (gic_distributor_mmio vm) offset access_width; ret (vm, r) }
      | Gicr_Handler \<Rightarrow> do { r \<leftarrow> gicr_read (gic_redistributor_mmio vm) offset access_width; ret (vm, r) })"

definition device_write ::
    "'h hw \<Rightarrow> fat32 \<Rightarrow> vm \<Rightarrow> 'h machine \<Rightarrow> cpu \<Rightarrow> mmio_handler \<Rightarrow> usize \<Rightarrow> nat \<Rightarrow> u64 \<Rightarrow>
     ((vm \<times> 'h machine \<times> cpu) \<times> (unit, unit) result) option" where
  "device_write hw fs vm mc c h offset access_width v =
     (case h of
        Pl011_Handler \<Rightarrow> do {
          (u, r) \<leftarrow> pl011_write (pl011_mmio vm) offset access_width v;
          ret ((vm\<lparr>pl011_mmio := u\<rparr>, mc, c), r) }
      | Virtio_Blk_Handler \<Rightarrow> do {
          ((b, mc, c, d), r) \<leftarrow> virtio_mmio_write hw fs vm (virtio_blk_mmio vm) mc c (gic_distributor_mmio vm)
            offset access_width v;
          ret ((vm\<lparr>virtio_blk_mmio := b, gic_distributor_mmio := d\<rparr>, mc, c), r) }
      | Gicd_Handler \<Rightarrow> do {
          ((c, d), r) \<leftarrow> gicd_write c (gic_distributor_mmio vm) offset access_width v;
          ret ((vm\<lparr>gic_distributor_mmio := d\<rparr>, mc, c), r) }
      | Gicr_Handler \<Rightarrow> do {
          ((c, g), r) \<leftarrow> gicr_write c (gic_redistributor_mmio vm) offset access_width v;
          ret ((vm\<lparr>gic_redistributor_mmio := g\<rparr>, mc, c), r) })"

definition handle_mmio_read :: "vm \<Rightarrow> usize \<Rightarrow> nat \<Rightarrow> (vm \<times> (u64, unit) result) option" where
  "handle_mmio_read vm address access_width = do {
     e \<leftarrow> find_mmio_entry (mmio_handlers vm) address;
     (case e of
        Some e \<Rightarrow> device_read vm (me_handler e) (address - me_base_address e) access_width
      | None \<Rightarrow> ret (vm, Err ())) }"

definition handle_mmio_write ::
    "'h hw \<Rightarrow> fat32 \<Rightarrow> vm \<Rightarrow> 'h machine \<Rightarrow> cpu \<Rightarrow> usize \<Rightarrow> nat \<Rightarrow> u64 \<Rightarrow>
     ((vm \<times> 'h machine \<times> cpu) \<times> (unit, unit) result) option" where
  "handle_mmio_write hw fs vm mc c address access_width v = do {
     e \<leftarrow> find_mmio_entry (mmio_handlers vm) address;
     (case e of
        Some e \<Rightarrow> device_write hw fs vm mc c (me_handler e) (address - me_base_address e) access_width v
      | None \<Rightarrow> ret ((vm, mc, c), Err ())) }"

section \<open>The list of VMs\<close>

definition find_vm :: "vm list \<Rightarrow> usize \<Rightarrow> vm option" where
  "find_vm vms i = find (\<lambda>v. vm_id v = i) vms"

definition get_current_vm :: "'h system \<Rightarrow> vm option" where
  "get_current_vm s = find_vm (vm_list s) (unat (get_tpidr_el2 (sy_regs s)))"

definition get_active_vm :: "'h system \<Rightarrow> vm option" where
  "get_active_vm s = do { i \<leftarrow> active_vm s; find_vm (vm_list s) i }"

definition switch_active_vm :: "'h system \<Rightarrow> usize \<Rightarrow> 'h system \<times> bool" where
  "switch_active_vm s i =
     (case find_vm (vm_list s) i of
        Some vm \<Rightarrow> (s\<lparr>active_vm := Some i\<rparr>, True)
      | None \<Rightarrow> (s, False))"

text \<open>The state of a shared VM after its devices have changed.\<close>

definition put_vm :: "'h system \<Rightarrow> vm \<Rightarrow> 'h system" where
  "put_vm s vm = s\<lparr>vm_list := map (\<lambda>v. if vm_id v = vm_id vm then vm else v) (vm_list s)\<rparr>"

definition input_uart :: "'h system \<Rightarrow> u8 \<Rightarrow> 'h system option" where
  "input_uart s x = do {
     vm \<leftarrow> get_active_vm s;
     (c, d, u) \<leftarrow> pl011_push (sr_cpu (sy_regs s)) (gic_distributor_mmio vm) (pl011_mmio vm) x;
     ret (put_vm (s\<lparr>sy_regs := (sy_regs s)\<lparr>sr_cpu := c\<rparr>\<rparr>) (vm\<lparr>gic_distributor_mmio := d, pl011_mmio := u\<rparr>)) }"

section \<open>Creation\<close>

definition setup_hypervisor_registers :: "sysregs \<Rightarrow> sysregs" where
  "setup_hypervisor_registers s =
     (let s = set_vpidr_el2 s (get_midr_el1 s);
          s = set_vmpidr_el2 s (get_mpidr_el1 s)
      in set_hcr_el2 s (HCR_EL2_RW OR HCR_EL2_API OR HCR_EL2_AMO OR HCR_EL2_IMO OR HCR_EL2_FMO OR HCR_EL2_VM))"

definition disk_file_name :: "usize \<Rightarrow> u8 list option" where
  "disk_file_name i = do {
     let n = 0x30 + i mod 256;
     if n < 0x80 then ret [0x44, 0x49, 0x53, 0x4B, word_of_nat n] else panic }"

definition expect_file :: "fat32 \<Rightarrow> byte_mem \<Rightarrow> u8 list \<Rightarrow> file_info option" where
  "expect_file fs m name = do { r \<leftarrow> search_file fs m name; r }"

definition IMAGE_NAME :: "u8 list" where "IMAGE_NAME = [0x49, 0x4D, 0x41, 0x47, 0x45]"
definition DTB_NAME :: "u8 list" where "DTB_NAME = [0x44, 0x54, 0x42]"

definition mmio_entry_new :: "usize \<Rightarrow> usize \<Rightarrow> mmio_handler \<Rightarrow> mmio_entry" where
  "mmio_entry_new base_address len handler =
     \<lparr>me_base_address = base_address, me_length = len, me_handler = handler\<rparr>"

definition vm_handlers :: "mmio_entry list" where
  "vm_handlers =
     [mmio_entry_new 0x9000000 0x1000 Pl011_Handler, mmio_entry_new 0xa000000 0x0200 Virtio_Blk_Handler,
      mmio_entry_new 0x8000000 GICD_MMIO_SIZE Gicd_Handler, mmio_entry_new 0x80a0000 GICR_MMIO_SIZE Gicr_Handler]"

text \<open>\<open>VM::new\<close>, with the block device that is behind the pointer in its MMIO entry.\<close>

definition vm_new ::
    "usize \<Rightarrow> usize \<Rightarrow> usize \<Rightarrow> usize \<Rightarrow> mmio_entry list \<Rightarrow> gicd \<Rightarrow> gicr \<Rightarrow> pl011 \<Rightarrow> virtio_blk_mmio \<Rightarrow> vm" where
  "vm_new i virtual_base physical_base len handlers d g u blk =
     \<lparr>vm_id = i, ram_virtual_base_address = virtual_base, ram_physical_base_address = physical_base, ram_size = len,
      mmio_handlers = handlers, gic_distributor_mmio = d, gic_redistributor_mmio = g, pl011_mmio = u, virtio_blk_mmio = blk\<rparr>"

text \<open>The header of a kernel image, a \<open>repr(C)\<close> structure of 64 bytes.\<close>

record kernel_header =
  kh_code0 :: u32
  kh_code1 :: u32
  kh_text_offset :: u64
  kh_image_size :: u64
  kh_flags :: u64
  kh_res2 :: u64
  kh_res3 :: u64
  kh_res4 :: u64
  kh_magic :: u32
  kh_res5 :: u32

definition load_kernel_header :: "byte_mem \<Rightarrow> usize \<Rightarrow> kernel_header" where
  "load_kernel_header m a = \<lparr>kh_code0 = load32 m a, kh_code1 = load32 m (a + 4), kh_text_offset = load64 m (a + 8),
     kh_image_size = load64 m (a + 16), kh_flags = load64 m (a + 24), kh_res2 = load64 m (a + 32), kh_res3 = load64 m (a + 40),
     kh_res4 = load64 m (a + 48), kh_magic = load32 m (a + 56), kh_res5 = load32 m (a + 60)\<rparr>"

definition expect_read ::
    "'h hw \<Rightarrow> fat32 \<Rightarrow> file_info \<Rightarrow> 'h machine \<Rightarrow> usize \<Rightarrow> usize \<Rightarrow> usize \<Rightarrow> 'h machine option" where
  "expect_read hw fs f mc address offset len = do {
     (mc, r) \<leftarrow> fat32_read hw fs f mc address offset len;
     (case r of Ok n \<Rightarrow> ret mc | Err e \<Rightarrow> panic) }"

text \<open>Stage 2 tables for the RAM; the tables and the registers are part of the system's state.\<close>

definition setup_stage2 :: "'h system \<Rightarrow> usize \<Rightarrow> 'h system option" where
  "setup_stage2 s ram_physical_address = do {
     t \<leftarrow> init_stage2_translation_table \<lparr>st_mem = sy_tables s, st_alloc = mc_alloc (sy_machine s),
       vtcr_el2 = sy_vtcr_el2 s, vttbr_el2 = sy_vttbr_el2 s\<rparr> (get_id_aa64mmfr0_el1 (sy_regs s));
     (t, r) \<leftarrow> map_address_stage2 t ram_physical_address RAM_VIRTUAL_BASE RAM_SIZE True True;
     (case r of
        Ok u \<Rightarrow> ret (s\<lparr>sy_tables := st_mem t, sy_machine := (sy_machine s)\<lparr>mc_alloc := st_alloc t\<rparr>,
          sy_vtcr_el2 := vtcr_el2 t, sy_vttbr_el2 := vttbr_el2 t\<rparr>)
      | Err e \<Rightarrow> panic) }"

text \<open>Loading of the device tree and the kernel; the result is the entry point.\<close>

definition load_kernel :: "'h hw \<Rightarrow> fat32 \<Rightarrow> vm \<Rightarrow> 'h machine \<Rightarrow> ('h machine \<times> usize) option" where
  "load_kernel hw fs vm mc = do {
     kernel \<leftarrow> expect_file fs (mc_mem mc) IMAGE_NAME;
     dtb \<leftarrow> expect_file fs (mc_mem mc) DTB_NAME;
     let dtb_size = get_file_size dtb;
     let kernel_size = get_file_size kernel;
     t \<leftarrow> uadd RAM_VIRTUAL_BASE dtb_size;
     t \<leftarrow> usub t 1;
     kernel_virtual_address \<leftarrow> uadd (uand_not t ALIGN_SIZE) ALIGN_SIZE;
     p \<leftarrow> get_physical_address vm kernel_virtual_address;
     kernel_physical_address \<leftarrow> p;
     mc \<leftarrow> expect_read hw fs dtb mc (ram_physical_base_address vm) 0 dtb_size;
     mc \<leftarrow> expect_read hw fs kernel mc kernel_physical_address 0 kernel_size;
     let kernel_header = load_kernel_header (mc_mem mc) kernel_physical_address;
     _ \<leftarrow> rust_assert (kh_magic kernel_header = 0x644D5241);
     let text_offset = (if kh_image_size kernel_header = 0 then 0x80000 else kh_text_offset kernel_header);
     e \<leftarrow> uadd kernel_virtual_address (unat text_offset);
     ret (mc, e) }"

definition create_vm :: "'h hw \<Rightarrow> fat32 \<Rightarrow> 'h system \<Rightarrow> usize \<Rightarrow> ('h system \<times> usize \<times> usize) option" where
  "create_vm hw fs s gic_redistributor = do {
     (al, r) \<leftarrow> allocate_pages (mc_alloc (sy_machine s)) (RAM_SIZE div 2 ^ PAGE_SHIFT) PAGE_SHIFT;
     ram_physical_address \<leftarrow> (case r of Ok a \<Rightarrow> ret a | Err e \<Rightarrow> panic);
     let s = s\<lparr>sy_machine := (sy_machine s)\<lparr>mc_alloc := al\<rparr>\<rparr>;
     let i = next_vm_id s;
     let s = s\<lparr>next_vm_id := (i + 1) mod usize_range\<rparr>;
     let cpu_mpidr = get_mpidr_el1 (sy_regs s);
     let s = s\<lparr>sy_regs := setup_hypervisor_registers (sy_regs s)\<rparr>;
     s \<leftarrow> setup_stage2 s ram_physical_address;
     (mc, regs) \<leftarrow> init_vgic hw (sy_machine s) (sy_regs s) gic_redistributor;
     (mc, regs) \<leftarrow> init_generic_timer_local hw mc regs (generic_timer_physical_int_id s) gic_redistributor;
     let s = s\<lparr>sy_regs := regs\<rparr>;
     name \<leftarrow> disk_file_name i;
     disk_file \<leftarrow> expect_file fs (mc_mem mc) name;
     blk \<leftarrow> virtio_mmio_new disk_file;
     let vm = vm_new i RAM_VIRTUAL_BASE ram_physical_address RAM_SIZE vm_handlers gicd_new (gicr_new cpu_mpidr) pl011_new blk;
     (mc, entry_point) \<leftarrow> load_kernel hw fs vm mc;
     let s = s\<lparr>sy_machine := mc, vm_list := vm_list s @ [vm]\<rparr>;
     let (s, _) = switch_active_vm s i;
     ret (s\<lparr>sy_regs := set_tpidr_el2 (sy_regs s) (word_of_nat i)\<rparr>, entry_point, RAM_VIRTUAL_BASE) }"

text \<open>\<open>boot_vm\<close>: the registers at the \<open>eret\<close> into the guest, with \<open>x0\<close> to \<open>x3\<close>.\<close>

definition boot_vm :: "sysregs \<Rightarrow> usize \<Rightarrow> usize \<Rightarrow> sysregs \<times> u64 list" where
  "boot_vm s entry_point argument =
     (set_elr_el2 (set_spsr_el2 s SPSR_EL2_M_EL1H) (word_of_nat entry_point), [word_of_nat argument, 0, 0, 0])"

end
