(* ===== verification/Dtb.thy ===== *)
theory Dtb
  imports Fat32
begin

text \<open>
  The flattened device tree parser of \<open>src/src/dtb.rs\<close>. The tree lies in memory at an address;
  \<open>Dtb\<close> is that address. A \<open>&mut usize\<close> argument is returned with the result, a \<open>?\<close>
  is \<open>try_ok\<close>, and pointer arithmetic is checked. Sizes and cell counts of type \<open>u32\<close> are
  natural numbers.
\<close>

section \<open>Structures and constants\<close>

record dtb_node =
  node_address :: usize
  node_address_cells :: nat
  node_size_cells :: nat

record dtb_property =
  prop_address :: usize
  prop_address_cells :: nat
  prop_size_cells :: nat
  prop_len :: nat

definition DTB_MAGIC :: nat where "DTB_MAGIC = 0xd00dfeed"
definition DTB_VERSION :: nat where "DTB_VERSION = 17"
definition FDT_TOKEN_BYTE :: usize where "FDT_TOKEN_BYTE = 4"
definition FDT_BEGIN_NODE :: "u8 list" where "FDT_BEGIN_NODE = [0x00, 0x00, 0x00, 0x01]"
definition FDT_END_NODE :: "u8 list" where "FDT_END_NODE = [0x00, 0x00, 0x00, 0x02]"
definition FDT_PROP :: "u8 list" where "FDT_PROP = [0x00, 0x00, 0x00, 0x03]"
definition FDT_NOP :: "u8 list" where "FDT_NOP = [0x00, 0x00, 0x00, 0x04]"
definition FDT_END :: "u8 list" where "FDT_END = [0x00, 0x00, 0x00, 0x09]"

text \<open>Byte strings.\<close>

definition bytes_of :: "string \<Rightarrow> u8 list" where
  "bytes_of s = map (\<lambda>c. word_of_nat (of_char c)) s"

definition PROP_ADDRESS_CELLS :: "u8 list" where "PROP_ADDRESS_CELLS = bytes_of ''#address-cells''"
definition PROP_SIZE_CELLS :: "u8 list" where "PROP_SIZE_CELLS = bytes_of ''#size-cells''"
definition PROP_REG :: "u8 list" where "PROP_REG = bytes_of ''reg''"
definition PROP_STATUS :: "u8 list" where "PROP_STATUS = bytes_of ''status''"
definition PROP_STATUS_OKAY :: "u8 list" where "PROP_STATUS_OKAY = bytes_of ''okay'' @ [0]"
definition PROP_COMPATIBLE :: "u8 list" where "PROP_COMPATIBLE = bytes_of ''compatible''"
definition DEFAULT_ADDRESS_CELLS :: nat where "DEFAULT_ADDRESS_CELLS = 2"
definition DEFAULT_SIZE_CELLS :: nat where "DEFAULT_SIZE_CELLS = 1"

text \<open>\<open>u32::from_be_bytes\<close>, and \<open>u32::from_be\<close> of a field in memory.\<close>

definition be32 :: "u8 list \<Rightarrow> nat" where
  "be32 bs = foldl (\<lambda>n b. n * 256 + unat b) 0 bs"

definition load_be32 :: "byte_mem \<Rightarrow> usize \<Rightarrow> nat" where
  "load_be32 m a = be32 (load_bytes m a 4)"

text \<open>The \<open>?\<close> operator.\<close>

abbreviation (input) try_ok ::
    "('a, unit) result option \<Rightarrow> ('a \<Rightarrow> ('b, unit) result option) \<Rightarrow> ('b, unit) result option" where
  "try_ok x f \<equiv> Option.bind x (\<lambda>r. case r of Err e \<Rightarrow> Some (Err ()) | Ok a \<Rightarrow> f a)"

section \<open>Header\<close>

definition dtb_new :: "byte_mem \<Rightarrow> usize \<Rightarrow> (usize, unit) result" where
  "dtb_new m dtb_address =
     (if load_be32 m dtb_address \<noteq> DTB_MAGIC then Err ()
      else if DTB_VERSION < load_be32 m (dtb_address + 20) then Err ()
      else Ok dtb_address)"

definition get_total_size :: "byte_mem \<Rightarrow> usize \<Rightarrow> usize" where
  "get_total_size m h = load_be32 m (h + 4)"

definition get_struct_offset :: "byte_mem \<Rightarrow> usize \<Rightarrow> usize option" where
  "get_struct_offset m h = uadd h (load_be32 m (h + 8))"

definition get_struct_size :: "byte_mem \<Rightarrow> usize \<Rightarrow> usize" where
  "get_struct_size m h = load_be32 m (h + 36)"

definition get_string_offset :: "byte_mem \<Rightarrow> usize \<Rightarrow> usize option" where
  "get_string_offset m h = uadd h (load_be32 m (h + 12))"

definition get_string_size :: "byte_mem \<Rightarrow> usize \<Rightarrow> usize" where
  "get_string_size m h = load_be32 m (h + 32)"

section \<open>Tokens and strings\<close>

definition read_node :: "byte_mem \<Rightarrow> usize \<Rightarrow> usize \<Rightarrow> (u8 list, unit) result option" where
  "read_node m h address = do {
     a \<leftarrow> get_struct_offset m h;
     e \<leftarrow> uadd a (get_struct_size m h);
     ret (if e \<le> address then Err () else Ok (load_bytes m address FDT_TOKEN_BYTE)) }"

partial_function (option) skip_nop :: "byte_mem \<Rightarrow> usize \<Rightarrow> usize \<Rightarrow> (usize, unit) result option" where
  "skip_nop m h p = try_ok (read_node m h p) (\<lambda>t.
     if t = FDT_NOP then do { p \<leftarrow> uadd p FDT_TOKEN_BYTE; skip_nop m h p } else ret (Ok p))"

definition skip_padding :: "usize \<Rightarrow> usize option" where
  "skip_padding p = do { t \<leftarrow> usub p 1; uadd (uand_not t FDT_TOKEN_BYTE) FDT_TOKEN_BYTE }"

text \<open>The loop \<open>while *p != 0 { p += 1 }\<close> with the step over the end of the string and the padding.\<close>

partial_function (option) skip_string :: "byte_mem \<Rightarrow> usize \<Rightarrow> usize option" where
  "skip_string m p =
     (if m p \<noteq> 0 then do { p \<leftarrow> uadd p 1; skip_string m p } else do { p \<leftarrow> uadd p 1; skip_padding p })"

fun compare_chars :: "byte_mem \<Rightarrow> usize \<Rightarrow> u8 list \<Rightarrow> (usize \<times> bool) option" where
  "compare_chars m p [] = ret (p, True)"
| "compare_chars m p (c # cs) =
     (if c \<noteq> m p then ret (p, False) else do { p \<leftarrow> uadd p 1; compare_chars m p cs })"

definition compare_name_segment ::
    "byte_mem \<Rightarrow> usize \<Rightarrow> nat \<Rightarrow> u8 list \<Rightarrow> u8 list \<Rightarrow> (bool, unit) result option" where
  "compare_name_segment m h name_offset name delimiter =
     (if get_string_size m h \<le> name_offset then ret (Err ())
      else do {
        p \<leftarrow> get_string_offset m h;
        p \<leftarrow> uadd p name_offset;
        (p, same) \<leftarrow> compare_chars m p name;
        ret (Ok (same \<and> m p \<in> set (delimiter @ [0]))) })"

definition compare_string ::
    "byte_mem \<Rightarrow> usize \<Rightarrow> u8 list \<Rightarrow> u8 list \<Rightarrow> (usize \<times> bool) option" where
  "compare_string m p name delimiter = do {
     (p, same) \<leftarrow> compare_chars m p name;
     let found = (same \<and> m p \<in> set (delimiter @ [0]));
     p \<leftarrow> skip_string m p;
     ret (p, found) }"

section \<open>Skipping a node\<close>

partial_function (option) skip_to_next_node :: "byte_mem \<Rightarrow> usize \<Rightarrow> usize \<Rightarrow> (usize, unit) result option" where
  "skip_to_next_node m h p = do {
     p \<leftarrow> skip_padding p;
     try_ok (skip_nop m h p) (\<lambda>p. try_ok (read_node m h p) (\<lambda>t.
       if t = FDT_BEGIN_NODE then do {
         p \<leftarrow> uadd p FDT_TOKEN_BYTE;
         try_ok (skip_to_next_node m h p) (\<lambda>p. skip_to_next_node m h p) }
       else if t = FDT_END then ret (Err ())
       else if t = FDT_END_NODE then do { p \<leftarrow> uadd p FDT_TOKEN_BYTE; ret (Ok p) }
       else if t = FDT_PROP then do {
         p \<leftarrow> uadd p FDT_TOKEN_BYTE;
         try_ok (read_node m h p) (\<lambda>l. do {
           p \<leftarrow> uadd p 4;
           p \<leftarrow> uadd p 4;
           p \<leftarrow> uadd p (be32 l);
           skip_to_next_node m h p }) }
       else ret (Err ()))) }"

section \<open>Searching\<close>

definition check_address_and_size_cells ::
    "byte_mem \<Rightarrow> usize \<Rightarrow> nat \<Rightarrow> usize \<Rightarrow> nat \<Rightarrow> nat \<Rightarrow> (nat \<times> nat, unit) result option" where
  "check_address_and_size_cells m h name_segment p address_cells size_cells =
     try_ok (compare_name_segment m h name_segment PROP_ADDRESS_CELLS []) (\<lambda>is_address.
       if is_address then try_ok (read_node m h p) (\<lambda>t. ret (Ok (be32 t, size_cells)))
       else try_ok (compare_name_segment m h name_segment PROP_SIZE_CELLS []) (\<lambda>is_size.
         if is_size then try_ok (read_node m h p) (\<lambda>t. ret (Ok (address_cells, be32 t)))
         else ret (Ok (address_cells, size_cells))))"

text \<open>The length and the name of a property, with the pointer to its value.\<close>

definition read_property_header :: "byte_mem \<Rightarrow> usize \<Rightarrow> usize \<Rightarrow> (usize \<times> nat \<times> nat, unit) result option" where
  "read_property_header m h p = do {
     p \<leftarrow> uadd p FDT_TOKEN_BYTE;
     try_ok (read_node m h p) (\<lambda>l. do {
       p \<leftarrow> uadd p 4;
       try_ok (read_node m h p) (\<lambda>n. do {
         p \<leftarrow> uadd p 4;
         ret (Ok (p, be32 l, be32 n)) }) }) }"

text \<open>The token \<open>FDT_BEGIN_NODE\<close>, behind \<open>FDT_NOP\<close>s, that both searches start with.\<close>

definition begin_node :: "byte_mem \<Rightarrow> usize \<Rightarrow> usize \<Rightarrow> (usize, unit) result option" where
  "begin_node m h p = try_ok (skip_nop m h p) (\<lambda>p. try_ok (read_node m h p) (\<lambda>t.
     if t \<noteq> FDT_BEGIN_NODE then ret (Err ()) else do { p \<leftarrow> uadd p FDT_TOKEN_BYTE; ret (Ok p) }))"

text \<open>
  The loop of \<open>_search_node\<close> over the contents of a node. \<open>_search_node\<close> on a child is
  written out: a match of its name ends the search, otherwise its contents are searched.
\<close>

partial_function (option) search_node_loop ::
    "byte_mem \<Rightarrow> usize \<Rightarrow> u8 list \<Rightarrow> usize \<Rightarrow> nat \<Rightarrow> nat \<Rightarrow> (usize \<times> dtb_node option, unit) result option" where
  "search_node_loop m h node_name p address_cells size_cells = do {
     p \<leftarrow> skip_padding p;
     try_ok (skip_nop m h p) (\<lambda>p. try_ok (read_node m h p) (\<lambda>t.
       if t = FDT_BEGIN_NODE then
         try_ok (begin_node m h p) (\<lambda>p. do {
           (p, found) \<leftarrow> compare_string m p node_name [0x40];
           if found then ret (Ok (p, Some \<lparr>node_address = p, node_address_cells = address_cells,
             node_size_cells = size_cells\<rparr>))
           else try_ok (search_node_loop m h node_name p address_cells size_cells) (\<lambda>(p, r).
             case r of Some i \<Rightarrow> ret (Ok (p, Some i))
             | None \<Rightarrow> search_node_loop m h node_name p address_cells size_cells) })
       else if t = FDT_END then ret (Err ())
       else if t = FDT_END_NODE then do { p \<leftarrow> uadd p FDT_TOKEN_BYTE; ret (Ok (p, None)) }
       else if t = FDT_PROP then
         try_ok (read_property_header m h p) (\<lambda>(p, len, name_segment).
           try_ok (check_address_and_size_cells m h name_segment p address_cells size_cells) (\<lambda>(ac, sc). do {
             p \<leftarrow> uadd p len;
             search_node_loop m h node_name p ac sc }))
       else ret (Err ()))) }"

definition search_node_at ::
    "byte_mem \<Rightarrow> usize \<Rightarrow> u8 list \<Rightarrow> usize \<Rightarrow> nat \<Rightarrow> nat \<Rightarrow> (usize \<times> dtb_node option, unit) result option" where
  "search_node_at m h node_name p address_cells size_cells =
     try_ok (begin_node m h p) (\<lambda>p. do {
       (p, found) \<leftarrow> compare_string m p node_name [0x40];
       if found then ret (Ok (p, Some \<lparr>node_address = p, node_address_cells = address_cells,
         node_size_cells = size_cells\<rparr>))
       else search_node_loop m h node_name p address_cells size_cells })"

text \<open>The loop \<open>while self.read_node(pointer).is_ok()\<close> of both public searches.\<close>

partial_function (option) search_siblings ::
    "byte_mem \<Rightarrow> usize \<Rightarrow> (usize \<Rightarrow> (usize \<times> dtb_node option, unit) result option) \<Rightarrow> usize \<Rightarrow> dtb_node option option" where
  "search_siblings m h search p = do {
     t \<leftarrow> read_node m h p;
     (case t of
        Err e \<Rightarrow> ret None
      | Ok b \<Rightarrow> do {
          r \<leftarrow> search p;
          (case r of
             Err e \<Rightarrow> ret None
           | Ok (p, n) \<Rightarrow> (case n of
               Some n \<Rightarrow> ret (Some n)
             | None \<Rightarrow> do { p \<leftarrow> uadd p FDT_TOKEN_BYTE; search_siblings m h search p })) }) }"

text \<open>Where a search starts, and with which cell sizes.\<close>

definition search_start :: "byte_mem \<Rightarrow> usize \<Rightarrow> dtb_node option \<Rightarrow> (usize \<times> nat \<times> nat, unit) result option" where
  "search_start m h current_node =
     (case current_node of
        Some c \<Rightarrow> try_ok (skip_to_next_node m h (node_address c))
          (\<lambda>p. ret (Ok (p, node_address_cells c, node_size_cells c)))
      | None \<Rightarrow> do {
          p \<leftarrow> get_struct_offset m h;
          ret (Ok (p, DEFAULT_ADDRESS_CELLS, DEFAULT_SIZE_CELLS)) })"

definition search_node :: "byte_mem \<Rightarrow> usize \<Rightarrow> u8 list \<Rightarrow> dtb_node option \<Rightarrow> dtb_node option option" where
  "search_node m h node_name current_node = do {
     st \<leftarrow> search_start m h current_node;
     (case st of
        Err e \<Rightarrow> ret None
      | Ok (p, ac, sc) \<Rightarrow> search_siblings m h (\<lambda>p. search_node_at m h node_name p ac sc) p) }"

section \<open>Searching by compatible string\<close>

text \<open>The loop over the strings of a \<open>compatible\<close> property; \<open>p\<close> is a checked \<open>u32\<close>.\<close>

fun match_chars :: "byte_mem \<Rightarrow> usize \<Rightarrow> nat \<Rightarrow> u8 list \<Rightarrow> (nat \<times> bool) option" where
  "match_chars m a p [] = ret (p, True)"
| "match_chars m a p (c # cs) = do {
     q \<leftarrow> uadd a p;
     if m q \<noteq> c then ret (p, False) else do { p \<leftarrow> add32 p 1; match_chars m a p cs } }"

partial_function (option) compatible_loop ::
    "byte_mem \<Rightarrow> dtb_property \<Rightarrow> u8 list \<Rightarrow> nat \<Rightarrow> bool \<Rightarrow> bool option" where
  "compatible_loop m info compatible p skip =
     (if p < prop_len info then
        if skip then do {
          q \<leftarrow> uadd (prop_address info) p;
          p \<leftarrow> add32 p 1;
          compatible_loop m info compatible p (m q \<noteq> 0) }
        else do {
          (p, same) \<leftarrow> match_chars m (prop_address info) p (compatible @ [0]);
          if same then ret True else compatible_loop m info compatible p True }
      else ret False)"

definition is_compatible_property :: "byte_mem \<Rightarrow> dtb_property \<Rightarrow> u8 list \<Rightarrow> bool option" where
  "is_compatible_property m info compatible = compatible_loop m info compatible 0 False"

partial_function (option) search_compatible_loop ::
    "byte_mem \<Rightarrow> usize \<Rightarrow> u8 list \<Rightarrow> usize \<Rightarrow> usize \<Rightarrow> nat \<Rightarrow> nat \<Rightarrow> (usize \<times> dtb_node option, unit) result option" where
  "search_compatible_loop m h compatible temporary_pointer p address_cells size_cells = do {
     p \<leftarrow> skip_padding p;
     try_ok (skip_nop m h p) (\<lambda>p. try_ok (read_node m h p) (\<lambda>t.
       if t = FDT_BEGIN_NODE then
         try_ok (begin_node m h p) (\<lambda>p. do {
           p \<leftarrow> skip_string m p;
           try_ok (search_compatible_loop m h compatible p p address_cells size_cells) (\<lambda>(p, r).
             case r of Some i \<Rightarrow> ret (Ok (p, Some i))
             | None \<Rightarrow> search_compatible_loop m h compatible temporary_pointer p address_cells size_cells) })
       else if t = FDT_END_NODE then do { p \<leftarrow> uadd p FDT_TOKEN_BYTE; ret (Ok (p, None)) }
       else if t = FDT_PROP then
         try_ok (read_property_header m h p) (\<lambda>(p, len, name_segment).
           try_ok (check_address_and_size_cells m h name_segment p address_cells size_cells) (\<lambda>(ac, sc).
             try_ok (compare_name_segment m h name_segment PROP_COMPATIBLE []) (\<lambda>is_compatible. do {
               found \<leftarrow> (if is_compatible then is_compatible_property m \<lparr>prop_address = p, prop_address_cells = ac,
                   prop_size_cells = sc, prop_len = len\<rparr> compatible
                 else ret False);
               if found then ret (Ok (p, Some \<lparr>node_address = temporary_pointer, node_address_cells = ac,
                 node_size_cells = sc\<rparr>))
               else do {
                 p \<leftarrow> uadd p len;
                 search_compatible_loop m h compatible temporary_pointer p ac sc } })))
       else ret (Err ()))) }"

definition search_compatible_at ::
    "byte_mem \<Rightarrow> usize \<Rightarrow> u8 list \<Rightarrow> usize \<Rightarrow> nat \<Rightarrow> nat \<Rightarrow> (usize \<times> dtb_node option, unit) result option" where
  "search_compatible_at m h compatible p address_cells size_cells =
     try_ok (begin_node m h p) (\<lambda>p. do {
       p \<leftarrow> skip_string m p;
       search_compatible_loop m h compatible p p address_cells size_cells })"

definition search_node_by_compatible :: "byte_mem \<Rightarrow> usize \<Rightarrow> u8 list \<Rightarrow> dtb_node option \<Rightarrow> dtb_node option option" where
  "search_node_by_compatible m h compatible current_node = do {
     st \<leftarrow> search_start m h current_node;
     (case st of
        Err e \<Rightarrow> ret None
      | Ok (p, ac, sc) \<Rightarrow> search_siblings m h (\<lambda>p. search_compatible_at m h compatible p ac sc) p) }"

section \<open>Properties of a node\<close>

partial_function (option) get_property_loop ::
    "byte_mem \<Rightarrow> usize \<Rightarrow> u8 list \<Rightarrow> usize \<Rightarrow> nat \<Rightarrow> nat \<Rightarrow> (dtb_property, unit) result option" where
  "get_property_loop m h property_name p address_cells size_cells = do {
     p \<leftarrow> skip_padding p;
     try_ok (skip_nop m h p) (\<lambda>p. try_ok (read_node m h p) (\<lambda>t.
       if t = FDT_PROP then
         try_ok (read_property_header m h p) (\<lambda>(p, len, name_segment).
           try_ok (check_address_and_size_cells m h name_segment p address_cells size_cells) (\<lambda>(ac, sc).
             try_ok (compare_name_segment m h name_segment property_name []) (\<lambda>same.
               if same then ret (Ok \<lparr>prop_address = p, prop_address_cells = ac, prop_size_cells = sc, prop_len = len\<rparr>)
               else do {
                 p \<leftarrow> uadd p len;
                 get_property_loop m h property_name p ac sc })))
       else ret (Err ()))) }"

definition get_property :: "byte_mem \<Rightarrow> usize \<Rightarrow> dtb_node \<Rightarrow> u8 list \<Rightarrow> dtb_property option option" where
  "get_property m h node property_name = do {
     r \<leftarrow> get_property_loop m h property_name (node_address node) (node_address_cells node) (node_size_cells node);
     ret (case r of Ok p \<Rightarrow> Some p | Err e \<Rightarrow> None) }"

definition is_node_operational :: "byte_mem \<Rightarrow> usize \<Rightarrow> dtb_node \<Rightarrow> bool option" where
  "is_node_operational m h node = do {
     r \<leftarrow> get_property m h node PROP_STATUS;
     ret (case r of Some p \<Rightarrow> load_bytes m (prop_address p) 5 = PROP_STATUS_OKAY | None \<Rightarrow> True) }"

definition is_device_compatible :: "byte_mem \<Rightarrow> usize \<Rightarrow> dtb_node \<Rightarrow> u8 list \<Rightarrow> bool option" where
  "is_device_compatible m h node compatible = do {
     r \<leftarrow> get_property m h node PROP_COMPATIBLE;
     (case r of Some info \<Rightarrow> is_compatible_property m info compatible | None \<Rightarrow> ret False) }"

text \<open>The loops \<open>v <<= 8; v |= byte\<close>: bits shifted out of the word are lost.\<close>

definition read_be :: "byte_mem \<Rightarrow> usize \<Rightarrow> nat \<Rightarrow> usize" where
  "read_be m a n = foldl (\<lambda>v b. (v * 256 + unat b) mod usize_range) 0 (load_bytes m a n)"

definition read_reg_property :: "byte_mem \<Rightarrow> usize \<Rightarrow> dtb_node \<Rightarrow> usize \<Rightarrow> (usize \<times> usize) option option" where
  "read_reg_property m h node index = do {
     r \<leftarrow> get_property m h node PROP_REG;
     case r of None \<Rightarrow> ret None | Some info \<Rightarrow> do {
       cells \<leftarrow> add32 (prop_address_cells info) (prop_size_cells info);
       offset \<leftarrow> umul (cells * 4) index;
       e \<leftarrow> uadd offset (cells * 4);
       if prop_len info < e then ret None
       else do {
         n \<leftarrow> mul32 (prop_address_cells info) 4;
         a \<leftarrow> uadd (prop_address info) offset;
         k \<leftarrow> mul32 (prop_size_cells info) 4;
         ret (Some (read_be m a n, read_be m (a + n) k)) } } }"

definition read_property_as_u8_array :: "byte_mem \<Rightarrow> dtb_property \<Rightarrow> u8 list" where
  "read_property_as_u8_array m info = load_bytes m (prop_address info) (prop_len info)"

definition read_property_as_u32_array :: "byte_mem \<Rightarrow> dtb_property \<Rightarrow> u32 list" where
  "read_property_as_u32_array m info = map (\<lambda>i. load32 m (prop_address info + 4 * i)) [0..<prop_len info div 4]"

definition read_property_as_u32 :: "byte_mem \<Rightarrow> dtb_property \<Rightarrow> u32 option" where
  "read_property_as_u32 m info = (if prop_len info < 4 then None else Some (load32 m (prop_address info)))"

end
