(* ===== verification/Psci.thy ===== *)
theory Psci
  imports Machine
begin

text \<open>
  The power state interface of the firmware (\<open>src/src/psci.rs\<close>). The firmware is the parameter
  \<open>hw_smc\<close>: a call gets the four argument registers and returns \<open>x0\<close>.
\<close>

definition PSCI_VERSION :: u64 where "PSCI_VERSION = 0x84000000"
definition PSCI_SYSTEM_OFF :: u64 where "PSCI_SYSTEM_OFF = 0x84000008"
definition PSCI_CPU_ON :: u64 where "PSCI_CPU_ON = 0xC4000003"

datatype psci_error_codes =
  Success | NotSupported | InvalidParameters | Denied | AlreadyOn | OnPending | InternalFailure | NotPresent |
  Disabled | InvalidAddress | Unknown

text \<open>\<open>value as i32\<close>.\<close>

definition as_i32 :: "u64 \<Rightarrow> int" where
  "as_i32 v = sint (ucast v :: u32)"

definition psci_from :: "u64 \<Rightarrow> psci_error_codes" where
  "psci_from v =
     (let v = as_i32 v in
      if v = 0 then Success else if v = - 1 then NotSupported else if v = - 2 then InvalidParameters
      else if v = - 3 then Denied else if v = - 4 then AlreadyOn else if v = - 5 then OnPending
      else if v = - 6 then InternalFailure else if v = - 7 then NotPresent else if v = - 8 then Disabled
      else if v = - 9 then InvalidAddress else Unknown)"

definition smc :: "'h hw \<Rightarrow> 'h machine \<Rightarrow> u64 \<Rightarrow> u64 \<Rightarrow> u64 \<Rightarrow> u64 \<Rightarrow> 'h machine \<times> u64" where
  "smc hw mc x0 x1 x2 x3 = (let (h, r) = hw_smc hw (mc_dev mc) x0 x1 x2 x3 in (mc\<lparr>mc_dev := h\<rparr>, r))"

definition check_psci_version :: "'h hw \<Rightarrow> 'h machine \<Rightarrow> 'h machine \<times> (u16 \<times> u16, psci_error_codes) result" where
  "check_psci_version hw mc =
     (let (mc, version) = smc hw mc PSCI_VERSION 0 0 0 in
      if as_i32 version = - 1 then (mc, Err NotSupported)
      else (mc, Ok (ucast (drop_bit 16 version), ucast (version AND 0xFFFF))))"

definition cpu_on :: "'h hw \<Rightarrow> 'h machine \<Rightarrow> u64 \<Rightarrow> u64 \<Rightarrow> u64 \<Rightarrow> 'h machine \<times> (unit, psci_error_codes) result" where
  "cpu_on hw mc target_cpu entry_point argument =
     (let (mc, r) = smc hw mc PSCI_CPU_ON target_cpu entry_point argument;
          error_code = psci_from r
      in (mc, if error_code = Success then Ok () else Err error_code))"

text \<open>\<open>system_off\<close> does not return: when the call comes back, \<open>unreachable!()\<close> panics.\<close>

definition system_off :: "'h hw \<Rightarrow> 'h machine \<Rightarrow> 'a option" where
  "system_off hw mc = (let (mc, r) = smc hw mc PSCI_SYSTEM_OFF 0 0 0 in panic)"

end
