(* ===== verification/Elf.thy ===== *)
theory Elf
  imports Machine
begin

text \<open>
  The ELF header of the hypervisor's own image (\<open>src/src/elf.rs\<close>), which \<open>setup_memory\<close>
  reads to reserve the loaded segments. A header is its address in memory.
\<close>

definition ELF_MAGIC :: "u8 list" where "ELF_MAGIC = [0x7f, 0x45, 0x4c, 0x46]"
definition ELF_CLASS :: u8 where "ELF_CLASS = 0x02"
definition ELF_HEADER_VERSION :: u8 where "ELF_HEADER_VERSION = 0x01"
definition ELF_SUPPORTED_VERSION :: u32 where "ELF_SUPPORTED_VERSION = 1"

definition elf_header_new :: "byte_mem \<Rightarrow> usize \<Rightarrow> (usize, unit) result" where
  "elf_header_new m address =
     (if load_bytes m address 4 \<noteq> ELF_MAGIC \<or> m (address + 4) \<noteq> ELF_CLASS \<or> m (address + 6) \<noteq> ELF_HEADER_VERSION \<or>
         load32 m (address + 20) \<noteq> ELF_SUPPORTED_VERSION
      then Err () else Ok address)"

definition get_program_header_offset :: "byte_mem \<Rightarrow> usize \<Rightarrow> u64" where
  "get_program_header_offset m e = load64 m (e + 32)"

definition get_program_header_entry_size :: "byte_mem \<Rightarrow> usize \<Rightarrow> u16" where
  "get_program_header_entry_size m e = load16 m (e + 54)"

definition get_num_of_program_header :: "byte_mem \<Rightarrow> usize \<Rightarrow> u16" where
  "get_num_of_program_header m e = load16 m (e + 56)"

record elf_iter =
  it_pointer :: usize
  it_size :: u16
  it_remaining :: u16

definition get_program_headers :: "byte_mem \<Rightarrow> usize \<Rightarrow> elf_iter option" where
  "get_program_headers m e = do {
     p \<leftarrow> uadd e (unat (get_program_header_offset m e));
     ret \<lparr>it_pointer = p, it_size = get_program_header_entry_size m e, it_remaining = get_num_of_program_header m e\<rparr> }"

text \<open>The fields of a program header that the code uses.\<close>

definition load_program_header :: "byte_mem \<Rightarrow> usize \<Rightarrow> load_segment" where
  "load_program_header m a = \<lparr>seg_type = load32 m a, seg_paddr = unat (load64 m (a + 24)), seg_memsz = unat (load64 m (a + 40))\<rparr>"

definition elf_iter_next :: "byte_mem \<Rightarrow> elf_iter \<Rightarrow> (elf_iter \<times> load_segment option) option" where
  "elf_iter_next m it =
     (if it_remaining it = 0 then ret (it, None)
      else do {
        p \<leftarrow> uadd (it_pointer it) (unat (it_size it));
        ret (it\<lparr>it_pointer := p, it_remaining := it_remaining it - 1\<rparr>, Some (load_program_header m (it_pointer it))) })"

text \<open>The \<open>for\<close> loop over the iterator.\<close>

function elf_segments :: "byte_mem \<Rightarrow> elf_iter \<Rightarrow> load_segment list option" where
  "elf_segments m it = do {
     (it', r) \<leftarrow> elf_iter_next m it;
     (case r of None \<Rightarrow> ret [] | Some p \<Rightarrow> do { ps \<leftarrow> elf_segments m it'; ret (p # ps) }) }"
  by pat_completeness auto
termination
proof (relation "measure (\<lambda>(m, it). unat (it_remaining it))")
  fix m :: byte_mem and it it' r p and x :: "elf_iter \<times> load_segment option"
  assume "elf_iter_next m it = Some x" "(it', r) = x" "r = Some p"
  then have "it_remaining it \<noteq> 0" "it_remaining it' = it_remaining it - 1"
    by (auto simp: elf_iter_next_def elim!: option_bindE split: if_splits)
  then show "((m, it'), m, it) \<in> measure (\<lambda>(m, it). unat (it_remaining it))"
    using unat_minus_one [of "it_remaining it"] unat_gt_0 [of "it_remaining it"] by simp
qed simp

end
