(* ===== verification/Serial.thy ===== *)
theory Serial
  imports Machine
begin

text \<open>
  The driver of the physical serial port (\<open>src/src/drivers/pl011.rs\<close>) and the writer behind
  \<open>print!\<close> (\<open>src/src/serial.rs\<close>). A port is its base address; the trait \<open>SerialDevice\<close> is the pair
  of its operations, passed as an argument where the code is generic in it.
\<close>

definition P_UART_SIZE :: usize where "P_UART_SIZE = 0x1000"
definition P_UART_DR :: usize where "P_UART_DR = 0x000"
definition P_UART_FR :: usize where "P_UART_FR = 0x018"
definition P_UART_CR :: usize where "P_UART_CR = 0x030"
definition P_UART_IMSC :: usize where "P_UART_IMSC = 0x038"
definition P_UART_FR_TXFF :: u16 where "P_UART_FR_TXFF = push_bit 5 1"
definition P_UART_FR_RXFE :: u16 where "P_UART_FR_RXFE = push_bit 4 1"
definition P_UART_CR_RXE :: u16 where "P_UART_CR_RXE = push_bit 9 1"
definition P_UART_CR_TXE :: u16 where "P_UART_CR_TXE = push_bit 8 1"
definition P_UART_CR_UARTEN :: u16 where "P_UART_CR_UARTEN = 1"
definition P_UART_IMSC_RXIM :: u16 where "P_UART_IMSC_RXIM = push_bit 4 1"

definition pl011_device_invalid :: usize where "pl011_device_invalid = 0"

definition pl011_device_new :: "usize \<Rightarrow> usize \<Rightarrow> (usize, unit) result" where
  "pl011_device_new base_address sz = (if sz < P_UART_SIZE then Err () else Ok base_address)"

definition is_tx_fifo_full :: "'h hw \<Rightarrow> 'h machine \<Rightarrow> usize \<Rightarrow> ('h machine \<times> bool) option" where
  "is_tx_fifo_full hw mc base = do {
     (mc, v) \<leftarrow> volatile_read hw mc 2 base P_UART_FR;
     ret (mc, ucast v AND P_UART_FR_TXFF \<noteq> 0) }"

definition is_rx_fifo_empty :: "'h hw \<Rightarrow> 'h machine \<Rightarrow> usize \<Rightarrow> ('h machine \<times> bool) option" where
  "is_rx_fifo_empty hw mc base = do {
     (mc, v) \<leftarrow> volatile_read hw mc 2 base P_UART_FR;
     ret (mc, ucast v AND P_UART_FR_RXFE \<noteq> 0) }"

definition pl011_enable_interrupt :: "'h hw \<Rightarrow> 'h machine \<Rightarrow> usize \<Rightarrow> 'h machine option" where
  "pl011_enable_interrupt hw mc base = do {
     mc \<leftarrow> volatile_write hw mc 2 base P_UART_CR (ucast (P_UART_CR_RXE OR P_UART_CR_TXE OR P_UART_CR_UARTEN));
     (mc, v) \<leftarrow> volatile_read hw mc 2 base P_UART_IMSC;
     volatile_write hw mc 2 base P_UART_IMSC (ucast (ucast v OR P_UART_IMSC_RXIM)) }"

partial_function (option) putc :: "'h hw \<Rightarrow> usize \<Rightarrow> 'h machine \<Rightarrow> u8 \<Rightarrow> ('h machine \<times> (unit, unit) result) option" where
  "putc hw base mc c = do {
     (mc, full) \<leftarrow> is_tx_fifo_full hw mc base;
     if full then
       (let (d, m) = hw_step hw (mc_dev mc, mc_mem mc) in putc hw base (mc\<lparr>mc_dev := d, mc_mem := m\<rparr>) c)
     else do { mc \<leftarrow> volatile_write hw mc 1 base P_UART_DR (ucast c); ret (mc, Ok ()) } }"

definition getc :: "'h hw \<Rightarrow> usize \<Rightarrow> 'h machine \<Rightarrow> ('h machine \<times> (u8 option, unit) result) option" where
  "getc hw base mc = do {
     (mc, is_empty) \<leftarrow> is_rx_fifo_empty hw mc base;
     if is_empty then ret (mc, Ok None)
     else do { (mc, v) \<leftarrow> volatile_read hw mc 1 base P_UART_DR; ret (mc, Ok (Some (ucast v))) } }"

section \<open>Strings\<close>

fun write_str :: "('s \<Rightarrow> u8 \<Rightarrow> ('s \<times> (unit, 'e) result) option) \<Rightarrow> 's \<Rightarrow> u8 list \<Rightarrow> ('s \<times> (unit, 'e) result) option" where
  "write_str put s [] = ret (s, Ok ())"
| "write_str put s (c # cs) = do {
     (s, r) \<leftarrow> (if c = 0x0A then put s 0x0D else ret (s, Ok ()));
     case r of Err e \<Rightarrow> ret (s, Err e) | Ok u \<Rightarrow> do {
       (s, r) \<leftarrow> put s c;
       case r of Err e \<Rightarrow> ret (s, Err e) | Ok u \<Rightarrow> write_str put s cs } }"

text \<open>\<open>Serial::write_str\<close>: without a device the write fails.\<close>

definition serial_write_str :: "'h hw \<Rightarrow> usize option \<Rightarrow> 'h machine \<Rightarrow> u8 list \<Rightarrow> ('h machine \<times> (unit, unit) result) option" where
  "serial_write_str hw inner mc s =
     (case inner of None \<Rightarrow> ret (mc, Err ()) | Some base \<Rightarrow> write_str (putc hw base) mc s)"

text \<open>
  \<open>SERIAL_DEVICE\<close> and \<open>print\<close>. Formatting is done by the library, which passes the pieces of the
  text to \<open>write_str\<close> one after the other and stops at the first error; the result is ignored.
\<close>

record serial =
  serial_inner :: "usize option"

definition serial_new :: "usize \<Rightarrow> serial" where
  "serial_new device = \<lparr>serial_inner = Some device\<rparr>"

definition init_default_serial_port :: "serial \<Rightarrow> usize \<Rightarrow> serial" where
  "init_default_serial_port s device = serial_new device"

fun write_fmt :: "'h hw \<Rightarrow> serial \<Rightarrow> 'h machine \<Rightarrow> u8 list list \<Rightarrow> ('h machine \<times> (unit, unit) result) option" where
  "write_fmt hw s mc [] = ret (mc, Ok ())"
| "write_fmt hw s mc (p # ps) = do {
     (mc, r) \<leftarrow> serial_write_str hw (serial_inner s) mc p;
     case r of Err e \<Rightarrow> ret (mc, Err e) | Ok u \<Rightarrow> write_fmt hw s mc ps }"

definition print :: "'h hw \<Rightarrow> serial \<Rightarrow> 'h machine \<Rightarrow> u8 list list \<Rightarrow> 'h machine option" where
  "print hw s mc args = do { (mc, r) \<leftarrow> write_fmt hw s mc args; ret mc }"

section \<open>What is written\<close>

text \<open>The bytes on the line: a carriage return before every line feed.\<close>

definition crlf :: "u8 list \<Rightarrow> u8 list" where
  "crlf = concat \<circ> map (\<lambda>c. if c = 0x0A then [0x0D, c] else [c])"

lemma crlf_simps [simp]:
  "crlf [] = []" "crlf (c # cs) = (if c = 0x0A then [0x0D, c] else [c]) @ crlf cs" "crlf (s @ t) = crlf s @ crlf t"
  by (simp_all add: crlf_def)

text \<open>A device that takes every byte gets the text with the line ends expanded.\<close>

lemma write_str_crlf:
  assumes "\<And>s c. put s c = Some (out s c, Ok ())"
  shows "write_str put s cs = Some (foldl out s (crlf cs), Ok ())"
  by (induction cs arbitrary: s) (simp_all add: assms)

text \<open>Pieces of a text make no difference to what is written.\<close>

lemma write_fmt_pieces:
  assumes "\<And>mc c. putc hw base mc c = Some (out mc c, Ok ())"
  shows "write_fmt hw (serial_new base) mc ps = Some (foldl out mc (crlf (concat ps)), Ok ())"
  by (induction ps arbitrary: mc) (simp_all add: serial_write_str_def serial_new_def write_str_crlf [of "putc hw base", OF assms])

text \<open>Before the port is set up nothing is written and nothing fails.\<close>

lemma print_without_port: "print hw \<lparr>serial_inner = None\<rparr> mc ps = Some mc"
  by (cases ps) (simp_all add: print_def serial_write_str_def)

end
