(* ===== verification/Boot.thy ===== *)
theory Boot
  imports Vm Dtb Psci Elf Serial
begin

text \<open>
  Start-up and the services of \<open>src/src/main.rs\<close>: parsing of the boot arguments, discovery of
  the devices in the device tree, mounting of the file system, starting of further CPUs, and
  \<open>main\<close> and \<open>core_main\<close> up to the jump into the guest. Addresses of local arrays and of code
  symbols, which the compiler chooses, are arguments.
\<close>

section \<open>Numbers\<close>

text \<open>The library's \<open>usize::from_str_radix(s, radix).ok()\<close>.\<close>

definition char_digit :: "u8 \<Rightarrow> nat" where
  "char_digit c =
     (if 0x30 \<le> c \<and> c \<le> 0x39 then unat c - 0x30
      else if 0x61 \<le> c \<and> c \<le> 0x7A then unat c - 0x61 + 10
      else if 0x41 \<le> c \<and> c \<le> 0x5A then unat c - 0x41 + 10
      else 36)"

fun parse_digits :: "nat \<Rightarrow> nat \<Rightarrow> u8 list \<Rightarrow> nat option" where
  "parse_digits radix v [] = Some v"
| "parse_digits radix v (c # cs) =
     (if char_digit c < radix \<and> v * radix + char_digit c < usize_range
      then parse_digits radix (v * radix + char_digit c) cs else None)"

definition from_str_radix :: "u8 list \<Rightarrow> nat \<Rightarrow> usize option" where
  "from_str_radix s radix =
     (case s of
        [] \<Rightarrow> None
      | c # cs \<Rightarrow> if c = 0x2B \<and> cs \<noteq> [] then parse_digits radix 0 cs else parse_digits radix 0 s)"

definition str_to_usize :: "u8 list \<Rightarrow> usize option" where
  "str_to_usize s =
     (if take 2 s = [0x30, 0x78] then from_str_radix (drop 2 s) 16
      else if take 2 s = [0x30, 0x6F] then from_str_radix (drop 2 s) 8
      else if take 2 s = [0x30, 0x62] then from_str_radix (drop 2 s) 2
      else from_str_radix s 10)"

text \<open>\<open>u32::from_be\<close> of a word that was loaded in little-endian order.\<close>

definition from_be :: "u32 \<Rightarrow> nat" where
  "from_be v = be32 [ucast v, ucast (drop_bit 8 v), ucast (drop_bit 16 v), ucast (drop_bit 24 v)]"

section \<open>Devices\<close>

partial_function (option) find_operational ::
    "byte_mem \<Rightarrow> usize \<Rightarrow> u8 list \<Rightarrow> dtb_node option \<Rightarrow> dtb_node option option" where
  "find_operational m h compatible current = do {
     r \<leftarrow> search_node_by_compatible m h compatible current;
     (case r of
        None \<Rightarrow> ret None
      | Some d \<Rightarrow> do {
          b \<leftarrow> is_node_operational m h d;
          if b then ret (Some d) else find_operational m h compatible (Some d) }) }"

text \<open>The result holds the base address of the port and its interrupt number.\<close>

definition init_serial_port :: "byte_mem \<Rightarrow> usize \<Rightarrow> (usize \<times> nat, nat) result option" where
  "init_serial_port m h = do {
     r \<leftarrow> find_operational m h (bytes_of ''arm,pl011'') None;
     case r of None \<Rightarrow> ret (Err 5) | Some node \<Rightarrow> do {
       reg \<leftarrow> read_reg_property m h node 0;
       case reg of None \<Rightarrow> ret (Err 6) | Some (base, sz) \<Rightarrow> do {
         p \<leftarrow> get_property m h node (bytes_of ''interrupts'');
         p \<leftarrow> p;
         let interrupts = read_property_as_u32_array m p;
         i0 \<leftarrow> arr_get interrupts 0;
         interrupt_number \<leftarrow> (if from_be i0 = unat DTB_GIC_SPI then do {
             i2 \<leftarrow> arr_get interrupts 2;
             if from_be i2 = unat DTB_GIC_LEVEL then do {
               i1 \<leftarrow> arr_get interrupts 1;
               add32 (unat GIC_SPI_BASE) (from_be i1) }
             else ret 0 }
           else ret 0);
         ret (case pl011_device_new base sz of Err e \<Rightarrow> Err 7 | Ok b \<Rightarrow> Ok (b, interrupt_number)) } } }"

definition init_gic_distributor :: "'h hw \<Rightarrow> 'h machine \<Rightarrow> usize \<Rightarrow> ('h machine \<times> usize) option" where
  "init_gic_distributor hw mc h = do {
     node \<leftarrow> search_node_by_compatible (mc_mem mc) h (bytes_of ''arm,gic-v3'') None;
     node \<leftarrow> node;
     reg \<leftarrow> read_reg_property (mc_mem mc) h node 0;
     (base_address, sz) \<leftarrow> reg;
     base \<leftarrow> (case gic_distributor_new base_address sz of Ok b \<Rightarrow> ret b | Err e \<Rightarrow> panic);
     mc \<leftarrow> gic_distributor_init hw mc base;
     ret (mc, base) }"

definition init_gic_redistributor ::
    "'h hw \<Rightarrow> 'h machine \<Rightarrow> sysregs \<Rightarrow> usize \<Rightarrow> ('h machine \<times> sysregs \<times> usize) option" where
  "init_gic_redistributor hw mc s h = do {
     node \<leftarrow> search_node_by_compatible (mc_mem mc) h (bytes_of ''arm,gic-v3'') None;
     node \<leftarrow> node;
     reg \<leftarrow> read_reg_property (mc_mem mc) h node 1;
     (base_address, sz) \<leftarrow> reg;
     (mc, r) \<leftarrow> get_self_redistributor hw mc s base_address sz;
     base \<leftarrow> (case r of Ok b \<Rightarrow> ret b | Err e \<Rightarrow> panic);
     (mc, s) \<leftarrow> gic_redistributor_init hw mc s base;
     ret (mc, s, base) }"

definition enable_serial_port_interrupt ::
    "'h hw \<Rightarrow> 'h machine \<Rightarrow> sysregs \<Rightarrow> usize \<Rightarrow> nat \<Rightarrow> usize \<Rightarrow> 'h machine option" where
  "enable_serial_port_interrupt hw mc s pl011 int_id distributor =
     (if int_id = 0 then ret mc
      else do {
        mc \<leftarrow> distributor_set_group hw mc distributor int_id;
        mc \<leftarrow> distributor_set_priority hw mc distributor int_id 0x00;
        mc \<leftarrow> distributor_set_routing hw mc distributor int_id False (get_mpidr_el1 s);
        mc \<leftarrow> distributor_set_trigger_mode hw mc distributor int_id True;
        mc \<leftarrow> distributor_set_pending hw mc distributor int_id False;
        mc \<leftarrow> distributor_set_enable hw mc distributor int_id True;
        pl011_enable_interrupt hw mc pl011 })"

definition init_generic_timer_global :: "byte_mem \<Rightarrow> usize \<Rightarrow> nat \<Rightarrow> nat option" where
  "init_generic_timer_global m h old = do {
     node \<leftarrow> search_node_by_compatible m h (bytes_of ''arm,armv8-timer'') None;
     node \<leftarrow> node;
     p \<leftarrow> get_property m h node (bytes_of ''interrupts'');
     p \<leftarrow> p;
     let interrupts = read_property_as_u32_array m p;
     i6 \<leftarrow> arr_get interrupts 6;
     if from_be i6 = unat DTB_GIC_PPI then do {
       i7 \<leftarrow> arr_get interrupts 7;
       add32 (unat GIC_PPI_BASE) (from_be i7) }
     else ret old }"

partial_function (option) init_virtio_blk_loop ::
    "'h hw \<Rightarrow> usize \<Rightarrow> 'h machine \<Rightarrow> dtb_node option \<Rightarrow> ('h machine \<times> virtio_blk option) option" where
  "init_virtio_blk_loop hw h mc current = do {
     r \<leftarrow> search_node_by_compatible (mc_mem mc) h (bytes_of ''virtio,mmio'') current;
     (case r of
        None \<Rightarrow> ret (mc, None)
      | Some d \<Rightarrow> do {
          b \<leftarrow> is_node_operational (mc_mem mc) h d;
          if b then do {
            reg \<leftarrow> read_reg_property (mc_mem mc) h d 0;
            (base_address, _) \<leftarrow> reg;
            (mc, r) \<leftarrow> virtio_blk_new hw mc base_address;
            (case r of Ok blk \<Rightarrow> ret (mc, Some blk) | Err e \<Rightarrow> init_virtio_blk_loop hw h mc (Some d)) }
          else init_virtio_blk_loop hw h mc (Some d) }) }"

definition init_virtio_blk :: "'h hw \<Rightarrow> usize \<Rightarrow> 'h machine \<Rightarrow> ('h machine \<times> virtio_blk option) option" where
  "init_virtio_blk hw h mc = init_virtio_blk_loop hw h mc None"

definition PARTITION_TABLE_BASE :: usize where "PARTITION_TABLE_BASE = 0x1BE"

text \<open>The first FAT32 partition of the partition table, if any, as its first sector.\<close>

fun find_partition :: "byte_mem \<Rightarrow> usize \<Rightarrow> nat list \<Rightarrow> usize option" where
  "find_partition m table [] = None"
| "find_partition m table (i # is) =
     (if m (table + 16 * i + 4) = 0x0C then Some (unat (load32 m (table + 16 * i + 8)))
      else find_partition m table is)"

definition init_fat32 :: "'h hw \<Rightarrow> 'h machine \<Rightarrow> usize \<Rightarrow> usize \<Rightarrow> ('h machine \<times> fat32) option" where
  "init_fat32 hw mc mbr bpb_address = do {
     let mc = mc\<lparr>mc_mem := fill_bytes (mc_mem mc) mbr 0 512\<rparr>;
     (mc, r) \<leftarrow> blk_read hw mc mbr 0 512;
     _ \<leftarrow> (case r of Ok u \<Rightarrow> ret u | Err e \<Rightarrow> panic);
     _ \<leftarrow> rust_assert (load16 (mc_mem mc) (mbr + 510) = 0xAA55);
     lba \<leftarrow> find_partition (mc_mem mc) (mbr + PARTITION_TABLE_BASE) [0..<4];
     (mc, r) \<leftarrow> fat32_new hw mc bpb_address lba 512;
     fs \<leftarrow> (case r of Ok fs \<Rightarrow> ret fs | Err e \<Rightarrow> panic);
     _ \<leftarrow> list_files fs (mc_mem mc);
     ret (mc, fs) }"

section \<open>Memory\<close>

text \<open>\<open>setup_memory\<close> with what it reads from the device tree and the ELF header.\<close>

definition setup_memory_from :: "byte_mem \<Rightarrow> memory_allocator \<Rightarrow> usize \<Rightarrow> usize \<Rightarrow> usize \<Rightarrow> memory_allocator option" where
  "setup_memory_from m al dtb_address elf_address stack_pointer = do {
     memory \<leftarrow> search_node m dtb_address (bytes_of ''memory'') None;
     memory \<leftarrow> memory;
     reg \<leftarrow> read_reg_property m dtb_address memory 0;
     (start, sz) \<leftarrow> reg;
     e \<leftarrow> (case elf_header_new m elf_address of Ok e \<Rightarrow> ret e | Err u \<Rightarrow> panic);
     it \<leftarrow> get_program_headers m e;
     segs \<leftarrow> elf_segments m it;
     setup_memory al start sz dtb_address (get_total_size m dtb_address) segs stack_pointer }"

section \<open>Further CPUs\<close>

partial_function (option) launch_loop ::
    "'h hw \<Rightarrow> usize \<Rightarrow> u64 \<Rightarrow> usize \<Rightarrow> usize \<Rightarrow> 'h machine \<Rightarrow> dtb_node option \<Rightarrow> ('h machine \<times> bool) option" where
  "launch_loop hw h current_affinity core_entry stack_address mc cpu_node = do {
     r \<leftarrow> search_node (mc_mem mc) h (bytes_of ''cpu'') cpu_node;
     (case r of
        None \<Rightarrow> ret (mc, False)
      | Some cpu \<Rightarrow> do {
          reg \<leftarrow> read_reg_property (mc_mem mc) h cpu 0;
          (case reg of
             None \<Rightarrow> launch_loop hw h current_affinity core_entry stack_address mc (Some cpu)
           | Some (affinity, _) \<Rightarrow>
               if current_affinity = word_of_nat affinity
               then launch_loop hw h current_affinity core_entry stack_address mc (Some cpu)
               else (case cpu_on hw mc (word_of_nat affinity) (word_of_nat core_entry) (word_of_nat stack_address) of
                   (mc, q) \<Rightarrow> (case q of
                     Ok u \<Rightarrow> ret (mc, True)
                   | Err e \<Rightarrow> launch_loop hw h current_affinity core_entry stack_address mc (Some cpu)))) }) }"

definition launch_cpu :: "'h hw \<Rightarrow> usize \<Rightarrow> usize \<Rightarrow> sysregs \<Rightarrow> 'h machine \<Rightarrow> ('h machine \<times> bool) option" where
  "launch_cpu hw h core_entry s mc = do {
     (al, r) \<leftarrow> allocate_pages (mc_alloc mc) (STACK_SIZE div 2 ^ PAGE_SHIFT) 0;
     a \<leftarrow> (case r of Ok a \<Rightarrow> ret a | Err e \<Rightarrow> panic);
     stack_address \<leftarrow> uadd a STACK_SIZE;
     (mc, started) \<leftarrow> launch_loop hw h (mpidr_to_affinity (get_mpidr_el1 s)) core_entry stack_address
       (mc\<lparr>mc_alloc := al\<rparr>) None;
     if started then ret (mc, True)
     else do {
       t \<leftarrow> usub stack_address STACK_SIZE;
       al \<leftarrow> free_pages (mc_alloc mc) t (STACK_SIZE div 2 ^ PAGE_SHIFT);
       ret (mc\<lparr>mc_alloc := al\<rparr>, False) } }"

section \<open>Start-up\<close>

definition ICC_CTLR1_EL1_EOI_MODE :: u64 where "ICC_CTLR1_EL1_EOI_MODE = push_bit 1 1"

definition setup_exception :: "sysregs \<Rightarrow> usize \<Rightarrow> sysregs" where
  "setup_exception s exception_table =
     (let s = set_vbar_el2 s (word_of_nat exception_table)
      in set_icc_ctlr_el1 s (get_icc_ctlr_el1 s OR ICC_CTLR1_EL1_EOI_MODE))"

text \<open>The addresses that the compiler and the linker choose.\<close>

record layout =
  mbr_address :: usize
  bpb_address :: usize
  exception_table :: usize
  core_entry :: usize

text \<open>The globals of \<open>main.rs\<close> that are set at start-up.\<close>

record 'h hypervisor =
  hv_system :: "'h system"
  hv_fat32 :: fat32
  hv_dtb :: usize
  hv_pl011 :: usize
  hv_pl011_int_id :: nat

datatype 'a main_result = Main_Return nat | Main_Boot 'a

definition with_machine :: "'h system \<Rightarrow> 'h machine \<Rightarrow> 'h system" where
  "with_machine s mc = s\<lparr>sy_machine := mc\<rparr>"

definition init_devices ::
    "'h hw \<Rightarrow> layout \<Rightarrow> 'h system \<Rightarrow> usize \<Rightarrow> usize \<Rightarrow> nat \<Rightarrow> ('h hypervisor \<times> sysregs \<times> u64 list) option" where
  "init_devices hw lay s dtb pl011 pl011_int_id = do {
     let s = s\<lparr>sy_regs := setup_exception (sy_regs s) (exception_table lay)\<rparr>;
     (mc, distributor) \<leftarrow> init_gic_distributor hw (sy_machine s) dtb;
     (mc, regs, redistributor) \<leftarrow> init_gic_redistributor hw mc (sy_regs s) dtb;
     mc \<leftarrow> enable_serial_port_interrupt hw mc regs pl011 pl011_int_id distributor;
     timer \<leftarrow> init_generic_timer_global (mc_mem mc) dtb (generic_timer_physical_int_id s);
     (mc, blk) \<leftarrow> init_virtio_blk hw dtb mc;
     blk \<leftarrow> blk;
     let mc = mc\<lparr>mc_blk := blk\<rparr>;
     (mc, fs) \<leftarrow> init_fat32 hw mc (mbr_address lay) (bpb_address lay);
     (s, boot_address, argument) \<leftarrow>
       create_vm hw fs (s\<lparr>sy_machine := mc, sy_regs := regs, generic_timer_physical_int_id := timer\<rparr>) redistributor;
     let (mc, version) = check_psci_version hw (sy_machine s);
     _ \<leftarrow> (case version of Ok v \<Rightarrow> ret v | Err e \<Rightarrow> panic);
     let s = with_machine s mc;
     let (regs, xs) = boot_vm (sy_regs s) boot_address argument;
     ret (\<lparr>hv_system = s\<lparr>sy_regs := regs\<rparr>, hv_fat32 = fs, hv_dtb = dtb, hv_pl011 = pl011,
       hv_pl011_int_id = pl011_int_id\<rparr>, regs, xs) }"

definition rust_main ::
    "'h hw \<Rightarrow> layout \<Rightarrow> 'h system \<Rightarrow> usize \<Rightarrow> u8 list list \<Rightarrow> ('h hypervisor \<times> sysregs \<times> u64 list) main_result option" where
  "rust_main hw lay s stack_pointer args =
     (case args of
        [arg_0, arg_1] \<Rightarrow>
          if \<not> utf8_valid arg_0 then ret (Main_Return 2)
          else (case str_to_usize arg_0 of None \<Rightarrow> ret (Main_Return 3) | Some dtb_address \<Rightarrow>
            (case dtb_new (mc_mem (sy_machine s)) dtb_address of Err e \<Rightarrow> ret (Main_Return 4) | Ok dtb \<Rightarrow> do {
              sp \<leftarrow> init_serial_port (mc_mem (sy_machine s)) dtb;
              (case sp of Err e \<Rightarrow> ret (Main_Return e) | Ok (pl011, pl011_int_id) \<Rightarrow> do {
                 _ \<leftarrow> rust_assert (drop_bit 2 (get_currentel (sy_regs s)) = 2);
                 _ \<leftarrow> rust_assert (utf8_valid arg_1);
                 elf_address \<leftarrow> str_to_usize arg_1;
                 al \<leftarrow> setup_memory_from (mc_mem (sy_machine s)) (mc_alloc (sy_machine s)) dtb elf_address stack_pointer;
                 r \<leftarrow> init_devices hw lay (with_machine s ((sy_machine s)\<lparr>mc_alloc := al\<rparr>)) dtb pl011 pl011_int_id;
                 ret (Main_Boot r) }) }))
      | _ \<Rightarrow> ret (Main_Return 1))"

definition core_main :: "'h hw \<Rightarrow> layout \<Rightarrow> 'h hypervisor \<Rightarrow> ('h hypervisor \<times> u64 list) option" where
  "core_main hw lay hv = do {
     let s = hv_system hv;
     _ \<leftarrow> rust_assert (drop_bit 2 (get_currentel (sy_regs s)) = 2);
     let regs = setup_exception (sy_regs s) (exception_table lay);
     (mc, regs, redistributor) \<leftarrow> init_gic_redistributor hw (sy_machine s) regs (hv_dtb hv);
     (s, boot_address, argument) \<leftarrow> create_vm hw (hv_fat32 hv) (s\<lparr>sy_machine := mc, sy_regs := regs\<rparr>) redistributor;
     let (regs, xs) = boot_vm (sy_regs s) boot_address argument;
     ret (hv\<lparr>hv_system := s\<lparr>sy_regs := regs\<rparr>\<rparr>, xs) }"

end
