(* ===== verification/Console.thy ===== *)
theory Console
  imports Boot
begin

text \<open>
  The hypervisor's console (\<open>src/src/console.rs\<close>) and the routing of received characters
  (\<open>handle_input\<close> of \<open>src/src/main.rs\<close>). \<open>host\<close> adds the console and the flag
  \<open>IS_CONSOLE_ACTIVE\<close> to the state of the hypervisor. Printing is not modelled.
\<close>

definition BUFFER_SIZE :: usize where "BUFFER_SIZE = 64"
definition CONSOLE_SWITCH_KEY :: u8 where "CONSOLE_SWITCH_KEY = 0x13"

record console =
  con_buffer :: "u8 list"
  con_buffer_pointer :: usize
  con_ignore_lf :: bool

record 'h host =
  host_hv :: "'h hypervisor"
  host_console :: console
  is_console_active :: bool

definition console_new :: console where
  "console_new = \<lparr>con_buffer = replicate BUFFER_SIZE 0, con_buffer_pointer = 0, con_ignore_lf = False\<rparr>"

definition reset_buffer :: "'h host \<Rightarrow> 'h host" where
  "reset_buffer st = st\<lparr>host_console := (host_console st)\<lparr>con_buffer_pointer := 0\<rparr>\<rparr>"

section \<open>Words\<close>

text \<open>The library's \<open>split_whitespace\<close>: the length of the white space character at the head of a
  UTF-8 string (0 when there is none), and the words between white space.\<close>

fun white_space :: "u8 list \<Rightarrow> nat" where
  "white_space (a # bs) =
     (if a = 0x20 \<or> 0x09 \<le> a \<and> a \<le> 0x0D then 1
      else case bs of
        b # cs \<Rightarrow>
          if a = 0xC2 \<and> (b = 0x85 \<or> b = 0xA0) then 2
          else (case cs of
            c # ds \<Rightarrow>
              if a = 0xE1 \<and> b = 0x9A \<and> c = 0x80 \<or>
                 a = 0xE2 \<and> b = 0x80 \<and> (0x80 \<le> c \<and> c \<le> 0x8A \<or> c = 0xA8 \<or> c = 0xA9 \<or> c = 0xAF) \<or>
                 a = 0xE2 \<and> b = 0x81 \<and> c = 0x9F \<or> a = 0xE3 \<and> b = 0x80 \<and> c = 0x80
              then 3 else 0
          | [] \<Rightarrow> 0)
      | [] \<Rightarrow> 0)"
| "white_space [] = 0"

function split_words :: "u8 list \<Rightarrow> u8 list \<Rightarrow> u8 list list" where
  "split_words cur [] = (if cur = [] then [] else [cur])"
| "split_words cur (b # bs) =
     (case white_space (b # bs) of
        0 \<Rightarrow> split_words (cur @ [b]) bs
      | Suc n \<Rightarrow> (if cur = [] then split_words [] (drop n bs) else cur # split_words [] (drop n bs)))"
  by pat_completeness auto
termination
  by (relation "measure (\<lambda>(cur, bs). length bs)") auto

definition split_whitespace :: "u8 list \<Rightarrow> u8 list list" where
  "split_whitespace s = split_words [] s"

section \<open>Commands\<close>

text \<open>A command returns whether the console stays active.\<close>

definition boot_command :: "'h hw \<Rightarrow> layout \<Rightarrow> 'h hypervisor \<Rightarrow> ('h hypervisor \<times> bool) option" where
  "boot_command hw lay hv = do {
     (mc, started) \<leftarrow> launch_cpu hw (hv_dtb hv) (core_entry lay) (sy_regs (hv_system hv)) (sy_machine (hv_system hv));
     ret (hv\<lparr>hv_system := with_machine (hv_system hv) mc\<rparr>, \<not> started) }"

definition switch_vm :: "'h hypervisor \<Rightarrow> u8 list list \<Rightarrow> 'h hypervisor \<times> bool" where
  "switch_vm hv args =
     (case args of
        [] \<Rightarrow> (hv, True)
      | arg # _ \<Rightarrow>
          (case str_to_usize arg of
             None \<Rightarrow> (hv, True)
           | Some i \<Rightarrow>
               (let (s, switched) = switch_active_vm (hv_system hv) i in (hv\<lparr>hv_system := s\<rparr>, \<not> switched))))"

definition run_command ::
    "'h hw \<Rightarrow> layout \<Rightarrow> 'h hypervisor \<Rightarrow> u8 list \<Rightarrow> u8 list list \<Rightarrow> ('h hypervisor \<times> bool option) option" where
  "run_command hw lay hv command args =
     (if command = bytes_of ''boot'' then do { (hv, r) \<leftarrow> boot_command hw lay hv; ret (hv, Some r) }
      else if command = bytes_of ''switch'' then (let (hv, r) = switch_vm hv args in ret (hv, Some r))
      else if command = bytes_of ''echo'' then ret (hv, Some True)
      else if command = bytes_of ''poweroff'' then system_off hw (sy_machine (hv_system hv))
      else ret (hv, None))"

definition exec_command :: "'h hw \<Rightarrow> layout \<Rightarrow> 'h host \<Rightarrow> 'h host option" where
  "exec_command hw lay st = do {
     let con = host_console st;
     if con_buffer_pointer con = 0 then ret (reset_buffer st)
     else do {
       _ \<leftarrow> rust_assert (con_buffer_pointer con \<le> length (con_buffer con));
       let input = take (con_buffer_pointer con) (con_buffer con);
       if \<not> utf8_valid input then ret (reset_buffer st)
       else (case split_whitespace input of
           [] \<Rightarrow> ret (reset_buffer st)
         | command # args \<Rightarrow> do {
             (hv, r) \<leftarrow> run_command hw lay (host_hv st) command args;
             let st = st\<lparr>host_hv := hv\<rparr>;
             (case r of
                Some True \<Rightarrow> ret (reset_buffer st)
              | Some False \<Rightarrow> ret (st\<lparr>is_console_active := \<not> is_console_active st\<rparr>)
              | None \<Rightarrow> ret (reset_buffer st)) }) } }"

definition is_ascii_control :: "u8 \<Rightarrow> bool" where
  "is_ascii_control c \<longleftrightarrow> c \<le> 0x1F \<or> c = 0x7F"

definition console_write :: "'h hw \<Rightarrow> layout \<Rightarrow> 'h host \<Rightarrow> u8 \<Rightarrow> 'h host option" where
  "console_write hw lay st data =
     (let con = host_console st in
      if data = 0x0D \<or> data = 0x0A \<and> \<not> con_ignore_lf con
      then exec_command hw lay (st\<lparr>host_console := con\<lparr>con_ignore_lf := (data = 0x0D)\<rparr>\<rparr>)
      else if is_ascii_control data \<or> con_buffer_pointer con = BUFFER_SIZE then ret st
      else do {
        b \<leftarrow> arr_set (con_buffer con) (con_buffer_pointer con) data;
        ret (st\<lparr>host_console := con\<lparr>con_buffer := b, con_buffer_pointer := con_buffer_pointer con + 1\<rparr>\<rparr>) })"

section \<open>Routing of characters\<close>

text \<open>One received character other than 0.\<close>

definition route_char :: "'h hw \<Rightarrow> layout \<Rightarrow> 'h host \<Rightarrow> u8 \<Rightarrow> 'h host option" where
  "route_char hw lay st c =
     (if c = CONSOLE_SWITCH_KEY then
        (let old = is_console_active st; st = st\<lparr>is_console_active := \<not> old\<rparr>
         in ret (if old then st else reset_buffer st))
      else if is_console_active st then console_write hw lay st c
      else do {
        s \<leftarrow> input_uart (hv_system (host_hv st)) c;
        ret (st\<lparr>host_hv := (host_hv st)\<lparr>hv_system := s\<rparr>\<rparr>) })"

definition host_with_machine :: "'h host \<Rightarrow> 'h machine \<Rightarrow> 'h host" where
  "host_with_machine st mc = st\<lparr>host_hv := (host_hv st)\<lparr>hv_system := with_machine (hv_system (host_hv st)) mc\<rparr>\<rparr>"

partial_function (option) handle_input :: "'h hw \<Rightarrow> layout \<Rightarrow> 'h host \<Rightarrow> 'h host option" where
  "handle_input hw lay st = do {
     (mc, r) \<leftarrow> getc hw (hv_pl011 (host_hv st)) (sy_machine (hv_system (host_hv st)));
     let st = host_with_machine st mc;
     (case r of
        Err e \<Rightarrow> ret st
      | Ok x \<Rightarrow>
          (let c = (case x of Some c \<Rightarrow> c | None \<Rightarrow> 0) in
           if c = 0 then ret st
           else do { st \<leftarrow> route_char hw lay st c; handle_input hw lay st })) }"

end
