(* ===== verification/Exception.thy ===== *)
theory Exception
  imports Console
begin

text \<open>
  Exceptions (\<open>src/src/exception.rs\<close>). The saved registers \<open>x0\<close> to \<open>x30\<close> and the slot behind
  them, which is stored as zero and thrown away, are a list of 32 values: register number 31
  in a data abort names that slot.
\<close>

section \<open>Syndrome\<close>

definition ESR_EL2_EC_BITS_OFFSET :: nat where "ESR_EL2_EC_BITS_OFFSET = 26"
definition ESR_EL2_EC :: u64 where "ESR_EL2_EC = push_bit ESR_EL2_EC_BITS_OFFSET 0b111111"
definition ESR_EL2_EC_DATA_ABORT :: u64 where "ESR_EL2_EC_DATA_ABORT = push_bit 26 0b100100"
definition ESR_EL2_ISS_ISV :: u64 where "ESR_EL2_ISS_ISV = push_bit 24 1"
definition ESR_EL2_ISS_SAS_BITS_OFFSET :: nat where "ESR_EL2_ISS_SAS_BITS_OFFSET = 22"
definition ESR_EL2_ISS_SAS :: u64 where "ESR_EL2_ISS_SAS = push_bit ESR_EL2_ISS_SAS_BITS_OFFSET 0b11"
definition ESR_EL2_ISS_SRT_BITS_OFFSET :: nat where "ESR_EL2_ISS_SRT_BITS_OFFSET = 16"
definition ESR_EL2_ISS_SRT :: u64 where "ESR_EL2_ISS_SRT = push_bit ESR_EL2_ISS_SRT_BITS_OFFSET 0b11111"
definition ESR_EL2_ISS_SF :: u64 where "ESR_EL2_ISS_SF = push_bit 15 1"
definition ESR_EL2_ISS_WNR :: u64 where "ESR_EL2_ISS_WNR = push_bit 6 1"
definition HPFAR_EL2_FIPA_BITS_OFFSET :: nat where "HPFAR_EL2_FIPA_BITS_OFFSET = 4"
definition HPFAR_EL2_FIPA :: u64 where "HPFAR_EL2_FIPA = (push_bit 44 1 - 1) AND NOT (push_bit 4 1 - 1)"

text \<open>The fields of the syndrome that \<open>data_abort_handler\<close> decodes.\<close>

definition access_width_of :: "u64 \<Rightarrow> nat" where
  "access_width_of esr =
     (let v = drop_bit ESR_EL2_ISS_SAS_BITS_OFFSET (esr AND ESR_EL2_ISS_SAS)
      in if v = 0b00 then 8 else if v = 0b01 then 16 else if v = 0b10 then 32 else 64)"

definition register_number_of :: "u64 \<Rightarrow> nat" where
  "register_number_of esr = unat (drop_bit ESR_EL2_ISS_SRT_BITS_OFFSET (esr AND ESR_EL2_ISS_SRT))"

definition fault_address :: "u64 \<Rightarrow> u64 \<Rightarrow> u64" where
  "fault_address hpfar far =
     push_bit PAGE_SHIFT (drop_bit HPFAR_EL2_FIPA_BITS_OFFSET (hpfar AND HPFAR_EL2_FIPA)) OR
     (far AND (push_bit PAGE_SHIFT 1 - 1))"

section \<open>Handlers\<close>

definition data_abort_handler ::
    "'h hw \<Rightarrow> fat32 \<Rightarrow> 'h system \<Rightarrow> u64 list \<Rightarrow> u64 \<Rightarrow> ('h system \<times> u64 list) option" where
  "data_abort_handler hw fs s registers esr =
     (if esr AND ESR_EL2_ISS_ISV = 0 then panic
      else do {
        let is_64bit_register = (esr AND ESR_EL2_ISS_SF \<noteq> 0);
        let access_width = access_width_of esr;
        let is_write_access = (esr AND ESR_EL2_ISS_WNR \<noteq> 0);
        let register_number = register_number_of esr;
        register \<leftarrow> arr_get registers register_number;
        let address = unat (fault_address (get_hpfar_el2 (sy_regs s)) (get_far_el2 (sy_regs s)));
        (s, registers) \<leftarrow>
          (if is_write_access then do {
             let register_value = (if is_64bit_register then register else register AND 0xFFFFFFFF);
             vm \<leftarrow> get_current_vm s;
             ((vm, mc, c), r) \<leftarrow>
               handle_mmio_write hw fs vm (sy_machine s) (sr_cpu (sy_regs s)) address access_width register_value;
             (case r of
                Ok u \<Rightarrow> ret (put_vm (s\<lparr>sy_machine := mc, sy_regs := (sy_regs s)\<lparr>sr_cpu := c\<rparr>\<rparr>) vm, registers)
              | Err e \<Rightarrow> panic) }
           else do {
             vm \<leftarrow> get_current_vm s;
             (vm, r) \<leftarrow> handle_mmio_read vm address access_width;
             (case r of
                Ok v \<Rightarrow> ret (put_vm s vm, registers[register_number := v])
              | Err e \<Rightarrow> panic) });
        regs \<leftarrow> advance_elr_el2 (sy_regs s);
        ret (s\<lparr>sy_regs := regs\<rparr>, registers) })"

definition synchronous_handler ::
    "'h hw \<Rightarrow> fat32 \<Rightarrow> 'h system \<Rightarrow> u64 list \<Rightarrow> ('h system \<times> u64 list) option" where
  "synchronous_handler hw fs s registers =
     (let esr = get_esr_el2 (sy_regs s); ec = esr AND ESR_EL2_EC in
      if ec = ESR_EL2_EC_DATA_ABORT then data_abort_handler hw fs s registers esr else panic)"

text \<open>A handler that works on the current VM's interrupt controller.\<close>

definition with_current_gic ::
    "'h system \<Rightarrow> (cpu \<Rightarrow> gicd \<Rightarrow> gicr \<Rightarrow> (cpu \<times> gicd \<times> gicr) option) \<Rightarrow> 'h system option" where
  "with_current_gic s f = do {
     vm \<leftarrow> get_current_vm s;
     (c, d, g) \<leftarrow> f (sr_cpu (sy_regs s)) (gic_distributor_mmio vm) (gic_redistributor_mmio vm);
     ret (put_vm (s\<lparr>sy_regs := (sy_regs s)\<lparr>sr_cpu := c\<rparr>\<rparr>)
       (vm\<lparr>gic_distributor_mmio := d, gic_redistributor_mmio := g\<rparr>)) }"

text \<open>The maintenance handler looks up the VM only when a list register has ended.\<close>

definition handle_maintenance :: "'h system \<Rightarrow> 'h system option" where
  "handle_maintenance s =
     (let c = sr_cpu (sy_regs s) in
      if take_bit (supported_lrn c) (ich_eisr_el2 c) = 0 then ret s
      else with_current_gic s maintenance_interrupt_handler)"

definition host_update_system :: "'h host \<Rightarrow> 'h system \<Rightarrow> 'h host" where
  "host_update_system st s = st\<lparr>host_hv := (host_hv st)\<lparr>hv_system := s\<rparr>\<rparr>"

abbreviation host_system :: "'h host \<Rightarrow> 'h system" where
  "host_system st \<equiv> hv_system (host_hv st)"

definition irq_handler :: "'h hw \<Rightarrow> layout \<Rightarrow> 'h host \<Rightarrow> 'h host option" where
  "irq_handler hw lay st = do {
     let (regs, interrupt_number) = get_acknowledge (sy_regs (host_system st));
     let st = host_update_system st ((host_system st)\<lparr>sy_regs := regs\<rparr>);
     let n = unat interrupt_number;
     (st, deactivate) \<leftarrow>
       (if n = hv_pl011_int_id (host_hv st) then do { st \<leftarrow> handle_input hw lay st; ret (st, True) }
        else if n = MAINTENANCE_INTERRUPT_INTID then do {
          s \<leftarrow> handle_maintenance (host_system st);
          ret (host_update_system st s, True) }
        else if n = INJECT_INTERRUPT_INT_ID then do {
          s \<leftarrow> with_current_gic (host_system st) (\<lambda>c d g. ret (inject_interrupt_handler c d g));
          ret (host_update_system st s, True) }
        else if n = generic_timer_physical_int_id (host_system st) then do {
          s \<leftarrow> with_current_gic (host_system st) (\<lambda>c d g. do {
            (c, g) \<leftarrow> generic_timer_interrupt_handler c g (generic_timer_physical_int_id (host_system st));
            ret (c, d, g) });
          ret (host_update_system st s, False) }
        else ret (st, True));
     let regs = drop_priority (sy_regs (host_system st)) interrupt_number;
     let regs = (if deactivate then gic_deactivate regs interrupt_number else regs);
     ret (host_update_system st ((host_system st)\<lparr>sy_regs := regs\<rparr>)) }"

end
