(* ===== verification/Vm_Invariant.thy ===== *)
theory Vm_Invariant
  imports Exception Gic_Spec
begin

text \<open>
  Well-formed virtual machines and the system that holds them: what the emulated devices and the
  exception handlers keep, and that an access of one guest leaves the others alone.
\<close>

section \<open>The distributor\<close>

lemma gicd_trigger_loop_wf:
  "\<lbrakk>gicd_trigger_loop ready c d i v = Some (c', d'); gicd_wf d\<rbrakk> \<Longrightarrow> gicd_step_ok c d c' d'"
proof (induction ready c d i v rule: gicd_trigger_loop.induct)
  case (1 ready c d i v)
  show ?case
  proof (cases "v = 0")
    case True
    with "1.prems" show ?thesis by (simp add: gicd_trigger_loop.simps [of ready c d i 0] gicd_step_ok_refl)
  next
    case False
    then obtain b c1 d1 where b: "(if v AND 1 \<noteq> 0 then ready d i else Some False) = Some b"
      and cd: "(if b then gicd_trigger_interrupt c d i None else Some (c, d)) = Some (c1, d1)"
      and l: "gicd_trigger_loop ready c1 d1 (i + 1) (drop_bit 1 v) = Some (c', d')"
      using "1.prems"(1) by (subst (asm) gicd_trigger_loop.simps) (auto simp: bind_eq_Some_conv)
    have s: "gicd_step_ok c d c1 d1"
      using cd gicd_trigger_step(1) [OF "1.prems"(2), of c i None c1 d1] by (auto simp: gicd_step_ok_refl split: if_splits)
    from "1.IH" [OF False b cd refl l] gicd_step_ok_wf [OF s] "1.prems"(2) s show ?thesis
      by (auto intro: gicd_step_ok_trans)
  qed
qed

lemma gicd_write_wf:
  assumes wf: "gicd_wf d" and w: "gicd_write c d off w v = Some ((c', d'), q)"
  shows "gicd_wf d' \<and> cpu_same_id c c'"
proof -
  note u = wf [unfolded gicd_wf_def] gicd_wf_def
  have loop: "gicd_wf d' \<and> cpu_same_id c c'"
    if "gicd_wf e" "gicd_trigger_loop ready c e i v = Some cd" "cd = (c', d')" for ready e i cd
    using that gicd_trigger_loop_wf [of ready c e i v c' d'] gicd_step_ok_wf [of c e c' d'] by (simp add: gicd_step_ok_def)
  show ?thesis
    using w unfolding gicd_write_def Let_def
    apply (elim option_bindE if_Some_eqE conjE)
    subgoal by (clarsimp simp: u)
    subgoal by (clarsimp simp: u checked_simps)
    subgoal by (erule loop [rotated]) (use u in \<open>auto dest!: modify_or_Some\<close>)
    subgoal by (clarsimp simp: u dest!: modify_and_not_Some)
    subgoal by (erule loop [rotated]) (use u in \<open>auto dest!: modify_or_Some\<close>)
    subgoal by (clarsimp simp: u dest!: modify_and_not_Some)
    subgoal by (clarsimp simp: u dest!: modify_or_Some)
    subgoal by (clarsimp simp: u dest!: modify_and_not_Some)
    subgoal by (clarsimp simp: u dest!: write_priority_length)
    subgoal by (clarsimp simp: u checked_simps)
    subgoal by (clarsimp simp: u checked_simps)
    subgoal by (clarsimp simp: u checked_simps)
    subgoal using wf by clarsimp
    done
qed

section \<open>Virtual machines\<close>

text \<open>What never changes in a VM after its creation, and the shape of its devices.\<close>

definition same_vm :: "vm \<Rightarrow> vm \<Rightarrow> bool" where
  "same_vm v v' \<longleftrightarrow> vm_id v' = vm_id v \<and> ram_virtual_base_address v' = ram_virtual_base_address v \<and>
     ram_physical_base_address v' = ram_physical_base_address v \<and> ram_size v' = ram_size v \<and>
     mmio_handlers v' = mmio_handlers v"

definition gicr_ok :: "gicr \<Rightarrow> bool" where
  "gicr_ok r \<longleftrightarrow> length (r_priority r) = 8 \<and> length (r_configuration r) = 2 \<and> aff0 (r_affinity r) < 16"

definition vm_wf :: "vm \<Rightarrow> bool" where
  "vm_wf v \<longleftrightarrow> mmio_handlers v = vm_handlers \<and> ram_virtual_base_address v = RAM_VIRTUAL_BASE \<and> ram_size v = RAM_SIZE \<and>
     ram_physical_base_address v + RAM_SIZE < usize_range \<and> gicd_wf (gic_distributor_mmio v) \<and>
     gicr_ok (gic_redistributor_mmio v) \<and> pl011_ok (pl011_mmio v)"

lemma gicr_inv_iff: "gicr_inv (c, r) \<longleftrightarrow> cpu_ok c \<and> gicr_ok r"
  by (auto simp: gicr_inv_def gicr_ok_def)

lemma same_vm_refl [simp]: "same_vm v v"
  by (simp add: same_vm_def)

lemma device_read_wf:
  assumes "vm_wf v" "device_read v h off w = Some (v', r)"
  shows "vm_wf v' \<and> same_vm v v'"
proof (cases h)
  case Pl011_Handler
  with assms(2) obtain u where u: "pl011_read (pl011_mmio v) off w = Some (u, r)" "v' = v\<lparr>pl011_mmio := u\<rparr>"
    by (auto simp: device_read_def bind_eq_Some_conv)
  moreover have "pl011_ok u" using uart.read_ok [of "pl011_mmio v" off w] assms(1) u(1) by (auto simp: vm_wf_def)
  ultimately show ?thesis using assms(1) by (simp add: vm_wf_def same_vm_def)
qed (use assms in \<open>auto simp: device_read_def bind_eq_Some_conv\<close>)

lemma virtio_write_gic:
  assumes "virtio_mmio_write hw fs vm v mc c d off w x = Some ((v', mc', c', d'), r)" "gicd_wf d"
  shows "gicd_wf d' \<and> cpu_same_id c c'"
proof -
  have t: "gicd_wf d' \<and> cpu_same_id c c'" if "gicd_trigger_interrupt c d i None = Some (c', d')" for i
    using gicd_trigger_step(1) [OF assms(2) that] gicd_step_ok_wf [of c d c' d'] assms(2) by (simp add: gicd_step_ok_def)
  show ?thesis using assms unfolding virtio_mmio_write_def virtio_operation_def
    by (elim if_Some_eqE option_bindE) (auto simp: bind_eq_Some_conv Let_def dest: t split: option.splits if_splits)
qed

lemma device_write_wf:
  assumes "vm_wf v" "cpu_ok c" "device_write hw fs v mc c h off w x = Some ((v', mc', c'), r)"
  shows "vm_wf v' \<and> same_vm v v' \<and> cpu_ok c'"
proof (cases h)
  case Pl011_Handler
  with assms(3) obtain u where u: "pl011_write (pl011_mmio v) off w x = Some (u, r)" "v' = v\<lparr>pl011_mmio := u\<rparr>" "c' = c"
    by (auto simp: device_write_def bind_eq_Some_conv)
  moreover have "pl011_ok u" using uart.write_ok [of "pl011_mmio v" off w x] assms(1) u(1) by (auto simp: vm_wf_def)
  ultimately show ?thesis using assms(1,2) by (simp add: vm_wf_def same_vm_def)
next
  case Virtio_Blk_Handler
  with assms(3) obtain b d where "virtio_mmio_write hw fs v (virtio_blk_mmio v) mc c (gic_distributor_mmio v) off w x = Some ((b, mc', c', d), r)"
    "v' = v\<lparr>virtio_blk_mmio := b, gic_distributor_mmio := d\<rparr>"
    by (auto simp: device_write_def bind_eq_Some_conv)
  with virtio_write_gic [OF this(1)] assms(1,2) show ?thesis by (simp add: vm_wf_def same_vm_def cpu_same_id_def)
next
  case Gicd_Handler
  with assms(3) obtain d where "gicd_write c (gic_distributor_mmio v) off w x = Some ((c', d), r)" "v' = v\<lparr>gic_distributor_mmio := d\<rparr>"
    by (auto simp: device_write_def bind_eq_Some_conv)
  with gicd_write_wf [OF _ this(1)] assms(1,2) show ?thesis by (simp add: vm_wf_def same_vm_def cpu_same_id_def)
next
  case Gicr_Handler
  with assms(3) obtain g where g: "gicr_write c (gic_redistributor_mmio v) off w x = Some ((c', g), r)" "v' = v\<lparr>gic_redistributor_mmio := g\<rparr>"
    by (auto simp: device_write_def bind_eq_Some_conv)
  have "gicr_inv (c', g)"
    using gicr_write_total [of c "gic_redistributor_mmio v" off w x] g(1) assms(1,2) by (auto simp: gicr_inv_iff vm_wf_def)
  with g assms(1) show ?thesis by (simp add: vm_wf_def same_vm_def gicr_inv_iff)
qed

text \<open>Only the notification of the block device reaches memory and disk.\<close>

lemma device_write_machine:
  assumes "device_write hw fs v mc c h off w x = Some ((v', mc', c'), r)"
  shows "mc' = mc \<or> h = Virtio_Blk_Handler \<and> off = VIRTIO_MMIO_QUEUE_NOTIFY"
proof (cases h)
  case Virtio_Blk_Handler
  with assms obtain b d where "virtio_mmio_write hw fs v (virtio_blk_mmio v) mc c (gic_distributor_mmio v) off w x = Some ((b, mc', c', d), r)"
    by (auto simp: device_write_def bind_eq_Some_conv)
  then have "mc' = mc" if "off \<noteq> VIRTIO_MMIO_QUEUE_NOTIFY"
    using that unfolding virtio_mmio_write_def
    by (elim if_Some_eqE option_bindE) (auto simp: bind_eq_Some_conv split: option.splits if_splits)
  then show ?thesis using Virtio_Blk_Handler by blast
qed (use assms in \<open>auto simp: device_write_def bind_eq_Some_conv\<close>)

text \<open>The window of a guest address: the base and the device.\<close>

definition window_of :: "usize \<Rightarrow> (usize \<times> mmio_handler) option" where
  "window_of a =
     (if 0x9000000 \<le> a \<and> a < 0x9001000 then Some (0x9000000, Pl011_Handler)
      else if 0xa000000 \<le> a \<and> a < 0xa000200 then Some (0xa000000, Virtio_Blk_Handler)
      else if 0x8000000 \<le> a \<and> a < 0x8010000 then Some (0x8000000, Gicd_Handler)
      else if 0x80a0000 \<le> a \<and> a < 0x80c0000 then Some (0x80a0000, Gicr_Handler)
      else None)"

definition block_notify_address :: usize where
  "block_notify_address = 0xa000000 + VIRTIO_MMIO_QUEUE_NOTIFY"

lemma window_notify:
  assumes "window_of a = Some (base, Virtio_Blk_Handler)" "a - base = VIRTIO_MMIO_QUEUE_NOTIFY"
  shows "a = block_notify_address"
  using assms by (auto simp: window_of_def block_notify_address_def split: if_splits)

lemma find_vm_handlers:
  "\<exists>e. find_mmio_entry vm_handlers a = Some e \<and> map_option (\<lambda>e. (me_base_address e, me_handler e)) e = window_of a"
  by (simp add: vm_handlers_def mmio_entry_new_def uadd_def usize_range_def GICD_MMIO_SIZE_def GICR_MMIO_SIZE_def window_of_def)

lemma handle_mmio_read_eq:
  assumes "vm_wf v"
  shows "handle_mmio_read v a w =
    (case window_of a of Some (base, h) \<Rightarrow> device_read v h (a - base) w | None \<Rightarrow> Some (v, Err ()))"
  using find_vm_handlers [of a] assms by (auto simp: handle_mmio_read_def vm_wf_def split: option.splits)

lemma handle_mmio_write_eq:
  assumes "vm_wf v"
  shows "handle_mmio_write hw fs v mc c a w x =
    (case window_of a of Some (base, h) \<Rightarrow> device_write hw fs v mc c h (a - base) w x | None \<Rightarrow> Some ((v, mc, c), Err ()))"
  using find_vm_handlers [of a] assms by (auto simp: handle_mmio_write_def vm_wf_def split: option.splits)

section \<open>The system\<close>

definition system_wf :: "'h system \<Rightarrow> bool" where
  "system_wf s \<longleftrightarrow> distinct (map vm_id (vm_list s)) \<and> list_all vm_wf (vm_list s) \<and> cpu_ok (sr_cpu (sy_regs s))"

lemma find_vm_Some: "find_vm vms i = Some v \<Longrightarrow> v \<in> set vms \<and> vm_id v = i"
  by (auto simp: find_vm_def find_Some_iff)

lemma find_vm_distinct: "distinct (map vm_id vms) \<Longrightarrow> v \<in> set vms \<Longrightarrow> find_vm vms (vm_id v) = Some v"
  by (induction vms) (auto simp: find_vm_def)

lemma put_vm_ids: "map vm_id (vm_list (put_vm s v)) = map vm_id (vm_list s)"
  by (simp add: put_vm_def)

lemma put_vm_other: "i \<noteq> vm_id v \<Longrightarrow> find_vm (vm_list (put_vm s v)) i = find_vm (vm_list s) i"
proof -
  have "find_vm (map (\<lambda>x. if vm_id x = vm_id v then v else x) vms) i = find_vm vms i" if "i \<noteq> vm_id v" for vms
    using that by (induction vms) (auto simp: find_vm_def)
  then show "i \<noteq> vm_id v \<Longrightarrow> find_vm (vm_list (put_vm s v)) i = find_vm (vm_list s) i" by (simp add: put_vm_def)
qed

lemma put_vm_same: "find_vm (vm_list s) (vm_id v) = Some u \<Longrightarrow> find_vm (vm_list (put_vm s v)) (vm_id v) = Some v"
proof -
  have "find_vm vms (vm_id v) = Some u \<Longrightarrow> find_vm (map (\<lambda>x. if vm_id x = vm_id v then v else x) vms) (vm_id v) = Some v" for vms
    by (induction vms) (auto simp: find_vm_def)
  then show "find_vm (vm_list s) (vm_id v) = Some u \<Longrightarrow> find_vm (vm_list (put_vm s v)) (vm_id v) = Some v" by (simp add: put_vm_def)
qed

lemma put_vm_wf:
  assumes "system_wf s" "vm_wf v" "cpu_ok (sr_cpu r)"
  shows "system_wf (put_vm (s\<lparr>sy_machine := mc, sy_regs := r\<rparr>) v)"
  using assms by (auto simp: system_wf_def put_vm_def list_all_iff comp_def if_distrib cong: if_cong)

section \<open>Data aborts\<close>

definition abort_address :: "'h system \<Rightarrow> usize" where
  "abort_address s = unat (fault_address (get_hpfar_el2 (sy_regs s)) (get_far_el2 (sy_regs s)))"

definition stored_value :: "u64 list \<Rightarrow> u64 \<Rightarrow> u64" where
  "stored_value registers esr =
     (let x = registers ! register_number_of esr in if esr AND ESR_EL2_ISS_SF \<noteq> 0 then x else x AND 0xFFFFFFFF)"

text \<open>The state after a handled access: the VM put back, the machine, the CPU, and \<open>ELR_EL2\<close> behind the instruction.\<close>

definition after_abort :: "'h system \<Rightarrow> vm \<Rightarrow> 'h machine \<Rightarrow> cpu \<Rightarrow> 'h system" where
  "after_abort s v mc c =
     put_vm (s\<lparr>sy_machine := mc, sy_regs := (sy_regs s)\<lparr>sr_cpu := c, elr_el2 := elr_el2 (sy_regs s) + 4\<rparr>\<rparr>) v"

lemma register_number_less: "register_number_of esr < 32"
proof -
  have m: "(31 :: u64) = mask 5" by (simp add: mask_eq_exp_minus_1)
  have "drop_bit 16 (esr AND push_bit 16 31) = take_bit 5 (drop_bit 16 esr)"
    unfolding m by (rule bit_word_eqI) (auto simp: bit_simps)
  then have "unat (drop_bit 16 (esr AND push_bit 16 31)) = take_bit 5 (unat (drop_bit 16 esr))"
    by (simp only: unsigned_take_bit_eq)
  then have "unat (drop_bit 16 (esr AND push_bit 16 31)) < 2 ^ 5" by (simp only: take_bit_nat_less_exp)
  then show ?thesis by (simp add: register_number_of_def ESR_EL2_ISS_SRT_BITS_OFFSET_def ESR_EL2_ISS_SRT_def)
qed

lemma advance_elr:
  "advance_elr_el2 r = (if unat (elr_el2 r) + 4 < usize_range then Some (r\<lparr>elr_el2 := elr_el2 r + 4\<rparr>) else None)"
  by (simp add: advance_elr_el2_def uadd_def get_elr_el2_def set_elr_el2_def add.commute)

lemma data_abort_eq:
  assumes "length registers = 32" "esr AND ESR_EL2_ISS_ISV \<noteq> 0" "get_current_vm s = Some v"
  shows "data_abort_handler hw fs s registers esr =
    (if esr AND ESR_EL2_ISS_WNR \<noteq> 0 then do {
       ((v', mc, c), r) \<leftarrow> handle_mmio_write hw fs v (sy_machine s) (sr_cpu (sy_regs s)) (abort_address s)
         (access_width_of esr) (stored_value registers esr);
       if r = Ok () \<and> unat (elr_el2 (sy_regs s)) + 4 < usize_range then Some (after_abort s v' mc c, registers) else None }
     else do {
       (v', r) \<leftarrow> handle_mmio_read v (abort_address s) (access_width_of esr);
       (case r of
          Ok x \<Rightarrow> if unat (elr_el2 (sy_regs s)) + 4 < usize_range
            then Some (after_abort s v' (sy_machine s) (sr_cpu (sy_regs s)), registers[register_number_of esr := x]) else None
        | Err e \<Rightarrow> None) })"
proof -
  have g: "arr_get registers (register_number_of esr) = Some (registers ! register_number_of esr)"
    using register_number_less assms(1) by (simp add: arr_get_def)
  show ?thesis using assms(2,3) g
    by (auto simp: data_abort_handler_def Let_def abort_address_def stored_value_def advance_elr after_abort_def put_vm_def
        bind_eq_None_conv split: Option.bind_splits result.splits prod.splits intro!: Option.bind_cong)
qed

end
