(* ===== verification/Vm_Spec.thy ===== *)
theory Vm_Spec
  imports Vm_Invariant Fat32_Spec
begin

text \<open>
  The properties of the hypervisor's entry points: guest accesses to emulated devices, characters
  from the terminal, and the console.
\<close>

section \<open>A concrete system\<close>

text \<open>Two VMs, of which the first runs on this CPU and the second has the terminal.\<close>

definition demo_vm :: "usize \<Rightarrow> usize \<Rightarrow> vm" where
  "demo_vm i base = \<lparr>vm_id = i, ram_virtual_base_address = RAM_VIRTUAL_BASE, ram_physical_base_address = base,
     ram_size = RAM_SIZE, mmio_handlers = vm_handlers, gic_distributor_mmio = gicd_new, gic_redistributor_mmio = gicr_new 0,
     pl011_mmio = pl011_new,
     virtio_blk_mmio = \<lparr>v_file = demo_file, v_interrupt_status = 0, v_status = 0, v_queue_size = 0, v_queue_ready = False,
       v_page_size = 4096, v_descriptor = 0, v_avail_ring = 0, v_used_ring = 0, v_last_avail_id = 0, v_used_id = 0\<rparr>\<rparr>"

definition demo_regs :: "u64 \<Rightarrow> u64 \<Rightarrow> sysregs" where
  "demo_regs hpfar far = \<lparr>sr_cpu = \<lparr>mpidr_el1 = 0, ich_vtr_el2 = 3, ich_eisr_el2 = 0, ich_lr = replicate NUM_LR 0, icc_sgi1r = []\<rparr>,
     currentel = 8, midr_el1 = 0, id_aa64mmfr0_el1 = 2, hcr_el2 = 0, elr_el2 = 0x40080000, spsr_el2 = 5, vpidr_el2 = 0,
     vmpidr_el2 = 0, vbar_el2 = 0, esr_el2 = 0, far_el2 = far, hpfar_el2 = hpfar, tpidr_el2 = 0, cntvoff_el2 = 0,
     ich_hcr_el2 = 0, icc_sre_el2 = 0, icc_sre_bits = 0, icc_igrpen1_el1 = 0, icc_pmr_el1 = 0, icc_bpr1_el1 = 0,
     icc_ctlr_el1 = 0, icc_pending = [], icc_eoir1_el1 = [], icc_dir_el1 = []\<rparr>"

definition demo_system :: "u64 \<Rightarrow> u64 \<Rightarrow> ref_dev system" where
  "demo_system hpfar far = \<lparr>sy_machine = demo_machine, sy_regs = demo_regs hpfar far, sy_tables = (\<lambda>_. 0), sy_vtcr_el2 = 0,
     sy_vttbr_el2 = 0, vm_list = [demo_vm 0 0x50000000, demo_vm 1 0x60000000], next_vm_id = 2, active_vm = Some 1,
     generic_timer_physical_int_id = 30\<rparr>"

lemma demo_vm_wf: "base + RAM_SIZE < usize_range \<Longrightarrow> vm_wf (demo_vm i base)"
  by (simp add: vm_wf_def demo_vm_def gicd_new_wf gicr_ok_def gicr_new_def pl011_ok_def pl011_new_def mpidr_to_affinity_def aff0_def)

lemma demo_system_wf: "system_wf (demo_system hpfar far)"
  by (simp add: system_wf_def demo_system_def demo_vm_wf usize_range_def RAM_SIZE_def cpu_ok_def demo_regs_def)
    (simp add: demo_vm_def)

lemma demo_current: "get_current_vm (demo_system hpfar far) = Some (demo_vm 0 0x50000000)"
  by (simp add: get_current_vm_def demo_system_def find_vm_def demo_regs_def get_tpidr_el2_def) (simp add: demo_vm_def)

lemma demo_abort_address: "abort_address (demo_system 0x90000 0x18) = 0x9000018" "abort_address (demo_system 0x120000 0x18) = 0x12000018"
  by (simp_all add: abort_address_def demo_system_def demo_regs_def get_hpfar_el2_def get_far_el2_def fault_address_def
      PAGE_SHIFT_def HPFAR_EL2_FIPA_def HPFAR_EL2_FIPA_BITS_OFFSET_def)

section \<open>Guest accesses\<close>

lemma data_abort_handled:
  assumes "system_wf s" "get_current_vm s = Some v" "length registers = 32" "esr AND ESR_EL2_ISS_ISV \<noteq> 0"
    and "window_of (abort_address s) = Some (base, h)" "h = Pl011_Handler \<or> h = Gicr_Handler"
    and "unat (elr_el2 (sy_regs s)) + 4 < 2 ^ 64"
  shows "\<exists>s' v'. elr_el2 (sy_regs s') = elr_el2 (sy_regs s) + 4 \<and> find_vm (vm_list s') (vm_id v) = Some v' \<and>
    (if esr AND ESR_EL2_ISS_WNR = 0
     then \<exists>x. device_read v h (abort_address s - base) (access_width_of esr) = Some (v', Ok x) \<and>
       data_abort_handler hw fs s registers esr = Some (s', registers[register_number_of esr := x])
     else \<exists>mc c. device_write hw fs v (sy_machine s) (sr_cpu (sy_regs s)) h (abort_address s - base) (access_width_of esr)
         (stored_value registers esr) = Some ((v', mc, c), Ok ()) \<and>
       data_abort_handler hw fs s registers esr = Some (s', registers))"
proof -
  have wf: "vm_wf v" "cpu_ok (sr_cpu (sy_regs s))"
    using assms(1,2) find_vm_Some by (auto simp: system_wf_def list_all_iff get_current_vm_def)
  then have g: "gicr_inv (sr_cpu (sy_regs s), gic_redistributor_mmio v)" by (simp add: gicr_inv_iff vm_wf_def)
  have el: "elr_el2 (sy_regs (after_abort s v' mc c)) = elr_el2 (sy_regs s) + 4" for v' mc c
    by (simp add: after_abort_def put_vm_def)
  let ?off = "abort_address s - base" and ?w = "access_width_of esr"
  have w: "\<exists>v' mc c. device_write hw fs v (sy_machine s) (sr_cpu (sy_regs s)) h ?off ?w x = Some ((v', mc, c), Ok ())" for x
    using assms(6) uart.write_ok [of "pl011_mmio v" ?off ?w x] gicr_write_total [OF g, of ?off ?w x] wf(1)
    by (auto simp: device_write_def vm_wf_def)
  have r: "\<exists>v' x. device_read v h ?off ?w = Some (v', Ok x)"
    using assms(6) uart.read_ok [of "pl011_mmio v" ?off ?w] gicr.read_ok [OF g, of ?off ?w] wf(1)
    by (auto simp: device_read_def vm_wf_def gicr_dev_read_def bind_eq_Some_conv)
  have e: "unat (elr_el2 (sy_regs s)) + 4 < usize_range" using assms(7) by (simp add: usize_range_def)
  have cur: "find_vm (vm_list s) (vm_id v) = Some v" using assms(2) find_vm_Some by (auto simp: get_current_vm_def)
  have put: "find_vm (vm_list (after_abort s v' mc c)) (vm_id v) = Some v'" if "same_vm v v'" for v' mc c
    using that cur put_vm_same [of "s\<lparr>sy_machine := mc, sy_regs := r\<rparr>" v' v for r]
    by (simp add: after_abort_def same_vm_def)
  show ?thesis
  proof (cases "esr AND ESR_EL2_ISS_WNR = 0")
    case True
    obtain v' x where x: "device_read v h ?off ?w = Some (v', Ok x)" using r by blast
    then have "data_abort_handler hw fs s registers esr =
        Some (after_abort s v' (sy_machine s) (sr_cpu (sy_regs s)), registers[register_number_of esr := x])"
      using True e by (simp add: data_abort_eq [OF assms(3,4,2)] handle_mmio_read_eq [OF wf(1)] assms(5))
    with x el put device_read_wf [OF wf(1) x] show ?thesis unfolding if_P [OF True] by blast
  next
    case False
    obtain v' mc c where x: "device_write hw fs v (sy_machine s) (sr_cpu (sy_regs s)) h ?off ?w (stored_value registers esr) =
      Some ((v', mc, c), Ok ())" using w by blast
    then have "data_abort_handler hw fs s registers esr = Some (after_abort s v' mc c, registers)"
      using False e by (simp add: data_abort_eq [OF assms(3,4,2)] handle_mmio_write_eq [OF wf(1)] assms(5))
    with x el put device_write_wf [OF wf x] show ?thesis unfolding if_not_P [OF False] by blast
  qed
qed



lemma demo_esr:
  "(0x1830000 :: u64) AND ESR_EL2_ISS_ISV \<noteq> 0" "(0x1830000 :: u64) AND ESR_EL2_ISS_WNR = 0" "register_number_of 0x1830000 = 3"
  by (simp_all add: ESR_EL2_ISS_ISV_def ESR_EL2_ISS_WNR_def register_number_of_def ESR_EL2_ISS_SRT_BITS_OFFSET_def ESR_EL2_ISS_SRT_def)

lemma demo_elr: "elr_el2 (sy_regs (demo_system hpfar far)) = 0x40080000"
  by (simp add: demo_system_def demo_regs_def)

lemma demo_window: "window_of (abort_address (demo_system 0x90000 0x18)) = Some (0x9000000, Pl011_Handler)"
  by (simp add: demo_abort_address window_of_def)



text \<open>C33: an access with a valid syndrome to the UART or to the redistributor is always handled. The
  addressed device performs the access at the offset in its window with the width of the syndrome, and
  its new state is put back into the current virtual machine. A load gets exactly the value
  that the device answers in the register of the syndrome and no other register changes; a store gives
  the device the value of that register, cut to 32 bits for a 32-bit register, and changes none. The
  instruction is skipped, which needs an address that does not overflow.\<close>

theorem data_abort_total:
  assumes "system_wf s" "get_current_vm s = Some v" "length registers = 32" "esr AND ESR_EL2_ISS_ISV \<noteq> 0"
    and "window_of (abort_address s) = Some (base, h)" "h = Pl011_Handler \<or> h = Gicr_Handler"
    and "unat (elr_el2 (sy_regs s)) + 4 < 2 ^ 64"
  shows "\<exists>s' v'. elr_el2 (sy_regs s') = elr_el2 (sy_regs s) + 4 \<and> find_vm (vm_list s') (vm_id v) = Some v' \<and>
    (if esr AND ESR_EL2_ISS_WNR = 0
     then \<exists>x. device_read v h (abort_address s - base) (access_width_of esr) = Some (v', Ok x) \<and>
       data_abort_handler hw fs s registers esr = Some (s', registers[register_number_of esr := x])
     else \<exists>mc c. device_write hw fs v (sy_machine s) (sr_cpu (sy_regs s)) h (abort_address s - base) (access_width_of esr)
         (stored_value registers esr) = Some ((v', mc, c), Ok ()) \<and>
       data_abort_handler hw fs s registers esr = Some (s', registers))"
  using assms by (rule data_abort_handled)

theorem data_abort_total_witness:
  "\<exists>s'. data_abort_handler ref_hw demo_fs (demo_system 0x90000 0x18) (replicate 32 7) 0x1830000 =
     Some (s', (replicate 32 7)[3 := 0]) \<and> elr_el2 (sy_regs s') = 0x40080004"
proof -
  obtain s' v' x where d: "device_read (demo_vm 0 0x50000000) Pl011_Handler 0x18 (access_width_of 0x1830000) = Some (v', Ok x)"
    "data_abort_handler ref_hw demo_fs (demo_system 0x90000 0x18) (replicate 32 7) 0x1830000 = Some (s', (replicate 32 7)[3 := x])"
    "elr_el2 (sy_regs s') = elr_el2 (sy_regs (demo_system 0x90000 0x18)) + 4"
    using demo_elr data_abort_total [OF demo_system_wf [of "0x90000" "0x18"] demo_current, where registers = "replicate 32 7"
      and esr = "0x1830000" and base = "0x9000000" and h = Pl011_Handler and hw = ref_hw and fs = demo_fs] demo_esr demo_window
    by (auto simp: demo_abort_address)
  have "x = 0" using d(1) by (simp add: device_read_def pl011_read_def demo_vm_def pl011_new_def UART_DR_def UART_FR_def)
  then show ?thesis using d(2,3) demo_elr by simp
qed

text \<open>C34: on an access outside the four windows the handler of the data abort panics, whatever the
  syndrome and the registers, because it expects the access to be handled. The panic handler spins on the
  CPU that took the exception, so the virtual machine that runs there does not go on.\<close>

theorem data_abort_unmapped_panics:
  assumes "system_wf s" "length registers = 32" "window_of (abort_address s) = None"
  shows "data_abort_handler hw fs s registers esr = None"
proof (cases "esr AND ESR_EL2_ISS_ISV = 0 \<or> get_current_vm s = None")
  case True
  then show ?thesis
    by (cases "data_abort_handler hw fs s registers esr")
      (auto simp: data_abort_handler_def Let_def bind_eq_Some_conv split: if_splits)
next
  case False
  then obtain v where v: "esr AND ESR_EL2_ISS_ISV \<noteq> 0" "get_current_vm s = Some v" by auto
  then have wf: "vm_wf v" using assms(1) find_vm_Some by (auto simp: system_wf_def list_all_iff get_current_vm_def)
  show ?thesis
    by (simp add: data_abort_eq [OF assms(2) v] handle_mmio_read_eq [OF wf] handle_mmio_write_eq [OF wf] assms(3))
qed

theorem data_abort_unmapped_panics_witness:
  "data_abort_handler ref_hw demo_fs (demo_system 0x120000 0x18) (replicate 32 7) 0x1830000 = None"
  by (rule data_abort_unmapped_panics [OF demo_system_wf]) (simp_all add: demo_abort_address window_of_def)

section \<open>Characters from the terminal\<close>

text \<open>C36: while the console is closed, a character that is neither the switch key nor 0 goes to the end of
  the receive queue of the active virtual machine's UART, provided that a virtual machine is active, fewer
  than four characters wait in its queue, and the routers of its distributor name CPUs below 16, as the
  interrupt of the UART may have to be sent to them. Neither the console nor another virtual machine sees it.\<close>

theorem input_reaches_active_vm:
  assumes "system_wf (host_system st)" "\<not> is_console_active st" "ch \<noteq> CONSOLE_SWITCH_KEY" "ch \<noteq> 0"
    and "get_active_vm (host_system st) = Some v" "routable (gic_distributor_mmio v)"
    and "fifo_shape (read_buffer (pl011_mmio v))" "length (fifo (read_buffer (pl011_mmio v))) < 4"
  shows "\<exists>st' v'. route_char hw lay st ch = Some st' \<and> get_active_vm (host_system st') = Some v' \<and>
    fifo (read_buffer (pl011_mmio v')) = fifo (read_buffer (pl011_mmio v)) @ [ch] \<and> same_vm v v' \<and>
    (\<forall>i. i \<noteq> vm_id v \<longrightarrow> find_vm (vm_list (host_system st')) i = find_vm (vm_list (host_system st)) i) \<and>
    host_console st' = host_console st \<and> is_console_active st' = is_console_active st \<and> system_wf (host_system st')"
proof -
  let ?s = "host_system st" and ?c = "sr_cpu (sy_regs (host_system st))" and ?d = "gic_distributor_mmio v"
  obtain i where i: "active_vm ?s = Some i" "find_vm (vm_list ?s) i = Some v"
    using assms(5) by (auto simp: get_active_vm_def bind_eq_Some_conv)
  then have v: "v \<in> set (vm_list ?s)" "vm_id v = i" using find_vm_Some by auto
  then have wf: "vm_wf v" "cpu_ok ?c" using assms(1) by (auto simp: system_wf_def list_all_iff)
  have gwf: "gicd_wf ?d" using wf(1) by (simp add: vm_wf_def)
  note f = push_fifo [OF assms(7,8,4)]
  obtain c d u where p: "pl011_push ?c ?d (pl011_mmio v) ch = Some (c, d, u)" "gicd_wf d" "cpu_ok c"
    "read_buffer u = push_buffer (read_buffer (pl011_mmio v)) ch"
  proof (cases "interrupt_mask (pl011_mmio v) AND UART_IMSC_RXIM = 0")
    case True
    then show ?thesis using that gwf wf(2) by (simp add: pl011_push_def)
  next
    case False
    obtain c d where t: "gicd_trigger_interrupt ?c ?d PL011_INT_ID None = Some (c, d)"
      using gicd_trigger_total [OF gwf assms(6), of PL011_INT_ID ?c None] by (auto simp: PL011_INT_ID_def)
    from gicd_trigger_step(1) [OF gwf t] gwf have "gicd_wf d" "cpu_same_id ?c c"
      using gicd_step_ok_wf by (auto simp: gicd_step_ok_def)
    then show ?thesis using that [of c d] False t wf(2) by (simp add: pl011_push_def cpu_same_id_def)
  qed
  let ?v = "v\<lparr>gic_distributor_mmio := d, pl011_mmio := u\<rparr>" and ?s1 = "?s\<lparr>sy_regs := (sy_regs ?s)\<lparr>sr_cpu := c\<rparr>\<rparr>"
  have id: "vm_id ?v = i" using v(2) by simp
  have in': "input_uart ?s ch = Some (put_vm ?s1 ?v)" using assms(5) p(1) by (simp add: input_uart_def)
  have wf': "vm_wf ?v" using wf(1) p(2,4) by (simp add: vm_wf_def pl011_ok_def)
  have "system_wf (put_vm ?s1 ?v)"
    using put_vm_wf [OF assms(1) wf', of "(sy_regs ?s)\<lparr>sr_cpu := c\<rparr>" "sy_machine ?s"] p(3) by simp
  moreover have "get_active_vm (put_vm ?s1 ?v) = Some ?v"
    using put_vm_same [of ?s1 ?v v] i id by (simp add: get_active_vm_def put_vm_def)
  moreover have "\<forall>j. j \<noteq> i \<longrightarrow> find_vm (vm_list (put_vm ?s1 ?v)) j = find_vm (vm_list ?s) j"
    using put_vm_other [of _ ?v ?s1] id by simp
  ultimately show ?thesis using in' assms(2,3) f p(4) v(2)
    by (intro exI [of _ "st\<lparr>host_hv := (host_hv st)\<lparr>hv_system := put_vm ?s1 ?v\<rparr>\<rparr>"] exI [of _ ?v])
      (simp add: route_char_def same_vm_def)
qed

definition demo_host :: "bool \<Rightarrow> ref_dev host" where
  "demo_host opened = \<lparr>host_hv = \<lparr>hv_system = demo_system 0 0, hv_fat32 = demo_fs, hv_dtb = 0, hv_pl011 = 0, hv_pl011_int_id = 33\<rparr>,
     host_console = console_new, is_console_active = opened\<rparr>"

definition demo_layout :: layout where
  "demo_layout = \<lparr>mbr_address = 0, bpb_address = 0, exception_table = 0, core_entry = 0\<rparr>"

theorem input_reaches_active_vm_witness:
  "\<exists>st' v'. route_char ref_hw demo_layout (demo_host False) 0x61 = Some st' \<and> get_active_vm (host_system st') = Some v' \<and>
     vm_id v' = 1 \<and> fifo (read_buffer (pl011_mmio v')) = [0x61] \<and>
     find_vm (vm_list (host_system st')) 0 = Some (demo_vm 0 0x50000000)"
proof -
  have v: "get_active_vm (host_system (demo_host False)) = Some (demo_vm 1 0x60000000)"
    by (simp add: demo_host_def demo_system_def get_active_vm_def find_vm_def demo_vm_def)
  have u: "fifo_shape (read_buffer (pl011_mmio (demo_vm 1 0x60000000)))" "fifo (read_buffer (pl011_mmio (demo_vm 1 0x60000000))) = []"
  proof -
    have "read_buffer (pl011_mmio (demo_vm 1 0x60000000)) = [] @ replicate 4 0" by (simp add: demo_vm_def pl011_new_def)
    then show "fifo_shape (read_buffer (pl011_mmio (demo_vm 1 0x60000000)))" "fifo (read_buffer (pl011_mmio (demo_vm 1 0x60000000))) = []"
      using fifo_append [of "[]" 4] by (simp_all add: fifo_shape_def)
  qed
  have r: "routable (gic_distributor_mmio (demo_vm 1 0x60000000))" by (simp add: demo_vm_def routable_def gicd_new_def aff0_def)
  have "system_wf (host_system (demo_host False))" using demo_system_wf by (simp add: demo_host_def)
  moreover have "\<not> is_console_active (demo_host False)" "(0x61 :: u8) \<noteq> CONSOLE_SWITCH_KEY" "(0x61 :: u8) \<noteq> 0"
    by (simp_all add: demo_host_def CONSOLE_SWITCH_KEY_def)
  moreover have "length (fifo (read_buffer (pl011_mmio (demo_vm 1 0x60000000)))) < 4" unfolding u(2) by simp
  ultimately obtain st' v' where "route_char ref_hw demo_layout (demo_host False) 0x61 = Some st'"
    "get_active_vm (host_system st') = Some v'" "fifo (read_buffer (pl011_mmio v')) = [] @ [0x61]" "same_vm (demo_vm 1 0x60000000) v'"
    and "\<forall>i. i \<noteq> vm_id (demo_vm 1 0x60000000) \<longrightarrow>
      find_vm (vm_list (host_system st')) i = find_vm (vm_list (host_system (demo_host False))) i"
    using input_reaches_active_vm [OF _ _ _ _ v r u(1), of "0x61" ref_hw demo_layout] unfolding u(2) by blast
  moreover have "vm_id (demo_vm 1 0x60000000) = 1" by (simp add: demo_vm_def)
  moreover have "find_vm (vm_list (host_system (demo_host False))) 0 = Some (demo_vm 0 0x50000000)"
    by (simp add: demo_host_def demo_system_def find_vm_def demo_vm_def)
  ultimately show ?thesis by (auto simp: same_vm_def)
qed

section \<open>The console\<close>

definition console_ok :: "console \<Rightarrow> bool" where
  "console_ok con \<longleftrightarrow> length (con_buffer con) = BUFFER_SIZE \<and> con_buffer_pointer con \<le> BUFFER_SIZE"

definition typed :: "console \<Rightarrow> u8 list" where
  "typed con = take (con_buffer_pointer con) (con_buffer con)"

text \<open>Several characters, as \<open>handle_input\<close> routes them.\<close>

fun route_chars :: "'h hw \<Rightarrow> layout \<Rightarrow> 'h host \<Rightarrow> u8 list \<Rightarrow> 'h host option" where
  "route_chars hw lay st [] = ret st"
| "route_chars hw lay st (c # cs) = do { st \<leftarrow> route_char hw lay st c; route_chars hw lay st cs }"

definition edits_line :: "u8 \<Rightarrow> bool" where
  "edits_line c \<longleftrightarrow> c \<noteq> CONSOLE_SWITCH_KEY \<and> c \<noteq> 0x0D \<and> c \<noteq> 0x0A"

lemma route_edit:
  assumes "console_ok (host_console st)" "is_console_active st" "edits_line c"
  shows "\<exists>con. route_char hw lay st c = Some (st\<lparr>host_console := con\<rparr>) \<and> console_ok con \<and>
    typed con = take BUFFER_SIZE (typed (host_console st) @ (if is_ascii_control c then [] else [c]))"
proof -
  let ?con = "host_console st"
  have ok: "length (con_buffer ?con) = BUFFER_SIZE" "con_buffer_pointer ?con \<le> BUFFER_SIZE" using assms(1) by (simp_all add: console_ok_def)
  have r: "route_char hw lay st c = console_write hw lay st c" using assms(2,3) by (simp add: route_char_def edits_line_def)
  show ?thesis
  proof (cases "is_ascii_control c \<or> con_buffer_pointer ?con = BUFFER_SIZE")
    case True
    then have "console_write hw lay st c = Some (st\<lparr>host_console := ?con\<rparr>)"
      using assms(3) by (simp add: console_write_def edits_line_def Let_def)
    then show ?thesis using r True assms(1) ok by (intro exI [of _ ?con]) (auto simp: typed_def min_def)
  next
    case False
    then have lt: "con_buffer_pointer ?con < length (con_buffer ?con)" using ok by simp
    let ?c = "?con\<lparr>con_buffer := (con_buffer ?con)[con_buffer_pointer ?con := c], con_buffer_pointer := con_buffer_pointer ?con + 1\<rparr>"
    have "console_write hw lay st c = Some (st\<lparr>host_console := ?c\<rparr>)"
      using assms(3) False lt by (simp add: console_write_def edits_line_def Let_def arr_set_def)
    moreover have "typed ?c = typed ?con @ [c]" using lt by (simp add: typed_def take_Suc_conv_app_nth)
    ultimately show ?thesis using r False ok lt by (intro exI [of _ ?c]) (simp add: console_ok_def typed_def)
  qed
qed

lemma take_append_take: "take n (take n xs @ ys) = take n (xs @ ys)"
  by (simp add: take_append min_def)

text \<open>C37: whatever is typed at the console, the line buffer holds the first 64 characters of the
  line that are not control characters, nothing is written outside it and no virtual machine sees the input.\<close>

theorem console_line_bounded:
  assumes "console_ok (host_console st)" "is_console_active st" "list_all edits_line cs"
  shows "\<exists>con. route_chars hw lay st cs = Some (st\<lparr>host_console := con\<rparr>) \<and> console_ok con \<and>
    typed con = take BUFFER_SIZE (typed (host_console st) @ filter (\<lambda>c. \<not> is_ascii_control c) cs)"
  using assms
proof (induction cs arbitrary: st)
  case Nil
  then show ?case by (intro exI [of _ "host_console st"]) (simp add: typed_def console_ok_def)
next
  case (Cons c cs)
  then obtain con where con: "route_char hw lay st c = Some (st\<lparr>host_console := con\<rparr>)" "console_ok con"
    "typed con = take BUFFER_SIZE (typed (host_console st) @ (if is_ascii_control c then [] else [c]))"
    using route_edit [of st c hw lay] by auto
  from Cons.IH [of "st\<lparr>host_console := con\<rparr>"] con(2) Cons.prems obtain con' where
    c': "route_chars hw lay (st\<lparr>host_console := con\<rparr>) cs = Some (st\<lparr>host_console := con'\<rparr>)" "console_ok con'"
      "typed con' = take BUFFER_SIZE (typed con @ filter (\<lambda>c. \<not> is_ascii_control c) cs)"
    by auto
  have "typed con' = take BUFFER_SIZE (typed (host_console st) @ filter (\<lambda>c. \<not> is_ascii_control c) (c # cs))"
    unfolding c'(3) con(3) take_append_take by (simp del: take_append)
  then show ?case using con(1) c'(1,2) by auto
qed

theorem console_line_bounded_witness:
  "\<exists>con. route_chars ref_hw demo_layout (demo_host True) (replicate 100 0x61) = Some ((demo_host True)\<lparr>host_console := con\<rparr>) \<and>
     typed con = replicate 64 0x61"
proof -
  have "console_ok (host_console (demo_host True))" "is_console_active (demo_host True)" "typed (host_console (demo_host True)) = []"
    by (simp_all add: demo_host_def console_ok_def console_new_def typed_def)
  moreover have "list_all edits_line (replicate 100 0x61)" by (simp add: list_all_length edits_line_def CONSOLE_SWITCH_KEY_def)
  moreover have "filter (\<lambda>c. \<not> is_ascii_control c) (replicate 100 0x61) = replicate 100 0x61"
    by (simp add: is_ascii_control_def)
  ultimately show ?thesis
    using console_line_bounded [of "demo_host True" "replicate 100 0x61" ref_hw demo_layout] by (auto simp: BUFFER_SIZE_def)
qed

end
