(* ===== verification/Vm_Translation.thy ===== *)
theory Vm_Translation
  imports Vm_Spec Paging_Spec
begin

text \<open>
  The two address translations of a guest: the page tables that the hardware walks and
  \<open>get_physical_address\<close>, by which the hypervisor finds guest buffers, agree.
\<close>

text \<open>The state of the stage 2 translation in the system, as the hardware sees it.\<close>

definition hw_stage2 :: "'h system \<Rightarrow> stage2" where
  "hw_stage2 s = \<lparr>st_mem = sy_tables s, st_alloc = mc_alloc (sy_machine s), vtcr_el2 = sy_vtcr_el2 s, vttbr_el2 = sy_vttbr_el2 s\<rparr>"

text \<open>C31: after the tables of a virtual machine are set up, the address translation in software that
  device emulation uses for guest buffers gives exactly the address that the hardware's walk of
  those tables gives, and fails exactly where the hardware faults; all of the memory is readable and writable.\<close>

theorem software_translation_agrees:
  assumes "ma_inv (mc_alloc (sy_machine s))" "free_set (mc_alloc (sy_machine s)) \<subseteq> {..<2 ^ 47}"
    and "2 ^ 12 dvd pa" "pa + RAM_SIZE \<le> 2 ^ 48" "setup_stage2 s pa = Some s'"
    and "ram_virtual_base_address v = RAM_VIRTUAL_BASE" "ram_size v = RAM_SIZE" "ram_physical_base_address v = pa"
  shows "get_physical_address v x = Some (map_option fst (translate (hw_stage2 s') x)) \<and>
    (\<forall>p a. translate (hw_stage2 s') x = Some (p, a) \<longrightarrow> a = access_permission True True)"
proof -
  let ?t = "\<lparr>st_mem = sy_tables s, st_alloc = mc_alloc (sy_machine s), vtcr_el2 = sy_vtcr_el2 s, vttbr_el2 = sy_vttbr_el2 s\<rparr>"
  from assms(5) obtain t1 t2 where t: "init_stage2_translation_table ?t (get_id_aa64mmfr0_el1 (sy_regs s)) = Some t1"
    "map_address_stage2 t1 pa RAM_VIRTUAL_BASE RAM_SIZE True True = Some (t2, Ok ())" "hw_stage2 s' = t2"
    by (auto simp: setup_stage2_def hw_stage2_def bind_eq_Some_conv elim!: case_result_eqE)
  have sz: "2 ^ 12 dvd RAM_VIRTUAL_BASE" "2 ^ 12 dvd RAM_SIZE" "0 < RAM_SIZE" "RAM_VIRTUAL_BASE + RAM_SIZE \<le> 2 ^ 32"
    by (simp_all add: RAM_VIRTUAL_BASE_def RAM_SIZE_def)
  have "translate t2 x = (if RAM_VIRTUAL_BASE \<le> x \<and> x < RAM_VIRTUAL_BASE + RAM_SIZE
    then Some (pa + (x - RAM_VIRTUAL_BASE), access_permission True True) else None)"
    using address_space_exact [OF _ _ t(1) assms(3) sz(1-3) assms(4) sz(4) t(2)] assms(1,2) by simp
  moreover have "RAM_VIRTUAL_BASE + RAM_SIZE < usize_range" "pa + RAM_SIZE < usize_range"
    using assms(4) by (simp_all add: RAM_VIRTUAL_BASE_def RAM_SIZE_def usize_range_def)
  ultimately show ?thesis using assms(6-8) unfolding t(3)
    by (auto simp: get_physical_address_def uadd_def usub_def)
qed

text \<open>A range of whole blocks is mapped without another table.\<close>

lemma map_entries_blocks:
  assumes "1 \<le> level" "0 < n" "n \<le> length js" "cu_rem c = n * 2 ^ sh" "2 ^ sh dvd cu_pa c" "2 ^ sh dvd cu_ipa c"
    and "cu_pa c + n * 2 ^ sh < usize_range" "cu_ipa c + n * 2 ^ sh < usize_range"
  shows "\<exists>m' c'. map_entries sub level sh p t m al c js = Some ((m', al, c'), Ok ()) \<and> cu_rem c' = 0"
  using assms(2-)
proof (induction n arbitrary: js c m)
  case (Suc n)
  obtain j ks where js: "js = j # ks" using Suc.prems(2) by (cases js) auto
  let ?c = "\<lparr>cu_pa = cu_pa c + 2 ^ sh, cu_ipa = cu_ipa c + 2 ^ sh, cu_rem = n * 2 ^ sh\<rparr>"
  have adv: "cursor_advance c (2 ^ sh) = Some ?c"
    using Suc.prems(3,6,7) by (simp add: cursor_advance_def uadd_def usub_def)
  have blk: "2 ^ sh \<le> cu_rem c" "cu_pa c mod 2 ^ sh = 0" "cu_ipa c mod 2 ^ sh = 0"
    using Suc.prems(3-5) by (simp_all add: dvd_imp_mod_0)
  show ?case
  proof (cases "n = 0")
    case True
    then show ?thesis using assms(1) adv blk by (simp add: js Let_def)
  next
    case False
    have "\<exists>m' c'. map_entries sub level sh p t (m(t + 8 * j := block_descriptor (cu_pa c) p)) al ?c ks = Some ((m', al, c'), Ok ()) \<and>
      cu_rem c' = 0"
      using Suc.prems False js by (intro Suc.IH) (simp_all add: add.assoc)
    then show ?thesis using assms(1) adv blk False by (simp add: js Let_def)
  qed
qed simp

lemma boot_second_table:
  "map_option snd (do { (al, r) \<leftarrow> allocate_pages ram_allocator 2 13; allocate_pages al 1 12 }) = Some (Ok 0x40002000)"
  by code_simp

lemma ram_map:
  assumes "s2_t0sz s = 24" "initial_level (s2_sl0 s) = Some 1" "s2_root s = 0x40000000"
    and "allocate_pages (st_alloc s) 1 12 = Some (al, Ok a)"
  obtains s' where "map_address_stage2 s 0x80000000 RAM_VIRTUAL_BASE RAM_SIZE True True = Some (s', Ok ())"
proof -
  let ?c = "\<lparr>cu_pa = 0x80000000, cu_ipa = RAM_VIRTUAL_BASE, cu_rem = RAM_SIZE\<rparr>" and ?p = "access_permission True True"
  have sz: "RAM_SIZE mod 2 ^ 12 = 0" by (simp add: RAM_SIZE_def)
  have three: "(3::nat) - 1 = Suc 1" by simp
  have n: "number_of_concatenated_page_tables 24 1 * 512 = 1024" by (simp add: number_of_concatenated_page_tables_def)
  have i: "first_index (Suc 1) ?c 1024 = 1"
    using first_index_eq [of 1024 10 "Suc 1" ?c] by (simp add: level_shift_def region_def RAM_VIRTUAL_BASE_def)
  have j: "first_index (Suc 0) ?c 512 = 0"
    using first_index_eq [of 512 9 "Suc 0" ?c] by (simp add: level_shift_def region_def RAM_VIRTUAL_BASE_def)
  obtain ys where u: "[1..<1024] = 1 # ys" using upt_conv_Cons [of 1 1024] by auto
  have sub: "\<exists>m' c'. map_level 1 ?p 512 m al ?c t = Some ((m', al, c'), Ok ()) \<and> cu_rem c' = 0" for m al t
  proof -
    have "RAM_SIZE = 128 * 2 ^ level_shift (Suc 0)" "0x80000000 + 128 * 2 ^ level_shift (Suc 0) < usize_range"
      "RAM_VIRTUAL_BASE + 128 * 2 ^ level_shift (Suc 0) < usize_range" "2 ^ level_shift (Suc 0) dvd (0x80000000 :: nat)"
      "2 ^ level_shift (Suc 0) dvd RAM_VIRTUAL_BASE"
      by (simp_all add: level_shift_def RAM_SIZE_def RAM_VIRTUAL_BASE_def usize_range_def)
    then show ?thesis unfolding One_nat_def map_level.simps j
      by (intro map_entries_blocks [where n = 128]) simp_all
  qed
  have nt: "\<exists>m' al' t. next_table (0x40000000 + 8 * 1) m (st_alloc s) = Some (m', al', Ok t)" for m
    using assms(4) by (simp add: next_table_def)
  have "\<exists>m' al' c'. map_level (Suc 1) ?p 1024 (st_mem s) (st_alloc s) ?c 0x40000000 = Some ((m', al', c'), Ok ())"
  proof -
    from nt [of "st_mem s"] obtain m1 al1 t where t: "next_table (0x40000000 + 8 * 1) (st_mem s) (st_alloc s) = Some (m1, al1, Ok t)" by blast
    from sub [of m1 al1 t] obtain m2 c2 where m2: "map_level 1 ?p 512 m1 al1 ?c t = Some ((m2, al1, c2), Ok ())" "cu_rem c2 = 0" by blast
    have big: "\<not> 2 ^ level_shift (Suc 1) \<le> RAM_SIZE" by (simp add: level_shift_def RAM_SIZE_def)
    show ?thesis using t m2 big unfolding map_level.simps(2) i u
      by (simp del: map_level.simps)
  qed
  then obtain m' al' c' where l: "map_level (3 - 1) ?p 1024 (st_mem s) (st_alloc s) ?c 0x40000000 = Some ((m', al', c'), Ok ())"
    unfolding three by blast
  have "map_address_stage2 s 0x80000000 RAM_VIRTUAL_BASE RAM_SIZE True True = Some (s\<lparr>st_mem := m', st_alloc := al'\<rparr>, Ok ())"
    unfolding map_address_eq [OF sz assms(2)] assms(1,3) n l by simp
  then show ?thesis by (rule that)
qed

lemma demo_setup: "\<exists>s'. setup_stage2 (demo_system 0 0) 0x80000000 = Some s'"
proof -
  obtain t where t: "init_stage2_translation_table boot_stage2 2 = Some t" "s2_t0sz t = 24" "initial_level (s2_sl0 t) = Some 1"
    "s2_root t = 0x40000000" "allocate_pages ram_allocator 2 13 = Some (st_alloc t, Ok 0x40000000)"
    using boot_init by blast
  obtain al where al: "allocate_pages (st_alloc t) 1 12 = Some (al, Ok 0x40002000)" using boot_second_table t(5) by auto
  obtain t' where "map_address_stage2 t 0x80000000 RAM_VIRTUAL_BASE RAM_SIZE True True = Some (t', Ok ())"
    by (rule ram_map [OF t(2-4) al])
  then show ?thesis using t(1) by (simp add: setup_stage2_def demo_system_def demo_machine_def demo_regs_def get_id_aa64mmfr0_el1_def boot_stage2_def)
qed

theorem software_translation_agrees_witness:
  "\<exists>s'. setup_stage2 (demo_system 0 0) 0x80000000 = Some s' \<and> map_option fst (translate (hw_stage2 s') 0x40001234) = Some 0x80001234"
proof -
  obtain s' where s': "setup_stage2 (demo_system 0 0) 0x80000000 = Some s'" using demo_setup by blast
  let ?v = "demo_vm 0 0x80000000"
  have "get_physical_address ?v 0x40001234 = Some (map_option fst (translate (hw_stage2 s') 0x40001234))"
  proof (rule software_translation_agrees [OF _ _ _ _ s', THEN conjunct1])
    have "{0x40000000..<0x50000000} \<subseteq> {..<(2 :: nat) ^ 47}" by auto
    then show "free_set (mc_alloc (sy_machine (demo_system 0 0))) \<subseteq> {..<2 ^ 47}"
      using ram by (simp add: demo_system_def)
  qed (use ram in \<open>simp_all add: demo_system_def demo_vm_def RAM_SIZE_def\<close>)
  then show ?thesis using s'
    by (simp add: get_physical_address_def demo_vm_def uadd_def usub_def usize_range_def RAM_VIRTUAL_BASE_def RAM_SIZE_def)
qed

end
