(* ===== verification/Exception_Entry.thy ===== *)
theory Exception_Entry
  imports Exception
begin

text \<open>
  The exception vectors of \<open>src/src/exception.rs\<close>: the assembly that saves the general registers
  on the stack, calls the handler with the address of the frame and restores the registers, as
  lists of instructions with their meaning on the registers, the stack pointer and
  the stack. \<open>exit_exception_address\<close> is the address of the label \<open>exit_exception\<close>. The frame is the structure \<open>Registers\<close>: \<open>x0\<close> to \<open>x30\<close> and a padding word.
\<close>

section \<open>Instructions\<close>

datatype gp_reg = X nat | XZR

datatype handler = Irq_Handler | Synchronous_Handler

datatype insn =
  Sub_Sp nat
| Add_Sp nat
| Stp gp_reg gp_reg nat
| Ldp gp_reg gp_reg nat
| Mov_X0_Sp
| Adr_X30_Exit
| Branch handler
| Branch_Self
| Eret

record entry_state =
  gp_regs :: "u64 list"
  sp_el2 :: usize
  stack :: byte_mem
  exit_exception_address :: u64

definition reg_value :: "entry_state \<Rightarrow> gp_reg \<Rightarrow> u64" where
  "reg_value st r = (case r of X n \<Rightarrow> gp_regs st ! n | XZR \<Rightarrow> 0)"

definition set_reg :: "entry_state \<Rightarrow> gp_reg \<Rightarrow> u64 \<Rightarrow> entry_state" where
  "set_reg st r v = (case r of X n \<Rightarrow> st\<lparr>gp_regs := (gp_regs st)[n := v]\<rparr> | XZR \<Rightarrow> st)"

definition stack_address :: "entry_state \<Rightarrow> nat \<Rightarrow> usize" where
  "stack_address st off = (sp_el2 st + off) mod usize_range"

fun exec_insn :: "insn \<Rightarrow> entry_state \<Rightarrow> entry_state" where
  "exec_insn (Sub_Sp n) st = st\<lparr>sp_el2 := (sp_el2 st + usize_range - n) mod usize_range\<rparr>"
| "exec_insn (Add_Sp n) st = st\<lparr>sp_el2 := (sp_el2 st + n) mod usize_range\<rparr>"
| "exec_insn (Stp a b off) st = st\<lparr>stack := store64 (store64 (stack st) (stack_address st off) (reg_value st a))
     (stack_address st (off + 8)) (reg_value st b)\<rparr>"
| "exec_insn (Ldp a b off) st =
     set_reg (set_reg st a (load64 (stack st) (stack_address st off))) b (load64 (stack st) (stack_address st (off + 8)))"
| "exec_insn Mov_X0_Sp st = set_reg st (X 0) (word_of_nat (sp_el2 st))"
| "exec_insn Adr_X30_Exit st = set_reg st (X 30) (exit_exception_address st)"
| "exec_insn (Branch h) st = st"
| "exec_insn Branch_Self st = st"
| "exec_insn Eret st = st"

definition exec_insns :: "insn list \<Rightarrow> entry_state \<Rightarrow> entry_state" where
  "exec_insns is st = foldl (\<lambda>st i. exec_insn i st) st is"

section \<open>The vectors\<close>

definition save_registers :: "insn list" where
  "save_registers = [Stp (X 30) XZR (15 * 16), Stp (X 28) (X 29) (14 * 16), Stp (X 26) (X 27) (13 * 16),
     Stp (X 24) (X 25) (12 * 16), Stp (X 22) (X 23) (11 * 16), Stp (X 20) (X 21) (10 * 16), Stp (X 18) (X 19) (9 * 16),
     Stp (X 16) (X 17) (8 * 16), Stp (X 14) (X 15) (7 * 16), Stp (X 12) (X 13) (6 * 16), Stp (X 10) (X 11) (5 * 16),
     Stp (X 8) (X 9) (4 * 16), Stp (X 6) (X 7) (3 * 16), Stp (X 4) (X 5) (2 * 16), Stp (X 2) (X 3) (1 * 16),
     Stp (X 0) (X 1) (0 * 16)]"

definition irq_current_el_stack_pointer_x :: "insn list" where
  "irq_current_el_stack_pointer_x = Sub_Sp (8 * 32) # save_registers @ [Mov_X0_Sp, Adr_X30_Exit, Branch Irq_Handler]"

definition synchronous_lower_el_aarch64 :: "insn list" where
  "synchronous_lower_el_aarch64 = Sub_Sp (8 * 32) # save_registers @ [Mov_X0_Sp, Adr_X30_Exit, Branch Synchronous_Handler]"

definition irq_lower_el_aarch64 :: "insn list" where
  "irq_lower_el_aarch64 = Sub_Sp (8 * 32) # save_registers @ [Mov_X0_Sp, Adr_X30_Exit, Branch Irq_Handler]"

definition exit_exception :: "insn list" where
  "exit_exception = [Ldp (X 30) XZR (15 * 16), Ldp (X 28) (X 29) (14 * 16), Ldp (X 26) (X 27) (13 * 16),
     Ldp (X 24) (X 25) (12 * 16), Ldp (X 22) (X 23) (11 * 16), Ldp (X 20) (X 21) (10 * 16), Ldp (X 18) (X 19) (9 * 16),
     Ldp (X 16) (X 17) (8 * 16), Ldp (X 14) (X 15) (7 * 16), Ldp (X 12) (X 13) (6 * 16), Ldp (X 10) (X 11) (5 * 16),
     Ldp (X 8) (X 9) (4 * 16), Ldp (X 6) (X 7) (3 * 16), Ldp (X 4) (X 5) (2 * 16), Ldp (X 2) (X 3) (1 * 16),
     Ldp (X 0) (X 1) (0 * 16), Add_Sp (8 * 32), Eret]"

text \<open>The table: sixteen entries, \<open>0x80\<close> bytes apart; an unused entry branches to itself.\<close>

definition exception_table :: "insn list list" where
  "exception_table =
     [[Branch_Self], [Branch_Self], [Branch_Self], [Branch_Self],
      [Branch_Self], irq_current_el_stack_pointer_x, [Branch_Self], [Branch_Self],
      synchronous_lower_el_aarch64, irq_lower_el_aarch64, [Branch_Self], [Branch_Self],
      [Branch_Self], [Branch_Self], [Branch_Self], [Branch_Self]]"

text \<open>The frame on the stack, as the handler gets it and leaves it.\<close>

definition get_frame :: "byte_mem \<Rightarrow> usize \<Rightarrow> u64 list" where
  "get_frame m a = map (\<lambda>i. load64 m (a + 8 * i)) [0..<32]"

definition put_frame :: "byte_mem \<Rightarrow> usize \<Rightarrow> u64 list \<Rightarrow> byte_mem" where
  "put_frame m a rs = foldl (\<lambda>m i. store64 m (a + 8 * i) (rs ! i)) m [0..<32]"

text \<open>
  A synchronous exception of a guest: the vector, the handler on the frame at \<open>x0\<close>, and the way
  back to the guest. The compiled handler leaves \<open>clobbered\<close> in the general registers.
\<close>

definition guest_synchronous ::
    "'h hw \<Rightarrow> fat32 \<Rightarrow> u64 list \<Rightarrow> 'h system \<Rightarrow> entry_state \<Rightarrow> ('h system \<times> entry_state) option" where
  "guest_synchronous hw fs clobbered s st = do {
     let st = exec_insns synchronous_lower_el_aarch64 st;
     let frame = unat (gp_regs st ! 0);
     (s, rs) \<leftarrow> synchronous_handler hw fs s (get_frame (stack st) frame);
     let st = st\<lparr>gp_regs := clobbered, stack := put_frame (stack st) frame rs\<rparr>;
     ret (s, exec_insns exit_exception st) }"

section \<open>Saving and restoring\<close>

definition frame_reg :: "nat \<Rightarrow> gp_reg" where
  "frame_reg i = (if i = 31 then XZR else X i)"

definition stp_at :: "nat \<Rightarrow> insn" where
  "stp_at k = Stp (frame_reg (2 * k)) (frame_reg (2 * k + 1)) (16 * k)"

definition ldp_at :: "nat \<Rightarrow> insn" where
  "ldp_at k = Ldp (frame_reg (2 * k)) (frame_reg (2 * k + 1)) (16 * k)"

lemma save_registers_eq:
  "save_registers = map stp_at (rev [0..<16])"
  by code_simp

lemma exit_exception_eq:
  "exit_exception = map ldp_at (rev [0..<16]) @ [Add_Sp 256, Eret]"
  by code_simp

lemma exec_insns_simps [simp]:
  "exec_insns [] st = st" "exec_insns (i # is) st = exec_insns is (exec_insn i st)"
  "exec_insns (is @ js) st = exec_insns js (exec_insns is st)"
  by (simp_all add: exec_insns_def)

definition frame_value :: "entry_state \<Rightarrow> nat \<Rightarrow> u64" where
  "frame_value st i = reg_value st (frame_reg i)"

lemma load64_store64:
  "load64 (store64 m a v) a = v" "a + 8 \<le> b \<or> b + 8 \<le> a \<Longrightarrow> load64 (store64 m a v) b = load64 m b"
  by (simp_all add: mem_simps) (simp only: load64_def store64_def load_store_other disj_commute)

lemma load64_slot: "load64 (store64 m (a + 8 * n) v) (a + 8 * j) = (if j = n then v else load64 m (a + 8 * j))"
proof (cases "j = n")
  case False
  then have "a + 8 * n + 8 \<le> a + 8 * j \<or> a + 8 * j + 8 \<le> a + 8 * n" by linarith
  with False show ?thesis by (simp add: load64_store64(2))
qed (simp add: load64_store64(1))

lemma slots16: "set (rev [0..<16]) \<subseteq> {..<16}" "distinct (rev [0..<16])" "j < 32 \<Longrightarrow> j div 2 \<in> set (rev [0..<16])"
  by auto

lemma save_loop:
  assumes "set ks \<subseteq> {..<16}" "distinct ks" "sp_el2 st + 256 \<le> usize_range"
  defines "st' \<equiv> exec_insns (map stp_at ks) st"
  shows "gp_regs st' = gp_regs st \<and> sp_el2 st' = sp_el2 st \<and>
    (\<forall>j < 32. load64 (stack st') (sp_el2 st + 8 * j) =
      (if j div 2 \<in> set ks then frame_value st j else load64 (stack st) (sp_el2 st + 8 * j)))"
  using assms(1-3) unfolding st'_def
proof (induction ks arbitrary: st)
  case (Cons k ks)
  let ?st = "exec_insn (stp_at k) st"
  have a: "stack_address st (16 * k) = sp_el2 st + 8 * (2 * k)" "stack_address st (16 * k + 8) = sp_el2 st + 8 * (2 * k + 1)"
    using Cons.prems by (simp_all add: stack_address_def)
  have s: "stack ?st = store64 (store64 (stack st) (sp_el2 st + 8 * (2 * k)) (frame_value st (2 * k)))
    (sp_el2 st + 8 * (2 * k + 1)) (frame_value st (2 * k + 1))"
    unfolding stp_at_def exec_insn.simps a frame_value_def by simp
  have l: "load64 (stack ?st) (sp_el2 st + 8 * j) = (if j div 2 = k then frame_value st j else load64 (stack st) (sp_el2 st + 8 * j))" for j
  proof -
    consider "j = 2 * k" | "j = 2 * k + 1" | "j \<noteq> 2 * k" "j \<noteq> 2 * k + 1" "j div 2 \<noteq> k" by linarith
    then show ?thesis
    proof cases
      case 3
      then show ?thesis by (simp only: s load64_slot) simp
    qed (simp_all only: s load64_slot, simp_all)
  qed
  have r: "gp_regs ?st = gp_regs st" "sp_el2 ?st = sp_el2 st" by (simp_all add: stp_at_def)
  then have v: "frame_value ?st j = frame_value st j" for j by (simp add: frame_value_def reg_value_def split: gp_reg.splits)
  from Cons.IH [of ?st] Cons.prems r show ?case by (auto simp: l v simp del: exec_insn.simps)
qed simp

lemma restore_loop:
  assumes "set ks \<subseteq> {..<16}" "sp_el2 st + 256 \<le> usize_range" "length (gp_regs st) = 31"
  defines "st' \<equiv> exec_insns (map ldp_at ks) st"
  shows "sp_el2 st' = sp_el2 st \<and> stack st' = stack st \<and> exit_exception_address st' = exit_exception_address st \<and>
    length (gp_regs st') = 31 \<and>
    (\<forall>j < 31. gp_regs st' ! j = (if j div 2 \<in> set ks then load64 (stack st) (sp_el2 st + 8 * j) else gp_regs st ! j))"
  using assms(1-3) unfolding st'_def
proof (induction ks arbitrary: st)
  case (Cons k ks)
  let ?st = "exec_insn (ldp_at k) st"
  have a: "stack_address st (16 * k) = sp_el2 st + 8 * (2 * k)" "stack_address st (16 * k + 8) = sp_el2 st + 8 * (2 * k + 1)"
    using Cons.prems by (simp_all add: stack_address_def)
  have r: "sp_el2 ?st = sp_el2 st" "stack ?st = stack st" "exit_exception_address ?st = exit_exception_address st"
    "length (gp_regs ?st) = 31"
    using Cons.prems(3) by (simp_all add: ldp_at_def set_reg_def split: gp_reg.splits)
  have l: "gp_regs ?st ! j = (if j div 2 = k then load64 (stack st) (sp_el2 st + 8 * j) else gp_regs st ! j)" if "j < 31" for j
  proof -
    consider "j = 2 * k" | "j = 2 * k + 1" | "j \<noteq> 2 * k" "j \<noteq> 2 * k + 1" "j div 2 \<noteq> k" by linarith
    then show ?thesis unfolding ldp_at_def exec_insn.simps a
      by cases (use that Cons.prems in \<open>simp_all add: frame_reg_def set_reg_def nth_list_update split: gp_reg.splits\<close>)
  qed
  from Cons.IH [of ?st] Cons.prems r show ?case by (auto simp: l simp del: exec_insn.simps)
qed simp

text \<open>The vector puts every register into its word of the frame; the way out takes them from there.\<close>

lemma vector_saves:
  fixes st :: entry_state and h :: handler
  assumes "length (gp_regs st) = 31" "256 \<le> sp_el2 st" "sp_el2 st < usize_range"
  defines "st' \<equiv> exec_insns (Sub_Sp (8 * 32) # save_registers @ [Mov_X0_Sp, Adr_X30_Exit, Branch h]) st"
  shows "sp_el2 st' = sp_el2 st - 256" "gp_regs st' ! 0 = word_of_nat (sp_el2 st - 256)" "length (gp_regs st') = 31"
    "get_frame (stack st') (sp_el2 st - 256) = gp_regs st @ [0]"
proof -
  let ?st = "exec_insn (Sub_Sp 256) st" and ?a = "sp_el2 st - 256"
  have sp: "sp_el2 ?st = ?a" "gp_regs ?st = gp_regs st" "?a + 256 \<le> usize_range"
    using assms(2,3) by (simp_all add: usize_range_def mod_if)
  let ?st1 = "exec_insns save_registers ?st"
  have "gp_regs ?st1 = gp_regs st \<and> sp_el2 ?st1 = ?a \<and> (\<forall>j < 32. load64 (stack ?st1) (?a + 8 * j) = frame_value ?st j)"
    using save_loop [OF slots16(1,2), of ?st] slots16(3) sp unfolding save_registers_eq by simp
  then have s1: "gp_regs ?st1 = gp_regs st" "sp_el2 ?st1 = ?a" "\<And>j. j < 32 \<Longrightarrow> load64 (stack ?st1) (?a + 8 * j) = frame_value ?st j"
    by auto
  have st': "st' = exec_insn Adr_X30_Exit (exec_insn Mov_X0_Sp ?st1)" unfolding st'_def by simp
  show "sp_el2 st' = sp_el2 st - 256" "gp_regs st' ! 0 = word_of_nat (sp_el2 st - 256)" "length (gp_regs st') = 31"
    unfolding st' using s1 assms(1) by (simp_all add: set_reg_def)
  have "stack st' = stack ?st1" unfolding st' by (simp add: set_reg_def)
  then show "get_frame (stack st') (sp_el2 st - 256) = gp_regs st @ [0]"
    using s1(3) sp(2) assms(1)
    by (intro nth_equalityI) (auto simp: get_frame_def frame_value_def frame_reg_def reg_value_def nth_append less_Suc_eq)
qed

lemma exit_restores:
  assumes "length (gp_regs st) = 31" "sp_el2 st + 256 < usize_range" "get_frame (stack st) (sp_el2 st) = rs"
  shows "gp_regs (exec_insns exit_exception st) = take 31 rs" "sp_el2 (exec_insns exit_exception st) = sp_el2 st + 256"
proof -
  let ?st = "exec_insns (map ldp_at (rev [0..<16])) st"
  have r: "sp_el2 ?st = sp_el2 st" "length (gp_regs ?st) = 31" "\<And>j. j < 31 \<Longrightarrow> gp_regs ?st ! j = load64 (stack st) (sp_el2 st + 8 * j)"
    using restore_loop [OF slots16(1), of st] slots16(3) assms(1,2) by simp_all
  show "gp_regs (exec_insns exit_exception st) = take 31 rs"
    unfolding exit_exception_eq exec_insns_simps exec_insn.simps using r assms(3)
    by (intro nth_equalityI) (auto simp: get_frame_def)
  show "sp_el2 (exec_insns exit_exception st) = sp_el2 st + 256"
    unfolding exit_exception_eq exec_insns_simps exec_insn.simps using r(1) assms(2) by simp
qed

lemma get_put_frame: "length rs = 32 \<Longrightarrow> get_frame (put_frame m a rs) a = rs"
proof -
  have "\<forall>j < 32. load64 (foldl (\<lambda>m i. store64 m (a + 8 * i) (rs ! i)) m [0..<n]) (a + 8 * j) =
    (if j < n then rs ! j else load64 m (a + 8 * j))" for n
  proof (induction n)
    case (Suc n)
    then show ?case by (auto simp: load64_slot less_Suc_eq)
  qed simp
  then show "length rs = 32 \<Longrightarrow> get_frame (put_frame m a rs) a = rs"
    by (intro nth_equalityI) (auto simp: get_frame_def put_frame_def)
qed

end
