(* ===== verification/Exception_Spec.thy ===== *)
theory Exception_Spec
  imports Exception_Entry Vm_Spec
begin

text \<open>
  An exception of a guest from its vector to the return: the assembly around the handler and the
  handler together.
\<close>

lemma data_abort_registers:
  assumes "length registers = 32" "data_abort_handler hw fs s registers esr = Some (s', registers')"
  shows "elr_el2 (sy_regs s') = elr_el2 (sy_regs s) + 4 \<and>
    (\<exists>x. registers' = (if esr AND ESR_EL2_ISS_WNR \<noteq> 0 then registers else registers[register_number_of esr := x]))"
proof -
  from assms(2) have isv: "esr AND ESR_EL2_ISS_ISV \<noteq> 0" by (auto simp: data_abort_handler_def split: if_splits)
  obtain v where v: "get_current_vm s = Some v"
    using assms(2) isv by (cases "get_current_vm s") (auto simp: data_abort_handler_def Let_def bind_eq_Some_conv split: if_splits)
  have e: "elr_el2 (sy_regs (after_abort s v' mc c)) = elr_el2 (sy_regs s) + 4" for v' mc c
    by (simp add: after_abort_def put_vm_def)
  show ?thesis using assms(2) unfolding data_abort_eq [OF assms(1) isv v]
    by (elim if_Some_eqE option_bindE) (auto simp: e split: prod.splits result.splits if_splits)
qed

text \<open>C35: a guest whose access has been handled goes on behind the instruction with all its registers
  as they were, but for the destination of a load, whatever the handler leaves in the registers; an
  access that names register 31 changes none. The stack pointer of the hypervisor is back where it was.\<close>

theorem guest_registers_preserved:
  assumes "length (gp_regs st) = 31" "256 \<le> sp_el2 st" "sp_el2 st < 2 ^ 64"
    and "guest_synchronous hw fs clobbered s st = Some (s', st')" "length clobbered = 31"
  shows "sp_el2 st' = sp_el2 st \<and> length (gp_regs st') = 31 \<and> elr_el2 (sy_regs s') = elr_el2 (sy_regs s) + 4 \<and>
    (\<forall>n < 31. n = register_number_of (esr_el2 (sy_regs s)) \<and> esr_el2 (sy_regs s) AND ESR_EL2_ISS_WNR = 0 \<or>
       gp_regs st' ! n = gp_regs st ! n)"
proof -
  let ?esr = "esr_el2 (sy_regs s)" and ?a = "sp_el2 st - 256" and ?st = "exec_insns synchronous_lower_el_aarch64 st"
  have sp: "sp_el2 st < usize_range" using assms(3) by (simp add: usize_range_def)
  note v = vector_saves [OF assms(1,2) sp, of Synchronous_Handler, folded synchronous_lower_el_aarch64_def]
  have a: "unat (gp_regs ?st ! 0) = ?a" unfolding v(2) using assms(3) by (simp add: unat_of_nat)
  from assms(4) obtain rs where h: "synchronous_handler hw fs s (gp_regs st @ [0]) = Some (s', rs)"
    and st': "st' = exec_insns exit_exception (?st\<lparr>gp_regs := clobbered, stack := put_frame (stack ?st) ?a rs\<rparr>)"
    unfolding guest_synchronous_def Let_def a v(4) by (auto simp: bind_eq_Some_conv)
  then have d: "data_abort_handler hw fs s (gp_regs st @ [0]) ?esr = Some (s', rs)"
    by (simp add: synchronous_handler_def Let_def get_esr_el2_def split: if_splits)
  obtain x where r: "elr_el2 (sy_regs s') = elr_el2 (sy_regs s) + 4"
    "rs = (if ?esr AND ESR_EL2_ISS_WNR \<noteq> 0 then gp_regs st @ [0] else (gp_regs st @ [0])[register_number_of ?esr := x])"
    using data_abort_registers [OF _ d] assms(1) by auto
  then have l: "length rs = 32" using assms(1) by simp
  let ?st1 = "?st\<lparr>gp_regs := clobbered, stack := put_frame (stack ?st) ?a rs\<rparr>"
  have f: "get_frame (stack ?st1) (sp_el2 ?st1) = rs" using get_put_frame [OF l] v(1) by simp
  have lim: "sp_el2 ?st1 + 256 < usize_range" using v(1) assms(2) sp by simp
  have e: "gp_regs st' = take 31 rs" "sp_el2 st' = sp_el2 st"
    unfolding st' using exit_restores [OF _ lim f] v(1) assms(2,5) by simp_all
  have "n = register_number_of ?esr \<and> ?esr AND ESR_EL2_ISS_WNR = 0 \<or> gp_regs st' ! n = gp_regs st ! n" if "n < 31" for n
    using that assms(1) by (cases "n = register_number_of ?esr") (auto simp: e(1) r(2) nth_append)
  then show ?thesis using e l r(1) by simp
qed

definition demo_entry :: entry_state where
  "demo_entry = \<lparr>gp_regs = replicate 31 7, sp_el2 = 0x10000, stack = (\<lambda>_. 0), exit_exception_address = 0x880\<rparr>"

definition demo_abort :: "ref_dev system" where
  "demo_abort = (demo_system 0x90000 0x18)\<lparr>sy_regs := (demo_regs 0x90000 0x18)\<lparr>esr_el2 := 0x91830000\<rparr>\<rparr>"

theorem guest_registers_preserved_witness:
  "\<exists>s' st'. guest_synchronous ref_hw demo_fs (replicate 31 0) demo_abort demo_entry = Some (s', st') \<and> gp_regs st' ! 4 = 7 \<and>
     elr_el2 (sy_regs s') = 0x40080004"
proof -
  have esr: "(0x91830000 :: u64) AND ESR_EL2_ISS_ISV \<noteq> 0" "register_number_of 0x91830000 = 3"
    "(0x91830000 :: u64) AND ESR_EL2_EC = ESR_EL2_EC_DATA_ABORT"
    by (simp_all add: ESR_EL2_ISS_ISV_def ESR_EL2_EC_def ESR_EL2_EC_BITS_OFFSET_def ESR_EL2_EC_DATA_ABORT_def
        register_number_of_def ESR_EL2_ISS_SRT_BITS_OFFSET_def ESR_EL2_ISS_SRT_def)
  have wf: "system_wf demo_abort" using demo_system_wf [of "0x90000" "0x18"]
    by (simp add: demo_abort_def system_wf_def demo_system_def demo_regs_def)
  have cur: "get_current_vm demo_abort = Some (demo_vm 0 0x50000000)"
    using demo_current [of "0x90000" "0x18"] by (simp add: demo_abort_def get_current_vm_def demo_system_def demo_regs_def get_tpidr_el2_def)
  have win: "window_of (abort_address demo_abort) = Some (0x9000000, Pl011_Handler)"
    using demo_window by (simp add: abort_address_def demo_abort_def demo_system_def demo_regs_def get_hpfar_el2_def get_far_el2_def)
  have st: "length (gp_regs demo_entry) = 31" "256 \<le> sp_el2 demo_entry" "sp_el2 demo_entry < 2 ^ 64" "sp_el2 demo_entry < usize_range"
    by (simp_all add: demo_entry_def usize_range_def)
  note v = vector_saves [OF st(1,2,4), of Synchronous_Handler, folded synchronous_lower_el_aarch64_def]
  have a: "unat (gp_regs (exec_insns synchronous_lower_el_aarch64 demo_entry) ! 0) = sp_el2 demo_entry - 256"
    unfolding v(2) by (simp add: demo_entry_def unat_of_nat)
  have regs: "esr_el2 (sy_regs demo_abort) = 0x91830000" "elr_el2 (sy_regs demo_abort) = 0x40080000"
    by (simp_all add: demo_abort_def demo_regs_def)
  obtain s' rs where "data_abort_handler ref_hw demo_fs demo_abort (gp_regs demo_entry @ [0]) 0x91830000 = Some (s', rs)"
    using data_abort_handled [OF wf cur _ esr(1) win, of "gp_regs demo_entry @ [0]" ref_hw demo_fs] st(1) regs by (auto split: if_splits)
  then have "synchronous_handler ref_hw demo_fs demo_abort (gp_regs demo_entry @ [0]) = Some (s', rs)"
    using esr(3) regs(1) by (simp add: synchronous_handler_def get_esr_el2_def)
  then obtain st' where g: "guest_synchronous ref_hw demo_fs (replicate 31 0) demo_abort demo_entry = Some (s', st')"
    unfolding guest_synchronous_def Let_def a v(4) by simp
  from guest_registers_preserved [OF st(1-3) g] have "gp_regs st' ! 4 = gp_regs demo_entry ! 4" "elr_el2 (sy_regs s') = 0x40080004"
    using esr(2) regs by (auto dest!: spec [of _ 4])
  then show ?thesis using g by (simp add: demo_entry_def)
qed

end
