(* ===== verification/Spec2Isabelle.thy ===== *)
theory Spec2Isabelle
  imports Allocator_Spec Gic_Spec Pl011_Mmio Spin_Lock Paging_Spec Fat32_Spec Virtio_Spec Vm_Translation Exception_Spec
begin

text \<open>
  MiniVisor is a small type 1 hypervisor for 64-bit Arm. This development models its Rust code
  under \<open>src/src\<close> and proves what makes its parts correct.

  \<^bold>\<open>The program and its parts\<close>

  \<^item> Start-up (\<open>main.rs\<close>): \<open>main\<close> finds the devices in the device tree (\<open>dtb.rs\<close>), hands the RAM
    that is not in use (segments of \<open>elf.rs\<close>, device tree, stack) to the memory allocator, sets up the
    serial port, the physical interrupt controller and timer (\<open>drivers/\<close>), the disk
    (\<open>drivers/virtio_blk.rs\<close>) and its file system (\<open>fat32.rs\<close>), starts the other CPUs through the
    firmware (\<open>psci.rs\<close>) and creates and boots virtual machines (\<open>vm.rs\<close>).
  \<^item> A virtual machine has RAM behind stage 2 page tables (\<open>paging.rs\<close>) and emulated devices
    (\<open>mmio/\<close>): interrupt distributor and redistributor, UART and disk. An access of the guest to a
    device is an exception (\<open>exception.rs\<close>) that \<open>vm.rs\<close> dispatches to the device; the emulated disk
    reads and writes a file of the FAT32 file system; interrupts reach the guest through the
    list registers (\<open>vgic.rs\<close>).
  \<^item> Characters of the terminal go to the active virtual machine or to the console (\<open>console.rs\<close>).
    Shared state is protected by the spin lock of \<open>lock.rs\<close>.

  \<^bold>\<open>Conventions\<close>

  A function that can panic returns an option and a panic is \<open>None\<close>; Rust's \<open>Result\<close> is the
  datatype \<open>result\<close> (\<open>Ok\<close>, \<open>Err\<close>). \<open>usize\<close> is \<open>nat\<close> with the checked operations \<open>uadd\<close>, \<open>usub\<close>,
  \<open>umul\<close> of a build with overflow checks; registers and bit fields are words of their width. A loop
  over a range is structural recursion on the list of the remaining indices. A loop that may not end
  is a \<open>partial_function (option)\<close>, for which \<open>None\<close> is also the value of a run without end; no fuel
  is used, so a theorem with \<open>Some\<close> on the right says that the code returns. Mutable state is
  passed explicitly: the state of a device, of the current CPU (\<open>cpu\<close>, \<open>sysregs\<close>), of the machine
  below the drivers (\<open>machine\<close>: byte memory, hardware, page allocator, disk driver), of all virtual machines
  (\<open>system\<close>), of the start-up code (\<open>hypervisor\<close>) and of the console (\<open>host\<close>). Hardware and
  firmware are the parameter \<open>hw\<close>. Page tables lie in a memory of their own (\<open>table_mem\<close>), and so
  does the exception frame. Code that holds a \<open>Mutex\<close> runs as one step; \<open>Spin_Lock\<close> justifies it.

  \<^bold>\<open>The theories\<close>

  \<^item> \<open>Prelude\<close>: results, panics, checked arithmetic, words, arrays; \<open>Byte_Mem\<close>: loads and stores;
    \<open>Machine\<close>: the surroundings of drivers.
  \<^item> \<open>Linked_List\<close>, \<open>Memory_Allocator\<close> (\<open>memory_allocator.rs\<close>, every function), \<open>Allocator_Invariant\<close>,
    \<open>Allocator_Alloc\<close>, \<open>Allocator_Request\<close>, \<open>Allocator_Free\<close>, \<open>Page_Alloc\<close> (page and heap allocation and
    \<open>setup_memory\<close> of \<open>main.rs\<close>) and \<open>Allocator_Spec\<close>. The invariant ties the pool, the list by address and the free
    lists by order to the set of free addresses. Allocation is sound, fails for lack of memory exactly in the stated cases, blocks are
    aligned and disjoint, freeing undoes allocation, and boot leaves exactly the unused RAM free.
  \<^item> \<open>Paging\<close> (\<open>paging.rs\<close>), \<open>Paging_Walk\<close>, \<open>Paging_Map\<close>, \<open>Paging_Spec\<close>: the walk of the
    hardware, with its check of the access flag, is the reference; mapping changes the translation of the
    range as requested and of no other address, but for the rest of a block that the range
    overlaps, which faults; failing opens nothing outside the range, and a new virtual machine
    reaches exactly its RAM.
  \<^item> \<open>Vgic\<close> (\<open>vgic.rs\<close>), \<open>Gic_Mmio\<close> and \<open>Gic_Redist\<close> (\<open>mmio/gicv3.rs\<close>), \<open>Gicd_Props\<close>,
    \<open>Gic_Delivery\<close>, \<open>Gic_Spec\<close>: register banks are refined to sets of interrupts; delivery to the
    local CPU and, read as the hardware reads \<open>ICC_SGI1R_EL1\<close>, to another CPU with affinity level 1 equal to 0;
    retirement; which accesses can make the handler panic.
  \<^item> \<open>Pl011_Mmio\<close> (\<open>mmio/pl011.rs\<close>): the receive buffer as a queue. \<open>Mmio_Device\<close>: the contract of the
    trait \<open>MmioHandler\<close>.
  \<^item> \<open>Spin_Lock\<close> (\<open>lock.rs\<close>): a step relation over any number of CPUs, in which the inner loop tests the value of the
    lock that the CPU sees; exclusion, restored interrupt masks, progress.
  \<^item> \<open>Virtio_Driver\<close> (\<open>drivers/virtio.rs\<close>, \<open>drivers/virtio_blk.rs\<close>), \<open>Blk_Device\<close>, \<open>Fat32\<close> (\<open>fat32.rs\<close>),
    \<open>Fat32_Read\<close>, \<open>Fat32_Write\<close>, \<open>Fat32_Spec\<close>: a request to the disk, ranges of files on consecutive
    clusters read and written (the start exactly one sector into a cluster is a case of its own, as in the
    code), behaviour on fragmented files, termination of the cluster loops. The driver's index has 16
    bits and its addition is checked, so these theorems bound the number of requests.
  \<^item> \<open>Virtio_Mmio\<close> (\<open>mmio/virtio_blk.rs\<close>), \<open>Virtio_Spec\<close>: a disk read of a guest from the notification
    through the emulated device, the file system and the driver to the interrupt.
  \<^item> \<open>Cpu_State\<close> (\<open>asm.rs\<close>, \<open>registers.rs\<close>), \<open>Gic_Driver\<close> (\<open>drivers/gicv3.rs\<close>,
    \<open>drivers/generic_timer.rs\<close>, \<open>init_vgic\<close>), \<open>Vm\<close> (\<open>vm.rs\<close>), \<open>Dtb\<close> (\<open>dtb.rs\<close>), \<open>Psci\<close> (\<open>psci.rs\<close>), \<open>Elf\<close>
    (\<open>elf.rs\<close>), \<open>Serial\<close> (\<open>serial.rs\<close>, \<open>drivers/pl011.rs\<close>), \<open>Boot\<close> (\<open>main.rs\<close>), \<open>Console\<close>
    (\<open>console.rs\<close>, \<open>handle_input\<close>), \<open>Exception\<close> and \<open>Exception_Entry\<close> (handlers and vectors of
    \<open>exception.rs\<close>).
  \<^item> \<open>Vm_Invariant\<close>, \<open>Vm_Spec\<close>, \<open>Vm_Translation\<close>, \<open>Exception_Spec\<close>: the composition. A handled access
    keeps all virtual machines well-formed, changes only the devices of the current one, and touches memory
    contents only when it notifies the block device; which accesses are always handled, with the answer of the
    device in the register, and which make the handler panic; characters reach the active machine; the console buffer is
    never overrun; translation of guest addresses in software and by the hardware agree; a guest
    gets its registers back.

  \<^bold>\<open>Interfaces\<close>

  \<open>memory_pool\<close> and its extension \<open>releasing_pool\<close> state what clients of the allocator rely on and are
  interpreted on \<open>allocate\<close> and \<open>ma_free\<close> (\<open>ma\<close>, in \<open>Page_Alloc\<close>). \<open>mmio_device\<close> and \<open>total_mmio_device\<close>
  state that accesses keep an invariant, do not panic and answer \<open>Ok\<close>; they are interpreted on the UART
  (\<open>uart\<close>), the distributor (\<open>gicd\<close>) and the redistributor (\<open>gicr\<close>). \<open>blk_device\<close> is the contract of the real
  disk, which is not part of the sources: after a notification it serves a queued request as the
  virtio specification says. Its interpretation \<open>ref\<close> is a reference device that takes one step from
  notification to completion, and the properties that rest on the contract are instantiated with it.

  \<^bold>\<open>Not modelled\<close>

  Text that the hypervisor prints, and with it formatting and the text of the panic handler (a panic is the absence of a
  result); barriers, cache and TLB maintenance and the processor's relaxed memory order, but for the
  stale load of the spin lock; alignment checks that debug assertions add to raw pointer accesses; the
  instructions \<open>eret\<close> and \<open>core_entry\<close>, which leave the modelled code; the accessors of \<open>VTCR_EL2\<close>, \<open>VTTBR_EL2\<close>,
  \<open>ICH_LR<n>_EL2\<close>, \<open>ICH_VTR_EL2\<close>, \<open>ICH_EISR_EL2\<close> and \<open>ICC_SGI1R_EL1\<close> as functions of their own (the registers are
  fields of \<open>stage2\<close> and \<open>cpu\<close>).
\<close>

end
